(* ===== verification/Prelude.thy ===== *)
theory Prelude
  imports Main "HOL-Library.Word"
begin

unbundle bit_operations_syntax

text \<open>
  Shared vocabulary of the development: machine integers, C byte buffers and
  strings, decimal output, and the generic lemmas the components rely on.
\<close>

section \<open>Machine types\<close>

type_synonym u8 = "8 word"
type_synonym u16 = "16 word"
type_synonym u32 = "32 word"
type_synonym u64 = "64 word"
type_synonym i32 = "32 word"
type_synonym pid_t = "32 word"
type_synonym bytes = "char list"

text \<open>
  \<open>bpf_defs\<close> collects the defining equations of the straight-line handlers,
  \<open>c_simps\<close> the evaluation rules of the C string functions.
\<close>

named_theorems bpf_defs
named_theorems c_simps

abbreviation NUL :: char where
  "NUL \<equiv> CHR 0x00"

text \<open>The value of a byte as an unsigned char.\<close>

abbreviation ord :: "char \<Rightarrow> nat" where
  "ord c \<equiv> of_char c"

section \<open>C strings\<close>

text \<open>The C string held by a buffer: the bytes before the first NUL.\<close>

definition c_str :: "bytes \<Rightarrow> bytes" where
  "c_str b = takeWhile (\<lambda>c. c \<noteq> NUL) b"

lemma c_str_no_nul [simp]: "NUL \<notin> set (c_str b)"
  by (auto simp: c_str_def dest: set_takeWhileD)

lemma c_str_idem [simp]: "c_str (c_str b) = c_str b"
  by (simp add: c_str_def)

lemma c_str_Nil [simp, c_simps]: "c_str [] = []"
  by (simp add: c_str_def)

lemma c_str_Cons [simp, c_simps]: "c_str (c # cs) = (if c = NUL then [] else c # c_str cs)"
  by (simp add: c_str_def)

lemma c_str_append_nul [simp]: "NUL \<notin> set s \<Longrightarrow> c_str (s @ NUL # t) = s"
  by (induction s) auto

lemma c_str_fix: "NUL \<notin> set s \<Longrightarrow> c_str s = s"
  by (induction s) auto

lemma length_c_str_le: "length (c_str b) \<le> length b"
  by (simp add: c_str_def length_takeWhile_le)

section \<open>Decimal output\<close>

text \<open>\<open>dec_nat\<close> is what \<open>printf\<close> writes for \<open>%u\<close> and \<open>%llu\<close>, \<open>dec_int\<close> for \<open>%d\<close>.\<close>

definition digit :: "nat \<Rightarrow> char" where
  "digit d = char_of (48 + d)"

fun dec_nat :: "nat \<Rightarrow> bytes" where
  "dec_nat n = (if n < 10 then [digit n] else dec_nat (n div 10) @ [digit (n mod 10)])"

declare dec_nat.simps [simp del]

definition dec_int :: "int \<Rightarrow> bytes" where
  "dec_int i = (if i < 0 then CHR ''-'' # dec_nat (nat (- i)) else dec_nat (nat i))"

section \<open>Lists\<close>

lemma distinct_map_filterI:
  assumes "\<And>i j. i < length xs \<Longrightarrow> j < length xs \<Longrightarrow> P (xs ! i) \<Longrightarrow> P (xs ! j) \<Longrightarrow> f (xs ! i) = f (xs ! j) \<Longrightarrow> i = j"
  shows "distinct (map f (filter P xs))"
  using assms
proof (induction xs)
  case (Cons x xs)
  have "distinct (map f (filter P xs))"
    using Cons.prems[of "Suc i" "Suc j" for i j] by (intro Cons.IH) simp
  moreover have "f x \<notin> f ` set (filter P xs)" if "P x"
  proof
    assume "f x \<in> f ` set (filter P xs)"
    then obtain j where "j < length xs" "P (xs ! j)" "f x = f (xs ! j)"
      by (auto simp: in_set_conv_nth)
    then show False using Cons.prems[of 0 "Suc j"] that by simp
  qed
  ultimately show ?case by simp
qed simp

lemma find_upt_eqI:
  assumes "i < n" "P i" "\<And>j. j < i \<Longrightarrow> \<not> P j"
  shows "find P [0..<n] = Some i"
  using assms by (auto simp: find_Some_iff)

lemma find_upt_SomeD:
  assumes "find P [0..<n] = Some i"
  shows "i < n" "P i" "\<And>j. j < i \<Longrightarrow> \<not> P j"
  using assms by (auto simp: find_Some_iff)

lemma find_upt_NoneD: "find P [0..<n] = None \<Longrightarrow> i < n \<Longrightarrow> \<not> P i"
  by (auto simp: find_None_iff)

lemma find_from_SomeD:
  assumes "find P [a..<n] = Some i"
  shows "a \<le> i" "i < n" "P i" "\<And>j. a \<le> j \<Longrightarrow> j < i \<Longrightarrow> \<not> P j"
proof -
  obtain k where k: "k < n - a" "i = a + k" "P i" "\<And>j. j < k \<Longrightarrow> \<not> P (a + j)"
    using assms by (auto simp: find_Some_iff)
  then show "a \<le> i" "i < n" "P i" by simp_all
  show "\<not> P j" if "a \<le> j" "j < i" for j
    using k(4)[of "j - a"] k(2) that by simp
qed

lemma upt_split: "a \<le> m \<Longrightarrow> m < n \<Longrightarrow> [a..<n] = [a..<m] @ m # [m + 1..<n]"
  using upt_add_eq_append[of a m "n - m"] by (simp add: upt_conv_Cons)

section \<open>Signed 32-bit values\<close>

lemma uint_sint_mod: "uint (w::i32) = sint w mod 4294967296"
  using uint_sint[of w] by (simp add: take_bit_eq_mod)

lemma unat_neg_sint: "sint (w::i32) < 0 \<Longrightarrow> unat (- w) = nat (- sint w)"
proof -
  assume neg: "sint w < 0"
  have lo: "- 2147483648 \<le> sint w" using sint_ge[of w] by simp
  have "uint (- w) = (- uint w) mod 4294967296" using uint_word_ariths(4)[of w] by simp
  also have "\<dots> = (- sint w) mod 4294967296" unfolding uint_sint_mod by (simp add: mod_minus_eq)
  also have "\<dots> = - sint w" using neg lo by simp
  finally show ?thesis by (metis nat_uint_eq)
qed

lemma unat_nonneg_sint: "0 \<le> sint (w::i32) \<Longrightarrow> unat w = nat (sint w)"
proof -
  assume nn: "0 \<le> sint w"
  have hi: "sint w < 2147483648" using sint_lt[of w] by simp
  have "uint w = sint w" using uint_sint_mod[of w] nn hi by simp
  then show ?thesis by (metis nat_uint_eq)
qed

lemma unat_u8: "unat (w::u8) < 256"
proof -
  have "unat w < 2 ^ LENGTH(8)" by (rule unsigned_less)
  then show ?thesis by simp
qed

lemma unat_u16: "unat (w::u16) < 65536"
proof -
  have "unat w < 2 ^ LENGTH(16)" by (rule unsigned_less)
  then show ?thesis by simp
qed

lemma unat_u32: "unat (w::u32) < 4294967296"
proof -
  have "unat w < 2 ^ LENGTH(32)" by (rule unsigned_less)
  then show ?thesis by simp
qed

lemma unat_u64: "unat (w::u64) < 18446744073709551616"
proof -
  have "unat w < 2 ^ LENGTH(64)" by (rule unsigned_less)
  then show ?thesis by simp
qed

lemma unat_add_u32: "unat (a::u32) + unat b < 4294967296 \<Longrightarrow> unat (a + b) = unat a + unat b"
  by (simp add: unat_word_ariths)

lemma unat_add_u64: "unat (a::u64) + unat b < 18446744073709551616 \<Longrightarrow> unat (a + b) = unat a + unat b"
  by (simp add: unat_word_ariths)

lemma unat_ucast_u32: "unat (x::u64) < 4294967296 \<Longrightarrow> unat (ucast x :: u32) = unat x"
  by (simp add: unsigned_ucast_eq take_bit_nat_eq_self)

lemma unat_ucast_u64: "unat (ucast (x::u32) :: u64) = unat x"
  using unat_u32[of x] by (simp add: unsigned_ucast_eq take_bit_nat_eq_self)

lemma unat_of_nat_u32: "n < 4294967296 \<Longrightarrow> unat (of_nat n :: u32) = n"
  by (simp add: unat_of_nat)

lemma unat_of_nat_u64: "n < 18446744073709551616 \<Longrightarrow> unat (of_nat n :: u64) = n"
  by (simp add: unat_of_nat)

lemma unat_if_less: "unat (if a < b then a else b :: 'a::len word) = min (unat a) (unat b)"
  by (simp add: word_less_nat_alt)

lemma unat_eq_0: "(w :: 'a::len word) = 0 \<longleftrightarrow> unat w = 0"
  by (simp add: unat_eq_zero)

lemma unat_word_of_int_u32: "0 \<le> i \<Longrightarrow> i \<le> 0xffffffff \<Longrightarrow> unat (word_of_int i :: u32) = nat i"
  by (simp add: unsigned_of_int take_bit_int_eq_self)

end
