(* ===== verification/Bpf_Runtime.thy ===== *)
theory Bpf_Runtime
  imports Prelude
begin

text \<open>
  What the BPF programs see of the kernel. A handler runs against a \<open>bpf_env\<close>: the values the
  helpers return to this invocation, the memory of the traced process and whether the kernel has
  room for a new element in the hash map the handler inserts into. The kernel's code is not part
  of the repository, so all of these are arguments of the handlers; nothing is assumed of them
  here. A hash map is a finite map; \<open>map_iter\<close> states what \<open>bpf_map_get_next_key\<close> documents.
\<close>

unbundle bit_operations_syntax

record bpf_env =
  pid_tgid :: u64
  uid_gid :: u64
  ktime :: u64
  cur_comm :: bytes
  cgroup_id :: u64
  cpu :: nat
  args :: "nat \<Rightarrow> u64"
  user_str :: "u64 \<Rightarrow> bytes option"
  user_mem :: "u64 \<Rightarrow> nat \<Rightarrow> bytes option"
  room :: bool

text \<open>\<open>bpf_get_current_pid_tgid() >> 32\<close> and its low half, assigned to 32-bit variables.\<close>

definition cur_tgid :: "'a bpf_env_scheme \<Rightarrow> u32" where
  "cur_tgid env = ucast (drop_bit 32 (pid_tgid env))"

definition cur_tid :: "'a bpf_env_scheme \<Rightarrow> u32" where
  "cur_tid env = ucast (pid_tgid env)"

definition arg_int :: "'a bpf_env_scheme \<Rightarrow> nat \<Rightarrow> i32" where
  "arg_int env i = ucast (args env i)"

text \<open>
  \<open>bpf_probe_read_user_str\<close> into a buffer of \<open>sz\<close> bytes: the string that is in the buffer
  afterwards, or \<open>None\<close> for a negative return value.
\<close>

definition probe_read_user_str :: "'a bpf_env_scheme \<Rightarrow> nat \<Rightarrow> u64 \<Rightarrow> bytes option" where
  "probe_read_user_str env sz addr = map_option (\<lambda>s. take (sz - 1) (c_str s)) (user_str env addr)"

text \<open>\<open>bpf_probe_read_kernel_str\<close> of a string that is already in kernel memory.\<close>

definition probe_read_kernel_str :: "nat \<Rightarrow> bytes \<Rightarrow> bytes" where
  "probe_read_kernel_str sz s = take (sz - 1) (c_str s)"

text \<open>\<open>bpf_map_update_elem\<close>: the flag of the result is whether it returned 0.\<close>

datatype update_flag = BPF_ANY | BPF_NOEXIST

definition map_update :: "bool \<Rightarrow> ('k \<rightharpoonup> 'v) \<Rightarrow> 'k \<Rightarrow> 'v \<Rightarrow> update_flag \<Rightarrow> bool \<times> ('k \<rightharpoonup> 'v)" where
  "map_update has_room m k v flag =
     (case m k of
        Some _ \<Rightarrow> (case flag of BPF_NOEXIST \<Rightarrow> (False, m) | BPF_ANY \<Rightarrow> (True, m(k \<mapsto> v)))
      | None \<Rightarrow> if has_room then (True, m(k \<mapsto> v)) else (False, m))"

definition map_delete :: "('k \<rightharpoonup> 'v) \<Rightarrow> 'k \<Rightarrow> ('k \<rightharpoonup> 'v)" where
  "map_delete m k = m(k := None)"

lemma map_update_dom: "snd (map_update r m k v f) k' \<noteq> None \<longleftrightarrow> m k' \<noteq> None \<or> (k' = k \<and> r)"
  by (auto simp: map_update_def split: option.splits update_flag.splits)

lemma map_update_other: "k' \<noteq> k \<Longrightarrow> snd (map_update r m k v f) k' = m k'"
  by (auto simp: map_update_def split: option.splits update_flag.splits)

lemma map_update_finite: "finite (dom m) \<Longrightarrow> finite (dom (snd (map_update r m k v f)))"
  by (auto simp: map_update_def split: option.splits update_flag.splits)

section \<open>Reading the memory of the traced process\<close>

text \<open>\<open>bpf_probe_read_user\<close> of \<open>n\<close> bytes to offset \<open>off\<close> of a buffer: whether it succeeded, and the buffer.\<close>

definition read_into :: "'a bpf_env_scheme \<Rightarrow> bytes \<Rightarrow> nat \<Rightarrow> nat \<Rightarrow> u64 \<Rightarrow> bool \<times> bytes" where
  "read_into env dst off n addr =
     (case user_mem env addr n of
        Some raw \<Rightarrow> (True, take off dst @ raw @ drop (off + n) dst)
      | None \<Rightarrow> (False, take off dst @ replicate n NUL @ drop (off + n) dst))"

text \<open>
  \<open>read_into\<close> keeps the length of the buffer exactly when the write is inside it, so a buffer that
  keeps its length was never overrun.
\<close>

definition reads_exact :: "'a bpf_env_scheme \<Rightarrow> bool" where
  "reads_exact env \<longleftrightarrow> (\<forall>addr n raw. user_mem env addr n = Some raw \<longrightarrow> length raw = n)"

lemma read_into_length:
  "reads_exact env \<Longrightarrow> off + n \<le> length dst \<Longrightarrow> length (snd (read_into env dst off n addr)) = length dst"
  by (auto simp: read_into_def reads_exact_def split: option.splits)

text \<open>Memory as a function of the address: \<open>seg\<close> is a range of it, \<open>readable\<close> a process all of whose reads succeed.\<close>

definition seg :: "(u64 \<Rightarrow> char) \<Rightarrow> u64 \<Rightarrow> nat \<Rightarrow> bytes" where
  "seg mem a n = map (\<lambda>i. mem (a + of_nat i)) [0..<n]"

definition readable :: "'a bpf_env_scheme \<Rightarrow> (u64 \<Rightarrow> char) \<Rightarrow> bool" where
  "readable env mem \<longleftrightarrow> (\<forall>a n. user_mem env a n = Some (seg mem a n))"

lemma length_seg [simp]: "length (seg mem a n) = n"
  by (simp add: seg_def)

lemma seg_0 [simp]: "seg mem a 0 = []"
  by (simp add: seg_def)

lemma seg_add: "seg mem a (m + n) = seg mem a m @ seg mem (a + of_nat m) n"
proof -
  have "map (\<lambda>i. mem (a + of_nat i)) [m..<m + n] = map (\<lambda>i. mem (a + of_nat m + of_nat i)) [0..<n]"
    by (intro nth_equalityI) (simp_all add: add.assoc)
  then show ?thesis unfolding seg_def by (simp add: upt_add_eq_append[of 0 m n])
qed

lemma take_seg: "take k (seg mem a n) = seg mem a (min k n)"
proof -
  have "take k [0..<n] = [0..<min k n]" by (cases "k \<le> n") (simp_all add: take_upt)
  then show ?thesis by (simp add: seg_def take_map)
qed

lemma read_into_readable:
  "readable env mem \<Longrightarrow> read_into env dst off n a = (True, take off dst @ seg mem a n @ drop (off + n) dst)"
  by (simp add: readable_def read_into_def)

section \<open>Fixed-size character buffers\<close>

text \<open>A buffer of \<open>n\<close> bytes that holds a string and is NUL from its end on.\<close>

definition zbuf :: "nat \<Rightarrow> bytes \<Rightarrow> bytes" where
  "zbuf n s = s @ replicate (n - length s) NUL"

text \<open>\<open>if (pos < buf_len - 1) buf[pos++] = c;\<close> and a run of such writes.\<close>

definition put_char :: "nat \<Rightarrow> char \<Rightarrow> bytes \<times> nat \<Rightarrow> bytes \<times> nat" where
  "put_char buf_len c bp = (case bp of (buf, pos) \<Rightarrow>
     if pos < buf_len - 1 then (buf[pos := c], pos + 1) else (buf, pos))"

fun put_chars :: "nat \<Rightarrow> bytes \<Rightarrow> bytes \<times> nat \<Rightarrow> bytes \<times> nat" where
  "put_chars buf_len [] bp = bp"
| "put_chars buf_len (c # cs) bp = (if snd bp < buf_len - 1 then put_chars buf_len cs (put_char buf_len c bp) else bp)"

lemma zbuf_update: "length s < n \<Longrightarrow> (zbuf n s)[length s := c] = zbuf n (s @ [c])"
proof -
  assume "length s < n"
  then obtain m where m: "n - length s = Suc m" by (metis Suc_diff_Suc)
  then have "n - Suc (length s) = m" by simp
  with m show ?thesis by (simp add: zbuf_def list_update_append)
qed

lemma put_char_zbuf: "length s < n - 1 \<Longrightarrow> put_char n c (zbuf n s, length s) = (zbuf n (s @ [c]), length (s @ [c]))"
  by (simp add: put_char_def zbuf_update)

lemma put_chars_zbuf:
  "put_chars n w (zbuf n s, length s) = (zbuf n (s @ take (n - 1 - length s) w), length (s @ take (n - 1 - length s) w))"
proof (induction w arbitrary: s)
  case (Cons c w)
  show ?case
  proof (cases "length s < n - 1")
    case True
    then obtain m where m: "n - 1 - length s = Suc m" by (metis Suc_diff_Suc)
    then have "n - 1 - length (s @ [c]) = m" by simp
    with True m Cons[of "s @ [c]"] show ?thesis by (simp add: put_char_zbuf)
  qed simp
qed simp

lemma put_chars_fits:
  "length s + length w < n \<Longrightarrow> put_chars n w (zbuf n s, length s) = (zbuf n (s @ w), length (s @ w))"
  by (simp add: put_chars_zbuf)

lemma c_str_zbuf: "NUL \<notin> set s \<Longrightarrow> c_str (zbuf n s) = s"
  by (cases "n - length s") (auto simp: zbuf_def c_str_fix)

lemma length_zbuf: "length s \<le> n \<Longrightarrow> length (zbuf n s) = n"
  by (simp add: zbuf_def)

lemma zbuf_terminate: "length s < n \<Longrightarrow> (zbuf n s)[length s := NUL] = zbuf n s"
proof -
  assume "length s < n"
  then obtain m where "n - length s = Suc m" by (metis Suc_diff_Suc)
  then show ?thesis by (simp add: zbuf_def list_update_append)
qed

text \<open>
  The digits of a number, least significant first, at most \<open>limit\<close> of them: the loops
  \<open>while (val > 0 && dlen < limit) digits[dlen++] = '0' + val % 10; val /= 10;\<close>
\<close>

fun rev_digits :: "nat \<Rightarrow> nat \<Rightarrow> bytes" where
  "rev_digits limit val =
     (if 0 < val \<and> 0 < limit then digit (val mod 10) # rev_digits (limit - 1) (val div 10) else [])"

declare rev_digits.simps [simp del]

definition dec_digits :: "nat \<Rightarrow> nat \<Rightarrow> bytes" where
  "dec_digits limit val = (if val = 0 then [digit 0] else rev (rev_digits limit val))"

lemma rev_digits_dec: "0 < val \<Longrightarrow> val < 10 ^ limit \<Longrightarrow> rev (rev_digits limit val) = dec_nat val"
proof (induction limit arbitrary: val)
  case (Suc limit)
  show ?case
  proof (cases "val < 10")
    case True
    then have "rev_digits limit (val div 10) = []" by (simp add: rev_digits.simps)
    with True Suc.prems show ?thesis by (simp add: rev_digits.simps[of "Suc limit"] dec_nat.simps[of val])
  next
    case False
    then have "rev (rev_digits limit (val div 10)) = dec_nat (val div 10)"
      using Suc.prems by (intro Suc.IH) auto
    with False Suc.prems show ?thesis by (simp add: rev_digits.simps[of "Suc limit"] dec_nat.simps[of val])
  qed
qed simp

lemma dec_digits_dec: "val < 10 ^ limit \<Longrightarrow> dec_digits limit val = dec_nat val"
  by (cases "val = 0") (simp_all add: dec_digits_def rev_digits_dec dec_nat.simps[of 0])

lemma length_dec_nat: "0 < k \<Longrightarrow> val < 10 ^ k \<Longrightarrow> length (dec_nat val) \<le> k"
proof (induction k arbitrary: val)
  case (Suc k)
  show ?case
  proof (cases "val < 10")
    case False
    then have "0 < k" using Suc.prems by (cases k) auto
    with False Suc show ?thesis by (subst dec_nat.simps) (auto simp: less_mult_imp_div_less)
  qed (simp add: dec_nat.simps)
qed simp

lemma dec_nat_ascii: "c \<in> set (dec_nat n) \<Longrightarrow> 48 \<le> ord c \<and> ord c \<le> 57"
proof (induction n rule: dec_nat.induct)
  case (1 n)
  then show ?case by (cases "n < 10") (auto simp: dec_nat.simps[of n] digit_def)
qed

lemma dec_int_ascii: "c \<in> set (dec_int n) \<Longrightarrow> c \<noteq> NUL"
  using dec_nat_ascii by (fastforce simp: dec_int_def split: if_splits)

section \<open>Iterating over a map\<close>

text \<open>
  \<open>bpf_map_get_next_key\<close> walks the keys in an order that deleting a key does not disturb; a key
  that is not in the map gives the first one.
\<close>

fun next_in :: "'k \<Rightarrow> 'k list \<Rightarrow> 'k option" where
  "next_in k [] = None"
| "next_in k (x # xs) = (if x = k then (case xs of [] \<Rightarrow> None | y # _ \<Rightarrow> Some y) else next_in k xs)"

locale map_iter =
  fixes next_key :: "('k \<rightharpoonup> 'v) \<Rightarrow> 'k \<Rightarrow> 'k option"
    and keys :: "('k \<rightharpoonup> 'v) \<Rightarrow> 'k list"
  assumes keys_dom: "finite (dom m) \<Longrightarrow> set (keys m) = dom m"
    and keys_distinct: "distinct (keys m)"
    and keys_delete: "finite (dom m) \<Longrightarrow> keys (m(k := None)) = filter (\<lambda>x. x \<noteq> k) (keys m)"
    and next_absent: "finite (dom m) \<Longrightarrow> m k = None \<Longrightarrow> next_key m k = (case keys m of [] \<Rightarrow> None | x # _ \<Rightarrow> Some x)"
    and next_present: "finite (dom m) \<Longrightarrow> m k \<noteq> None \<Longrightarrow> next_key m k = next_in k (keys m)"

lemma next_in_mid: "distinct (xs @ k # ys) \<Longrightarrow> next_in k (xs @ k # ys) = (case ys of [] \<Rightarrow> None | y # _ \<Rightarrow> Some y)"
  by (induction xs) auto

end
