(* ===== verification/Process_Ext.thy ===== *)
theory Process_Ext
  imports Bpf_Runtime
begin

text \<open>
  The kernel-side extension modules of the process tracer (\<open>bpf/process_ext/\<close>): the aggregation
  maps and their update, PID and cgroup filtering, the string formatters that build the keys, and
  the handlers for file system, write, network, signal, memory and copy-on-write events. A handler
  takes the configuration (the \<open>const volatile\<close> globals), the environment of the call and the state
  of the maps, and returns the new state.
\<close>

unbundle bit_operations_syntax

section \<open>The code: types.h and bpf\_state.h\<close>

definition DETAIL_LEN :: nat where
  "DETAIL_LEN = 64"

definition TASK_COMM_LEN :: nat where
  "TASK_COMM_LEN = 16"

definition MAX_FILENAME_LEN :: nat where
  "MAX_FILENAME_LEN = 127"

record agg_key =
  ak_pid :: u32
  ak_event_type :: u32
  ak_detail :: bytes

record agg_value =
  av_count :: u64
  av_total_bytes :: u64
  av_first_ts :: u64
  av_last_ts :: u64
  av_comm :: bytes
  av_extra :: bytes

record exit_mem_info =
  hiwater_rss :: u64

datatype process_ext_event_type =
    EVENT_TYPE_FILE_DELETE | EVENT_TYPE_FILE_RENAME | EVENT_TYPE_DIR_CREATE
  | EVENT_TYPE_FILE_TRUNCATE | EVENT_TYPE_CHDIR | EVENT_TYPE_WRITE
  | EVENT_TYPE_NET_BIND | EVENT_TYPE_NET_LISTEN | EVENT_TYPE_NET_CONNECT
  | EVENT_TYPE_PGRP_CHANGE | EVENT_TYPE_SESSION_CREATE | EVENT_TYPE_SIGNAL_SEND
  | EVENT_TYPE_PROC_FORK | EVENT_TYPE_MMAP_SHARED | EVENT_TYPE_COW_FAULT

text \<open>The numbers of the enumeration.\<close>

fun type_code :: "process_ext_event_type \<Rightarrow> u32" where
  "type_code EVENT_TYPE_FILE_DELETE = 10"
| "type_code EVENT_TYPE_FILE_RENAME = 11"
| "type_code EVENT_TYPE_DIR_CREATE = 12"
| "type_code EVENT_TYPE_FILE_TRUNCATE = 13"
| "type_code EVENT_TYPE_CHDIR = 14"
| "type_code EVENT_TYPE_WRITE = 15"
| "type_code EVENT_TYPE_NET_BIND = 20"
| "type_code EVENT_TYPE_NET_LISTEN = 21"
| "type_code EVENT_TYPE_NET_CONNECT = 22"
| "type_code EVENT_TYPE_PGRP_CHANGE = 30"
| "type_code EVENT_TYPE_SESSION_CREATE = 31"
| "type_code EVENT_TYPE_SIGNAL_SEND = 32"
| "type_code EVENT_TYPE_PROC_FORK = 33"
| "type_code EVENT_TYPE_MMAP_SHARED = 40"
| "type_code EVENT_TYPE_COW_FAULT = 41"

record ext_state =
  event_agg_map :: "agg_key \<rightharpoonup> agg_value"
  tracked_pids :: "u32 \<rightharpoonup> u8"
  tracked_cgroups :: "u64 \<rightharpoonup> u8"
  agg_overflow_count :: "nat \<Rightarrow> u64"
  exit_mem :: "u32 \<rightharpoonup> exit_mem_info"
  write_ctx_map :: "u64 \<rightharpoonup> i32"

record ext_config =
  filter_pids :: bool
  filter_cgroup :: bool
  filter_cgroup_children :: bool
  target_cgroup_id :: u64
  trace_fs_mutations :: bool
  trace_network :: bool
  trace_signals :: bool
  trace_memory :: bool
  trace_cow :: bool

section \<open>The code: bpf\_common.h\<close>

definition is_pid_tracked :: "ext_config \<Rightarrow> bpf_env \<Rightarrow> 'a ext_state_scheme \<Rightarrow> bool" where
  "is_pid_tracked cfg env st =
     (if \<not> filter_pids cfg then True else tracked_pids st (cur_tgid env) \<noteq> None)"

definition is_cgroup_tracked :: "ext_config \<Rightarrow> bpf_env \<Rightarrow> 'a ext_state_scheme \<Rightarrow> bool" where
  "is_cgroup_tracked cfg env st =
     (if \<not> filter_cgroup cfg then True
      else if cgroup_id env = target_cgroup_id cfg then True
      else if \<not> filter_cgroup_children cfg then False
      else tracked_cgroups st (cgroup_id env) \<noteq> None)"

definition is_event_tracked :: "ext_config \<Rightarrow> bpf_env \<Rightarrow> 'a ext_state_scheme \<Rightarrow> bool" where
  "is_event_tracked cfg env st \<longleftrightarrow> is_cgroup_tracked cfg env st \<and> is_pid_tracked cfg env st"

definition bump_overflow :: "bpf_env \<Rightarrow> 'a ext_state_scheme \<Rightarrow> 'a ext_state_scheme" where
  "bump_overflow env st =
     st\<lparr>agg_overflow_count := (agg_overflow_count st)(cpu env := agg_overflow_count st (cpu env) + 1)\<rparr>"

definition update_agg_map :: "bpf_env \<Rightarrow> agg_key \<Rightarrow> u64 \<Rightarrow> u64 \<Rightarrow> 'a ext_state_scheme \<Rightarrow> 'a ext_state_scheme" where
  "update_agg_map env key count nbytes st =
     (case event_agg_map st key of
        Some val \<Rightarrow>
          st\<lparr>event_agg_map := (event_agg_map st)(key \<mapsto>
               val\<lparr>av_count := av_count val + count,
                   av_total_bytes := (if nbytes \<noteq> 0 then av_total_bytes val + nbytes else av_total_bytes val),
                   av_last_ts := ktime env, av_comm := cur_comm env\<rparr>)\<rparr>
      | None \<Rightarrow>
          let new_val = \<lparr>av_count = count, av_total_bytes = nbytes, av_first_ts = ktime env,
                         av_last_ts = ktime env, av_comm = cur_comm env, av_extra = []\<rparr>;
              (ok, m) = map_update (room env) (event_agg_map st) key new_val BPF_NOEXIST in
          if ok then st\<lparr>event_agg_map := m\<rparr> else bump_overflow env st)"

definition format_fd_detail :: "bytes \<Rightarrow> nat \<Rightarrow> i32 \<Rightarrow> bytes" where
  "format_fd_detail buf buf_len fd =
     (if buf_len < 4 then buf
      else
        let buf1 = buf[0 := CHR ''f'', 1 := CHR ''d'', 2 := CHR ''=''];
            neg = (fd <s 0);
            ufd = unat (if neg then - fd else fd);
            bp = (if neg then put_char buf_len (CHR ''-'') (buf1, 3) else (buf1, 3));
            (buf2, pos) = put_chars buf_len (dec_digits 11 ufd) bp
        in buf2[pos := NUL])"

definition write_octet :: "nat \<Rightarrow> u8 \<Rightarrow> bytes \<times> nat \<Rightarrow> bytes \<times> nat" where
  "write_octet buf_len val bp =
     (let v = unat val;
          bp1 = (if 100 \<le> v then put_char buf_len (digit (v div 100)) bp else bp);
          bp2 = (if 10 \<le> v then put_char buf_len (digit (v div 10 mod 10)) bp1 else bp1)
      in put_char buf_len (digit (v mod 10)) bp2)"

definition format_ipv4_port :: "bytes \<Rightarrow> nat \<Rightarrow> u32 \<Rightarrow> u16 \<Rightarrow> bytes" where
  "format_ipv4_port buf buf_len ip port =
     (let o0 = ucast (ip AND 0xFF) :: u8;
          o1 = ucast (drop_bit 8 ip AND 0xFF) :: u8;
          o2 = ucast (drop_bit 16 ip AND 0xFF) :: u8;
          o3 = ucast (drop_bit 24 ip AND 0xFF) :: u8;
          bp = write_octet buf_len o0 (buf, 0);
          bp = write_octet buf_len o1 (put_char buf_len (CHR ''.'') bp);
          bp = write_octet buf_len o2 (put_char buf_len (CHR ''.'') bp);
          bp = write_octet buf_len o3 (put_char buf_len (CHR ''.'') bp);
          bp = put_char buf_len (CHR '':'') bp;
          p = unat port;
          bp = (if 10000 \<le> p then put_char buf_len (digit (p div 10000 mod 10)) bp else bp);
          bp = (if 1000 \<le> p then put_char buf_len (digit (p div 1000 mod 10)) bp else bp);
          bp = (if 100 \<le> p then put_char buf_len (digit (p div 100 mod 10)) bp else bp);
          bp = (if 10 \<le> p then put_char buf_len (digit (p div 10 mod 10)) bp else bp);
          (buf', pos) = put_char buf_len (digit (p mod 10)) bp
      in buf'[pos := NUL])"

text \<open>\<open>struct agg_key key = {}\<close> with the PID of the caller and an event type.\<close>

definition new_key :: "bpf_env \<Rightarrow> process_ext_event_type \<Rightarrow> agg_key" where
  "new_key env t = \<lparr>ak_pid = cur_tgid env, ak_event_type = type_code t, ak_detail = zbuf DETAIL_LEN []\<rparr>"

section \<open>The code: bpf\_fs.h\<close>

text \<open>The loop of \<open>extract_dir_prefix\<close> copies into \<open>out\<close> and remembers the last slash.\<close>

fun dir_prefix_loop :: "bytes \<Rightarrow> nat \<Rightarrow> nat list \<Rightarrow> bytes \<times> nat \<Rightarrow> bytes \<times> nat" where
  "dir_prefix_loop path out_len [] acc = acc"
| "dir_prefix_loop path out_len (i # is) (out, last_slash) =
     (if out_len - 1 \<le> i then (out, last_slash)
      else if \<not> i < length path \<or> path ! i = NUL then (out, last_slash)
      else dir_prefix_loop path out_len is
             (out[i := path ! i], if path ! i = CHR ''/'' then i else last_slash))"

definition extract_dir_prefix :: "bytes \<Rightarrow> bytes \<Rightarrow> nat \<Rightarrow> bytes" where
  "extract_dir_prefix path out out_len =
     (case dir_prefix_loop path out_len [0..<DETAIL_LEN - 1] (out, 0) of (out', last_slash) \<Rightarrow>
        if 0 < last_slash then out'[last_slash := NUL] else out')"

definition agg_path_event ::
  "ext_config \<Rightarrow> bpf_env \<Rightarrow> u64 \<Rightarrow> process_ext_event_type \<Rightarrow> 'a ext_state_scheme \<Rightarrow> 'a ext_state_scheme" where
  "agg_path_event cfg env user_path t st =
     (if \<not> trace_fs_mutations cfg then st
      else if \<not> is_event_tracked cfg env st then st
      else case probe_read_user_str env MAX_FILENAME_LEN user_path of
          None \<Rightarrow> st
        | Some filepath \<Rightarrow>
            let key = (new_key env t)\<lparr>ak_detail := extract_dir_prefix filepath (zbuf DETAIL_LEN []) DETAIL_LEN\<rparr> in
            (case event_agg_map st key of
               Some val \<Rightarrow>
                 st\<lparr>event_agg_map := (event_agg_map st)(key \<mapsto>
                      val\<lparr>av_count := av_count val + 1, av_last_ts := ktime env, av_comm := cur_comm env,
                          av_extra := probe_read_kernel_str MAX_FILENAME_LEN filepath\<rparr>)\<rparr>
             | None \<Rightarrow>
                 let new_val = \<lparr>av_count = 1, av_total_bytes = 0, av_first_ts = ktime env,
                                av_last_ts = ktime env, av_comm = cur_comm env,
                                av_extra = probe_read_kernel_str MAX_FILENAME_LEN filepath\<rparr>;
                     (ok, m) = map_update (room env) (event_agg_map st) key new_val BPF_NOEXIST in
                 if ok then st\<lparr>event_agg_map := m\<rparr> else bump_overflow env st))"

definition trace_unlinkat where
  "trace_unlinkat cfg env st = agg_path_event cfg env (args env 1) EVENT_TYPE_FILE_DELETE st"

definition trace_unlink where
  "trace_unlink cfg env st = agg_path_event cfg env (args env 0) EVENT_TYPE_FILE_DELETE st"

definition trace_renameat2 where
  "trace_renameat2 cfg env st = agg_path_event cfg env (args env 3) EVENT_TYPE_FILE_RENAME st"

definition trace_renameat where
  "trace_renameat cfg env st = agg_path_event cfg env (args env 3) EVENT_TYPE_FILE_RENAME st"

definition trace_rename where
  "trace_rename cfg env st = agg_path_event cfg env (args env 1) EVENT_TYPE_FILE_RENAME st"

definition trace_mkdirat where
  "trace_mkdirat cfg env st = agg_path_event cfg env (args env 1) EVENT_TYPE_DIR_CREATE st"

definition trace_mkdir where
  "trace_mkdir cfg env st = agg_path_event cfg env (args env 0) EVENT_TYPE_DIR_CREATE st"

definition trace_ftruncate :: "ext_config \<Rightarrow> bpf_env \<Rightarrow> 'a ext_state_scheme \<Rightarrow> 'a ext_state_scheme" where
  "trace_ftruncate cfg env st =
     (if \<not> trace_fs_mutations cfg then st
      else if \<not> is_event_tracked cfg env st then st
      else
        let key = (new_key env EVENT_TYPE_FILE_TRUNCATE)
              \<lparr>ak_detail := format_fd_detail (zbuf DETAIL_LEN []) DETAIL_LEN (arg_int env 0)\<rparr>
        in update_agg_map env key 1 0 st)"

definition trace_chdir :: "ext_config \<Rightarrow> bpf_env \<Rightarrow> 'a ext_state_scheme \<Rightarrow> 'a ext_state_scheme" where
  "trace_chdir cfg env st =
     (if \<not> trace_fs_mutations cfg then st
      else if \<not> is_event_tracked cfg env st then st
      else case probe_read_user_str env DETAIL_LEN (args env 0) of
          None \<Rightarrow> st
        | Some path \<Rightarrow>
            let key = (new_key env EVENT_TYPE_CHDIR)
                  \<lparr>ak_detail := zbuf DETAIL_LEN (probe_read_kernel_str DETAIL_LEN path)\<rparr>
            in update_agg_map env key 1 0 st)"

section \<open>The code: bpf\_write.h\<close>

definition trace_write_enter_common ::
  "ext_config \<Rightarrow> bpf_env \<Rightarrow> i32 \<Rightarrow> 'a ext_state_scheme \<Rightarrow> 'a ext_state_scheme" where
  "trace_write_enter_common cfg env fd st =
     (if \<not> trace_fs_mutations cfg then st
      else if \<not> is_event_tracked cfg env st then st
      else st\<lparr>write_ctx_map := snd (map_update (room env) (write_ctx_map st) (pid_tgid env) fd BPF_ANY)\<rparr>)"

definition trace_write_exit_common ::
  "ext_config \<Rightarrow> bpf_env \<Rightarrow> u64 \<Rightarrow> 'a ext_state_scheme \<Rightarrow> 'a ext_state_scheme" where
  "trace_write_exit_common cfg env ret st =
     (if \<not> trace_fs_mutations cfg then st
      else if sint ret \<le> 0 then st
      else if \<not> is_event_tracked cfg env st then st
      else case write_ctx_map st (pid_tgid env) of
          None \<Rightarrow> st
        | Some fd \<Rightarrow>
            let st1 = st\<lparr>write_ctx_map := map_delete (write_ctx_map st) (pid_tgid env)\<rparr>;
                key = (new_key env EVENT_TYPE_WRITE)
                  \<lparr>ak_detail := format_fd_detail (zbuf DETAIL_LEN []) DETAIL_LEN fd\<rparr>
            in update_agg_map env key 1 ret st1)"

definition trace_write_enter where
  "trace_write_enter cfg env st = trace_write_enter_common cfg env (arg_int env 0) st"

definition trace_write_exit where
  "trace_write_exit cfg env ret st = trace_write_exit_common cfg env ret st"

definition trace_pwrite64_enter where
  "trace_pwrite64_enter cfg env st = trace_write_enter_common cfg env (arg_int env 0) st"

definition trace_pwrite64_exit where
  "trace_pwrite64_exit cfg env ret st = trace_write_exit_common cfg env ret st"

definition trace_writev_enter where
  "trace_writev_enter cfg env st = trace_write_enter_common cfg env (arg_int env 0) st"

definition trace_writev_exit where
  "trace_writev_exit cfg env ret st = trace_write_exit_common cfg env ret st"

section \<open>The code: bpf\_net.h\<close>

text \<open>Little-endian fields of the \<open>struct sockaddr_in\<close> read from the process.\<close>

definition le16 :: "bytes \<Rightarrow> nat \<Rightarrow> u16" where
  "le16 b i = of_nat (ord (b ! i) + 256 * ord (b ! (i + 1)))"

definition le32 :: "bytes \<Rightarrow> nat \<Rightarrow> u32" where
  "le32 b i = of_nat (ord (b ! i) + 256 * ord (b ! (i + 1)) + 65536 * ord (b ! (i + 2)) + 16777216 * ord (b ! (i + 3)))"

definition bswap16 :: "u16 \<Rightarrow> u16" where
  "bswap16 w = push_bit 8 w OR drop_bit 8 w"

definition read_and_format_sockaddr :: "bpf_env \<Rightarrow> bytes \<Rightarrow> nat \<Rightarrow> bytes" where
  "read_and_format_sockaddr env detail detail_len =
     (case user_mem env (args env 1) 16 of
        None \<Rightarrow> detail[0 := CHR ''?'', 1 := NUL]
      | Some addr \<Rightarrow> format_ipv4_port detail detail_len (le32 addr 4) (bswap16 (le16 addr 2)))"

definition format_family :: "bytes \<Rightarrow> nat \<Rightarrow> u16 \<Rightarrow> bytes" where
  "format_family buf buf_len family =
     (if buf_len < 8 then buf
      else
        let buf1 = ''family='' @ drop 7 buf;
            (buf2, pos) = put_chars buf_len (dec_digits 5 (unat family)) (buf1, 7)
        in buf2[pos := NUL])"

definition net_detail :: "bpf_env \<Rightarrow> bytes" where
  "net_detail env =
     (let family = (case user_mem env (args env 1) 2 of None \<Rightarrow> 0 | Some b \<Rightarrow> le16 b 0) in
      if family = 2 then read_and_format_sockaddr env (zbuf DETAIL_LEN []) DETAIL_LEN
      else format_family (zbuf DETAIL_LEN []) DETAIL_LEN family)"

definition trace_bind :: "ext_config \<Rightarrow> bpf_env \<Rightarrow> 'a ext_state_scheme \<Rightarrow> 'a ext_state_scheme" where
  "trace_bind cfg env st =
     (if \<not> trace_network cfg then st
      else if \<not> is_event_tracked cfg env st then st
      else update_agg_map env ((new_key env EVENT_TYPE_NET_BIND)\<lparr>ak_detail := net_detail env\<rparr>) 1 0 st)"

definition trace_listen :: "ext_config \<Rightarrow> bpf_env \<Rightarrow> 'a ext_state_scheme \<Rightarrow> 'a ext_state_scheme" where
  "trace_listen cfg env st =
     (if \<not> trace_network cfg then st
      else if \<not> is_event_tracked cfg env st then st
      else update_agg_map env ((new_key env EVENT_TYPE_NET_LISTEN)
        \<lparr>ak_detail := format_fd_detail (zbuf DETAIL_LEN []) DETAIL_LEN (arg_int env 0)\<rparr>) 1 0 st)"

definition trace_connect :: "ext_config \<Rightarrow> bpf_env \<Rightarrow> 'a ext_state_scheme \<Rightarrow> 'a ext_state_scheme" where
  "trace_connect cfg env st =
     (if \<not> trace_network cfg then st
      else if \<not> is_event_tracked cfg env st then st
      else update_agg_map env ((new_key env EVENT_TYPE_NET_CONNECT)\<lparr>ak_detail := net_detail env\<rparr>) 1 0 st)"

section \<open>The code: bpf\_signals.h\<close>

definition write_uint :: "nat \<Rightarrow> u32 \<Rightarrow> bytes \<times> nat \<Rightarrow> bytes \<times> nat" where
  "write_uint buf_len val bp = put_chars buf_len (dec_digits 11 (unat val)) bp"

definition write_int :: "nat \<Rightarrow> i32 \<Rightarrow> bytes \<times> nat \<Rightarrow> bytes \<times> nat" where
  "write_int buf_len val bp =
     (if val <s 0 \<and> snd bp < buf_len - 1
      then write_uint buf_len (- val) (put_char buf_len (CHR ''-'') bp)
      else write_uint buf_len val bp)"

definition write_str :: "nat \<Rightarrow> bytes \<Rightarrow> bytes \<times> nat \<Rightarrow> bytes \<times> nat" where
  "write_str buf_len s bp = put_chars buf_len (c_str s) bp"

definition finish_detail :: "bytes \<times> nat \<Rightarrow> bytes" where
  "finish_detail bp = (fst bp)[snd bp := NUL]"

definition two_ints_detail :: "bytes \<Rightarrow> i32 \<Rightarrow> bytes \<Rightarrow> i32 \<Rightarrow> bytes" where
  "two_ints_detail l1 a l2 b =
     finish_detail (write_int DETAIL_LEN b (write_str DETAIL_LEN l2
       (write_int DETAIL_LEN a (write_str DETAIL_LEN l1 (zbuf DETAIL_LEN [], 0)))))"

definition trace_setpgid :: "ext_config \<Rightarrow> bpf_env \<Rightarrow> 'a ext_state_scheme \<Rightarrow> 'a ext_state_scheme" where
  "trace_setpgid cfg env st =
     (if \<not> trace_signals cfg then st
      else if \<not> is_event_tracked cfg env st then st
      else update_agg_map env ((new_key env EVENT_TYPE_PGRP_CHANGE)
        \<lparr>ak_detail := two_ints_detail ''pid='' (arg_int env 0) '',pgid='' (arg_int env 1)\<rparr>) 1 0 st)"

definition trace_setsid :: "ext_config \<Rightarrow> bpf_env \<Rightarrow> 'a ext_state_scheme \<Rightarrow> 'a ext_state_scheme" where
  "trace_setsid cfg env st =
     (if \<not> trace_signals cfg then st
      else if \<not> is_event_tracked cfg env st then st
      else update_agg_map env ((new_key env EVENT_TYPE_SESSION_CREATE)
        \<lparr>ak_detail := finish_detail (write_uint DETAIL_LEN (cur_tgid env)
           (write_str DETAIL_LEN ''sid='' (zbuf DETAIL_LEN [], 0)))\<rparr>) 1 0 st)"

definition trace_kill :: "ext_config \<Rightarrow> bpf_env \<Rightarrow> 'a ext_state_scheme \<Rightarrow> 'a ext_state_scheme" where
  "trace_kill cfg env st =
     (if \<not> trace_signals cfg then st
      else if \<not> is_event_tracked cfg env st then st
      else update_agg_map env ((new_key env EVENT_TYPE_SIGNAL_SEND)
        \<lparr>ak_detail := two_ints_detail ''target='' (arg_int env 0) '',sig='' (arg_int env 1)\<rparr>) 1 0 st)"

definition trace_fork :: "ext_config \<Rightarrow> bpf_env \<Rightarrow> 'a ext_state_scheme \<Rightarrow> 'a ext_state_scheme" where
  "trace_fork cfg env st =
     (if \<not> trace_signals cfg then st
      else if \<not> is_event_tracked cfg env st then st
      else update_agg_map env (new_key env EVENT_TYPE_PROC_FORK) 1 0 st)"

section \<open>The code: bpf\_mem.h and bpf\_cow.h\<close>

definition trace_mmap :: "ext_config \<Rightarrow> bpf_env \<Rightarrow> 'a ext_state_scheme \<Rightarrow> 'a ext_state_scheme" where
  "trace_mmap cfg env st =
     (if \<not> trace_memory cfg then st
      else if \<not> is_event_tracked cfg env st then st
      else if arg_int env 3 AND 1 = 0 then st
      else update_agg_map env ((new_key env EVENT_TYPE_MMAP_SHARED)
        \<lparr>ak_detail := format_fd_detail (zbuf DETAIL_LEN []) DETAIL_LEN (arg_int env 4)\<rparr>) 1 (args env 1) st)"

definition trace_cow_fault :: "ext_config \<Rightarrow> bpf_env \<Rightarrow> 'a ext_state_scheme \<Rightarrow> 'a ext_state_scheme" where
  "trace_cow_fault cfg env st =
     (if \<not> trace_cow cfg then st
      else if \<not> is_event_tracked cfg env st then st
      else update_agg_map env (new_key env EVENT_TYPE_COW_FAULT) 1 0 st)"

section \<open>The formatters\<close>

text \<open>The number the writers print for a signed value: a minus sign and the magnitude.\<close>

lemma dec_digits_u32: "dec_digits 11 (unat (w::u32)) = dec_nat (unat w)"
proof -
  have "unat w < 2 ^ 32" using unsigned_less[of w] by simp
  then show ?thesis by (intro dec_digits_dec) simp
qed

lemma length_dec_u32: "length (dec_nat (unat (w::u32))) \<le> 10"
proof -
  have "unat w < 2 ^ 32" using unsigned_less[of w] by simp
  then show ?thesis by (intro length_dec_nat) simp_all
qed

lemma dec_signed:
  "dec_int (sint (w::i32)) = (if w <s 0 then CHR ''-'' # dec_nat (unat (- w)) else dec_nat (unat w))"
  by (auto simp: dec_int_def word_sless_alt unat_neg_sint unat_nonneg_sint)

lemma length_dec_signed: "length (dec_int (sint (w::i32))) \<le> 11"
  using length_dec_u32[of w] length_dec_u32[of "- w"] by (simp add: dec_signed)

lemma zbuf_prefix: "length s \<le> n \<Longrightarrow> s @ drop (length s) (zbuf n []) = zbuf n s"
  by (simp add: zbuf_def)

lemma finish_detail_zbuf: "length s < n \<Longrightarrow> finish_detail (zbuf n s, length s) = zbuf n s"
  by (simp add: finish_detail_def zbuf_terminate)

lemma format_fd_detail_eq:
  "format_fd_detail (zbuf DETAIL_LEN []) DETAIL_LEN fd = zbuf DETAIL_LEN (''fd='' @ dec_int (sint fd))"
proof -
  have b: "(zbuf DETAIL_LEN [])[0 := CHR ''f'', Suc 0 := CHR ''d'', 2 := CHR ''=''] = zbuf DETAIL_LEN ''fd=''"
    by (simp add: zbuf_def DETAIL_LEN_def numeral_eq_Suc)
  have l: "length ''fd='' = 3" "length (''fd='' @ ''-'') = 4" by simp_all
  have p: "put_char DETAIL_LEN (CHR ''-'') (zbuf DETAIL_LEN ''fd='', 3) = (zbuf DETAIL_LEN ''fd=-'', 4)"
    using put_char_zbuf[of "''fd=''" DETAIL_LEN "CHR ''-''", unfolded l] by (simp add: DETAIL_LEN_def)
  have w: "(case put_chars DETAIL_LEN (dec_nat n) (zbuf DETAIL_LEN s, k) of (buf2, pos) \<Rightarrow> buf2[pos := NUL]) =
      zbuf DETAIL_LEN (s @ dec_nat n)"
    if "length s = k" "k \<le> 4" "length (dec_nat n) \<le> 10" for s k n
  proof -
    have "length (s @ dec_nat n) < DETAIL_LEN" using that by (simp add: DETAIL_LEN_def)
    then show ?thesis
      using put_chars_fits[of s "dec_nat n" DETAIL_LEN] zbuf_terminate[of "s @ dec_nat n" DETAIL_LEN] that(1) by simp
  qed
  have "\<not> DETAIL_LEN < 4" by (simp add: DETAIL_LEN_def)
  then show ?thesis
    using w[of "''fd=-''" 4 "unat (- fd)"] w[of "''fd=''" 3 "unat fd"] length_dec_u32[of fd] length_dec_u32[of "- fd"]
    by (simp add: format_fd_detail_def Let_def b p dec_digits_u32 dec_signed)
qed

text \<open>Writing at the end of what the buffer holds, as long as it fits.\<close>

definition at_end :: "nat \<Rightarrow> bytes \<Rightarrow> bytes \<times> nat" where
  "at_end n s = (zbuf n s, length s)"

lemma put_char_end: "length s + 1 < n \<Longrightarrow> put_char n c (at_end n s) = at_end n (s @ [c])"
  by (simp add: at_end_def put_char_zbuf)

lemma put_chars_end: "length s + length w < n \<Longrightarrow> put_chars n w (at_end n s) = at_end n (s @ w)"
  by (simp add: at_end_def put_chars_fits)

lemma dec_nat_small: "n < 10 \<Longrightarrow> dec_nat n = [digit n]"
  by (simp add: dec_nat.simps)

lemma dec_nat_step: "10 \<le> n \<Longrightarrow> dec_nat n = dec_nat (n div 10) @ [digit (n mod 10)]"
  by (simp add: dec_nat.simps[of n])

lemma dec_nat_port:
  assumes "p < 100000"
  shows "dec_nat p = (if 10000 \<le> p then [digit (p div 10000 mod 10)] else []) @
      (if 1000 \<le> p then [digit (p div 1000 mod 10)] else []) @
      (if 100 \<le> p then [digit (p div 100 mod 10)] else []) @
      (if 10 \<le> p then [digit (p div 10 mod 10)] else []) @ [digit (p mod 10)]"
proof -
  have d: "p div 10 div 10 = p div 100" "p div 100 div 10 = p div 1000" "p div 1000 div 10 = p div 10000"
    by (simp_all add: div_mult2_eq[symmetric])
  have 1: "dec_nat p = (if 10 \<le> p then dec_nat (p div 10) else []) @ [digit (p mod 10)]"
    by (simp add: dec_nat_step dec_nat_small)
  have 2: "dec_nat (p div 10) = (if 100 \<le> p then dec_nat (p div 100) else []) @ [digit (p div 10 mod 10)]"
  proof (cases "100 \<le> p")
    case True
    then have "10 \<le> p div 10" by linarith
    from dec_nat_step[OF this] show ?thesis using True by (simp add: d)
  next
    case False
    then have "p div 10 < 10" by linarith
    then show ?thesis using False by (simp add: dec_nat_small)
  qed
  have 3: "dec_nat (p div 100) = (if 1000 \<le> p then dec_nat (p div 1000) else []) @ [digit (p div 100 mod 10)]"
  proof (cases "1000 \<le> p")
    case True
    then have "10 \<le> p div 100" by linarith
    from dec_nat_step[OF this] show ?thesis using True by (simp add: d)
  next
    case False
    then have "p div 100 < 10" by linarith
    then show ?thesis using False by (simp add: dec_nat_small)
  qed
  have 4: "dec_nat (p div 1000) = (if 10000 \<le> p then dec_nat (p div 10000) else []) @ [digit (p div 1000 mod 10)]"
  proof (cases "10000 \<le> p")
    case True
    then have "10 \<le> p div 1000" by linarith
    from dec_nat_step[OF this] show ?thesis using True by (simp add: d)
  next
    case False
    then have "p div 1000 < 10" by linarith
    then show ?thesis using False by (simp add: dec_nat_small)
  qed
  have 5: "dec_nat (p div 10000) = [digit (p div 10000 mod 10)]"
  proof -
    have "p div 10000 < 10" using assms by linarith
    then show ?thesis by (simp add: dec_nat_small)
  qed
  show ?thesis unfolding 1 2 3 4 5 by auto
qed

lemma write_octet_end:
  assumes "length s + 3 < n"
  shows "write_octet n v (at_end n s) = at_end n (s @ dec_nat (unat v))"
proof -
  have "unat v < 256" by (rule unat_u8)
  then have "dec_nat (unat v) = (if 100 \<le> unat v then [digit (unat v div 100)] else []) @
      (if 10 \<le> unat v then [digit (unat v div 10 mod 10)] else []) @ [digit (unat v mod 10)]"
    by (subst dec_nat_port) auto
  with assms show ?thesis by (simp add: write_octet_def Let_def put_char_end)
qed

lemma length_dec_octet: "length (dec_nat (unat (v::u8))) \<le> 3"
proof -
  have "unat v < 256" by (rule unat_u8)
  then show ?thesis by (intro length_dec_nat) simp_all
qed

lemma write_port_end:
  assumes "length s + 5 < n" "p < 100000"
  shows "(let bp = (if 10000 \<le> p then put_char n (digit (p div 10000 mod 10)) (at_end n s) else at_end n s);
      bp = (if 1000 \<le> p then put_char n (digit (p div 1000 mod 10)) bp else bp);
      bp = (if 100 \<le> p then put_char n (digit (p div 100 mod 10)) bp else bp);
      bp = (if 10 \<le> p then put_char n (digit (p div 10 mod 10)) bp else bp)
    in put_char n (digit (p mod 10)) bp) = at_end n (s @ dec_nat p)"
  using assms(1) by (simp add: Let_def put_char_end dec_nat_port[OF assms(2)])

text \<open>A dotted quad of the four bytes of the address in memory order, and the port in decimal.\<close>

definition ipv4_text :: "u32 \<Rightarrow> u16 \<Rightarrow> bytes" where
  "ipv4_text ip port =
     dec_nat (unat ip mod 256) @ ''.'' @ dec_nat (unat ip div 256 mod 256) @ ''.'' @
     dec_nat (unat ip div 65536 mod 256) @ ''.'' @ dec_nat (unat ip div 16777216 mod 256) @ '':'' @ dec_nat (unat port)"

lemma octet_val:
  "unat (ucast (drop_bit k (ip::u32) AND 0xFF) :: u8) = unat ip div 2 ^ k mod 256"
proof -
  have "drop_bit k ip AND 0xFF = take_bit 8 (drop_bit k ip)"
    by (simp only: take_bit_eq_mask mask_eq_exp_minus_1) simp
  moreover have "unat (take_bit 8 (drop_bit k ip)) = take_bit 8 (unat (drop_bit k ip))"
    by (simp add: unsigned_take_bit_eq)
  moreover have "unat (drop_bit k ip) = unat ip div 2 ^ k"
    by (subst unsigned_drop_bit_eq) (use unat_u32[of ip] in \<open>simp add: drop_bit_eq_div take_bit_nat_eq_self\<close>)
  ultimately have "unat (drop_bit k ip AND 0xFF) = unat ip div 2 ^ k mod 256" by (simp add: take_bit_eq_mod)
  then show ?thesis by (simp add: unsigned_ucast_eq take_bit_eq_mod)
qed

lemma format_ipv4_port_eq:
  "format_ipv4_port (zbuf DETAIL_LEN []) DETAIL_LEN ip port = zbuf DETAIL_LEN (ipv4_text ip port)"
proof -
  define a b c d where abcd: "a = (ucast (ip AND 0xFF) :: u8)" "b = (ucast (drop_bit 8 ip AND 0xFF) :: u8)"
    "c = (ucast (drop_bit 16 ip AND 0xFF) :: u8)" "d = (ucast (drop_bit 24 ip AND 0xFF) :: u8)"
  let ?D = "\<lambda>v::u8. dec_nat (unat v)"
  let ?s = "?D a @ ''.'' @ ?D b @ ''.'' @ ?D c @ ''.'' @ ?D d @ '':''"
  note len = length_dec_octet[of a] length_dec_octet[of b] length_dec_octet[of c] length_dec_octet[of d]
  have start: "(zbuf 64 [], 0) = at_end 64 []" by (simp add: at_end_def)
  have addr: "put_char 64 (CHR '':'') (write_octet 64 d (put_char 64 (CHR ''.'') (write_octet 64 c (put_char 64 (CHR ''.'')
      (write_octet 64 b (put_char 64 (CHR ''.'') (write_octet 64 a (zbuf 64 [], 0)))))))) = at_end 64 ?s"
    unfolding start using len by (simp add: write_octet_end put_char_end)
  have p: "unat port < 100000" using unat_u16[of port] by linarith
  have fin: "(case at_end 64 s of (buf', pos) \<Rightarrow> buf'[pos := NUL]) = zbuf 64 s" if "length s < 64" for s
    using that by (simp add: at_end_def zbuf_terminate)
  have lp: "length (dec_nat (unat port)) \<le> 5" using p by (intro length_dec_nat) simp_all
  have ls: "length ?s + 5 < 64" using len by simp
  have o: "unat a = unat ip mod 256" "unat b = unat ip div 256 mod 256" "unat c = unat ip div 65536 mod 256"
    "unat d = unat ip div 16777216 mod 256"
    using octet_val[of 0 ip] octet_val[of 8 ip] octet_val[of 16 ip] octet_val[of 24 ip] by (simp_all add: abcd)
  have "format_ipv4_port (zbuf 64 []) 64 ip port = (case at_end 64 (?s @ dec_nat (unat port)) of (buf', pos) \<Rightarrow> buf'[pos := NUL])"
    using write_port_end[OF ls p] unfolding format_ipv4_port_def Let_def abcd[symmetric] addr by simp
  also have "\<dots> = zbuf 64 (?s @ dec_nat (unat port))" using ls lp by (intro fin) simp
  finally show ?thesis by (simp add: DETAIL_LEN_def ipv4_text_def o)
qed

lemma format_family_eq: "format_family (zbuf DETAIL_LEN []) DETAIL_LEN f = zbuf DETAIL_LEN (''family='' @ dec_nat (unat f))"
proof -
  have u: "unat f < 100000" using unat_u16[of f] by linarith
  then have d: "dec_digits 5 (unat f) = dec_nat (unat f)" by (intro dec_digits_dec) simp
  have l: "length (dec_nat (unat f)) \<le> 5" using u by (intro length_dec_nat) simp_all
  have l7: "length ''family='' = 7" by simp
  have z: "''family='' @ drop 7 (zbuf DETAIL_LEN []) = zbuf DETAIL_LEN ''family=''"
    using zbuf_prefix[of "''family=''" DETAIL_LEN, unfolded l7] by (simp add: DETAIL_LEN_def)
  have "put_chars DETAIL_LEN (dec_nat (unat f)) (zbuf DETAIL_LEN ''family='', 7) =
      (zbuf DETAIL_LEN (''family='' @ dec_nat (unat f)), length (''family='' @ dec_nat (unat f)))"
    using put_chars_fits[of "''family=''" "dec_nat (unat f)" DETAIL_LEN, unfolded l7] l by (simp add: DETAIL_LEN_def)
  moreover have "length (''family='' @ dec_nat (unat f)) < DETAIL_LEN" using l by (simp add: DETAIL_LEN_def)
  moreover have "\<not> DETAIL_LEN < 8" by (simp add: DETAIL_LEN_def)
  ultimately show ?thesis
    unfolding format_family_def Let_def d z
    using zbuf_terminate[of "''family='' @ dec_nat (unat f)" DETAIL_LEN]
    by (simp only: if_False case_prod_conv)
qed

lemma write_int_end: "length s + 11 < n \<Longrightarrow> write_int n v (at_end n s) = at_end n (s @ dec_int (sint v))"
  using length_dec_u32[of v] length_dec_u32[of "- v"]
  by (auto simp: write_int_def write_uint_def dec_digits_u32 dec_signed put_char_end put_chars_end)
     (simp add: at_end_def)+

lemma two_ints_detail_eq:
  assumes "NUL \<notin> set l1" "NUL \<notin> set l2" "length l1 + length l2 \<le> 12"
  shows "two_ints_detail l1 a l2 b = zbuf DETAIL_LEN (l1 @ dec_int (sint a) @ l2 @ dec_int (sint b))"
proof -
  have start: "(zbuf 64 [], 0) = at_end 64 []" by (simp add: at_end_def)
  have fin: "finish_detail (at_end 64 s) = zbuf 64 s" if "length s < 64" for s
    using that by (simp add: at_end_def finish_detail_zbuf)
  show ?thesis
    unfolding two_ints_detail_def DETAIL_LEN_def start
    using assms length_dec_signed[of a] length_dec_signed[of b]
    by (simp add: write_str_def c_str_fix put_chars_end write_int_end fin)
qed

section \<open>Directory prefixes\<close>

text \<open>The index of the last slash of a string, 0 when there is none.\<close>

definition last_slash :: "bytes \<Rightarrow> nat" where
  "last_slash p = fold (\<lambda>i l. if p ! i = CHR ''/'' then i else l) [0..<length p] 0"

lemma last_slash_snoc: "last_slash (p @ [c]) = (if c = CHR ''/'' then length p else last_slash p)"
proof -
  have "fold (\<lambda>i l. if (p @ [c]) ! i = CHR ''/'' then i else l) [0..<length p] x =
      fold (\<lambda>i l. if p ! i = CHR ''/'' then i else l) [0..<length p] x" for x
    by (rule fold_cong) (auto simp: nth_append)
  then show ?thesis by (simp add: last_slash_def)
qed

lemma last_slash_less: "0 < last_slash p \<Longrightarrow> last_slash p < length p \<and> p ! last_slash p = CHR ''/''"
  by (induction p rule: rev_induct) (auto simp: last_slash_snoc nth_append last_slash_def[of "[]"] split: if_splits)

lemma last_slash_max: "i < length p \<Longrightarrow> p ! i = CHR ''/'' \<Longrightarrow> i \<le> last_slash p"
proof (induction p rule: rev_induct)
  case (snoc c p)
  then show ?case by (cases "i = length p") (auto simp: last_slash_snoc nth_append)
qed simp

text \<open>The loop has copied the first \<open>k\<close> bytes of the string and seen their last slash.\<close>

lemma dir_prefix_loop_eq:
  assumes "k \<le> length (c_str path)" "k \<le> n - 1" "n = DETAIL_LEN"
  shows "dir_prefix_loop path n [k..<n - 1] (zbuf n (take k (c_str path)), last_slash (take k (c_str path))) =
    (zbuf n (take (n - 1) (c_str path)), last_slash (take (n - 1) (c_str path)))"
  using assms
proof (induction "n - 1 - k" arbitrary: k)
  case 0
  then have "k = n - 1" by simp
  then show ?case by simp
next
  case (Suc m)
  let ?p = "c_str path"
  have k: "k < n - 1" using Suc by simp
  then have upt: "[k..<n - 1] = k # [Suc k..<n - 1]" by (rule upt_conv_Cons)
  have nth: "?p ! k = path ! k \<and> k < length path \<and> path ! k \<noteq> NUL" if "k < length ?p"
    using that nth_length_takeWhile takeWhile_nth[of k "\<lambda>c. c \<noteq> NUL" path] length_c_str_le[of path]
      nth_mem[OF that] c_str_no_nul[of path] unfolding c_str_def by (metis less_le_trans)
  show ?case
  proof (cases "k < length ?p")
    case True
    have t: "take (Suc k) ?p = take k ?p @ [path ! k]" using nth[OF True] True by (simp add: take_Suc_conv_app_nth)
    have lk: "length (take k ?p) = k" using True by simp
    have "(zbuf n (take k ?p))[k := path ! k] = zbuf n (take (Suc k) ?p)"
      using zbuf_update[of "take k ?p" n "path ! k"] lk k t by simp
    moreover have "(if path ! k = CHR ''/'' then k else last_slash (take k ?p)) = last_slash (take (Suc k) ?p)"
      using lk by (simp add: t last_slash_snoc)
    moreover have "dir_prefix_loop path n [Suc k..<n - 1] (zbuf n (take (Suc k) ?p), last_slash (take (Suc k) ?p)) =
        (zbuf n (take (n - 1) ?p), last_slash (take (n - 1) ?p))"
      using Suc True k by (intro Suc.hyps(1)) simp_all
    ultimately show ?thesis unfolding upt using nth[OF True] k by simp
  next
    case False
    then have "take k ?p = ?p" "take (n - 1) ?p = ?p" using Suc.prems k by simp_all
    moreover have "\<not> k < length path \<or> path ! k = NUL"
      using False Suc.prems(1) nth_length_takeWhile[of "\<lambda>c. c \<noteq> NUL" path] unfolding c_str_def
      by (metis antisym_conv3 le_antisym length_takeWhile_le not_less)
    ultimately show ?thesis unfolding upt using k by simp
  qed
qed

lemma extract_dir_prefix_eq:
  "extract_dir_prefix path (zbuf DETAIL_LEN []) DETAIL_LEN =
     (let p = take (DETAIL_LEN - 1) (c_str path) in
      zbuf DETAIL_LEN (if 0 < last_slash p then p[last_slash p := NUL] else p))"
proof -
  let ?p = "take (DETAIL_LEN - 1) (c_str path)"
  have "dir_prefix_loop path DETAIL_LEN [0..<DETAIL_LEN - 1] (zbuf DETAIL_LEN [], 0) = (zbuf DETAIL_LEN ?p, last_slash ?p)"
    using dir_prefix_loop_eq[of 0 path DETAIL_LEN] by (simp add: last_slash_def)
  moreover have "(zbuf DETAIL_LEN ?p)[last_slash ?p := NUL] = zbuf DETAIL_LEN (?p[last_slash ?p := NUL])" if "0 < last_slash ?p"
    using last_slash_less[OF that] by (simp add: zbuf_def list_update_append)
  ultimately show ?thesis by (simp add: extract_dir_prefix_def Let_def)
qed

section \<open>All programs of the extension\<close>

datatype ext_prog =
    P_unlinkat | P_unlink | P_renameat2 | P_renameat | P_rename | P_mkdirat | P_mkdir | P_ftruncate | P_chdir
  | P_write_enter | P_write_exit u64 | P_pwrite64_enter | P_pwrite64_exit u64 | P_writev_enter | P_writev_exit u64
  | P_bind | P_listen | P_connect | P_setpgid | P_setsid | P_kill | P_fork | P_mmap | P_cow_fault

fun run_prog :: "ext_prog \<Rightarrow> ext_config \<Rightarrow> bpf_env \<Rightarrow> 'a ext_state_scheme \<Rightarrow> 'a ext_state_scheme" where
  "run_prog P_unlinkat = trace_unlinkat"
| "run_prog P_unlink = trace_unlink"
| "run_prog P_renameat2 = trace_renameat2"
| "run_prog P_renameat = trace_renameat"
| "run_prog P_rename = trace_rename"
| "run_prog P_mkdirat = trace_mkdirat"
| "run_prog P_mkdir = trace_mkdir"
| "run_prog P_ftruncate = trace_ftruncate"
| "run_prog P_chdir = trace_chdir"
| "run_prog P_write_enter = trace_write_enter"
| "run_prog (P_write_exit ret) = (\<lambda>cfg env. trace_write_exit cfg env ret)"
| "run_prog P_pwrite64_enter = trace_pwrite64_enter"
| "run_prog (P_pwrite64_exit ret) = (\<lambda>cfg env. trace_pwrite64_exit cfg env ret)"
| "run_prog P_writev_enter = trace_writev_enter"
| "run_prog (P_writev_exit ret) = (\<lambda>cfg env. trace_writev_exit cfg env ret)"
| "run_prog P_bind = trace_bind"
| "run_prog P_listen = trace_listen"
| "run_prog P_connect = trace_connect"
| "run_prog P_setpgid = trace_setpgid"
| "run_prog P_setsid = trace_setsid"
| "run_prog P_kill = trace_kill"
| "run_prog P_fork = trace_fork"
| "run_prog P_mmap = trace_mmap"
| "run_prog P_cow_fault = trace_cow_fault"

lemmas handler_defs [bpf_defs] =
  trace_unlinkat_def trace_unlink_def trace_renameat2_def trace_renameat_def trace_rename_def trace_mkdirat_def
  trace_mkdir_def trace_ftruncate_def trace_chdir_def trace_write_enter_def trace_write_exit_def
  trace_pwrite64_enter_def trace_pwrite64_exit_def trace_writev_enter_def trace_writev_exit_def
  trace_write_enter_common_def trace_bind_def trace_listen_def trace_connect_def
  trace_setpgid_def trace_setsid_def trace_kill_def trace_fork_def trace_mmap_def trace_cow_fault_def

text \<open>
  One event recorded under a key: the entry is created or its counters advance; only when the
  kernel refuses a new entry is the overflow counter of the CPU advanced instead.
\<close>

definition recorded :: "bpf_env \<Rightarrow> agg_key \<Rightarrow> u64 \<Rightarrow> 'a ext_state_scheme \<Rightarrow> 'a ext_state_scheme \<Rightarrow> bool" where
  "recorded env key nbytes st st' \<longleftrightarrow>
     (if event_agg_map st key = None \<and> \<not> room env then st' = bump_overflow env st
      else \<exists>v. st' = st\<lparr>event_agg_map := (event_agg_map st)(key \<mapsto> v)\<rparr> \<and>
        av_count v = (case event_agg_map st key of None \<Rightarrow> 1 | Some w \<Rightarrow> av_count w + 1) \<and>
        av_total_bytes v = (case event_agg_map st key of None \<Rightarrow> nbytes | Some w \<Rightarrow> av_total_bytes w + nbytes) \<and>
        av_first_ts v = (case event_agg_map st key of None \<Rightarrow> ktime env | Some w \<Rightarrow> av_first_ts w) \<and>
        av_last_ts v = ktime env)"

lemma update_agg_map_recorded: "recorded env key nbytes st (update_agg_map env key 1 nbytes st)"
  by (auto simp: recorded_def update_agg_map_def map_update_def Let_def split: option.splits)

definition path_key :: "bpf_env \<Rightarrow> process_ext_event_type \<Rightarrow> bytes \<Rightarrow> agg_key" where
  "path_key env t filepath =
     (new_key env t)\<lparr>ak_detail := extract_dir_prefix filepath (zbuf DETAIL_LEN []) DETAIL_LEN\<rparr>"

lemma agg_path_event_cases:
  "agg_path_event cfg env a t st = st \<or>
   (is_event_tracked cfg env st \<and> (\<exists>f. recorded env (path_key env t f) 0 st (agg_path_event cfg env a t st)))"
proof (cases "probe_read_user_str env MAX_FILENAME_LEN a")
  case (Some f)
  have "recorded env (path_key env t f) 0 st (agg_path_event cfg env a t st)"
    if "trace_fs_mutations cfg" "is_event_tracked cfg env st"
    using that Some
    by (auto simp: agg_path_event_def recorded_def path_key_def map_update_def Let_def split: option.splits)
  moreover have "agg_path_event cfg env a t st = st" if "\<not> (trace_fs_mutations cfg \<and> is_event_tracked cfg env st)"
    using that by (auto simp: agg_path_event_def)
  ultimately show ?thesis by blast
qed (simp add: agg_path_event_def)

text \<open>
  The effect of one program: nothing, a change of the table of pending writes, or one recorded event
  (after a pending write, if there was one, has been taken out) under a key of the calling process.
\<close>

definition ext_effect :: "ext_config \<Rightarrow> bpf_env \<Rightarrow> 'a ext_state_scheme \<Rightarrow> 'a ext_state_scheme \<Rightarrow> bool" where
  "ext_effect cfg env st st' \<longleftrightarrow> st' = st \<or>
     (is_event_tracked cfg env st \<and>
       ((\<exists>w. st' = st\<lparr>write_ctx_map := w\<rparr>) \<or>
        (\<exists>w key n. recorded env key n (st\<lparr>write_ctx_map := w\<rparr>) st' \<and> ak_pid key = cur_tgid env)))"

lemma ext_effect_recorded:
  "is_event_tracked cfg env st \<Longrightarrow> recorded env key n st st' \<Longrightarrow> ak_pid key = cur_tgid env \<Longrightarrow> ext_effect cfg env st st'"
  unfolding ext_effect_def by (metis ext_state.surjective ext_state.update_convs(6))

lemma new_key_pid [simp]: "ak_pid (new_key env t) = cur_tgid env" "ak_pid (path_key env t f) = cur_tgid env"
  by (simp_all add: new_key_def path_key_def)

lemma agg_path_event_effect: "ext_effect cfg env st (agg_path_event cfg env a t st)"
  using agg_path_event_cases[of cfg env a t st] ext_effect_recorded[of cfg env st] new_key_pid(2)
  by (metis ext_effect_def)

lemma update_effect:
  "is_event_tracked cfg env st \<Longrightarrow> ak_pid key = cur_tgid env \<Longrightarrow> ext_effect cfg env st (update_agg_map env key 1 n st)"
  by (rule ext_effect_recorded[OF _ update_agg_map_recorded])

lemma ext_effect_refl: "ext_effect cfg env st st"
  by (simp add: ext_effect_def)

lemma write_enter_effect: "ext_effect cfg env st (trace_write_enter_common cfg env fd st)"
  unfolding trace_write_enter_common_def ext_effect_def by auto

lemma write_exit_effect: "ext_effect cfg env st (trace_write_exit_common cfg env ret st)"
proof (cases "trace_write_exit_common cfg env ret st = st")
  case False
  then obtain fd where t: "is_event_tracked cfg env st"
    and eq: "trace_write_exit_common cfg env ret st = update_agg_map env ((new_key env EVENT_TYPE_WRITE)
        \<lparr>ak_detail := format_fd_detail (zbuf DETAIL_LEN []) DETAIL_LEN fd\<rparr>) 1 ret
        (st\<lparr>write_ctx_map := map_delete (write_ctx_map st) (pid_tgid env)\<rparr>)"
    by (auto simp: trace_write_exit_common_def Let_def split: if_splits option.splits)
  let ?key = "(new_key env EVENT_TYPE_WRITE)\<lparr>ak_detail := format_fd_detail (zbuf DETAIL_LEN []) DETAIL_LEN fd\<rparr>"
  have "ak_pid ?key = cur_tgid env" by simp
  with t update_agg_map_recorded[of env ?key ret] show ?thesis unfolding ext_effect_def eq by blast
qed (simp add: ext_effect_refl)

lemma run_prog_effect: "ext_effect cfg env st (run_prog p cfg env st)"
  by (cases p) (auto simp: bpf_defs Let_def agg_path_event_effect write_enter_effect[unfolded trace_write_enter_common_def]
      write_exit_effect ext_effect_refl intro!: update_effect split: option.splits)

section \<open>Accounting\<close>

definition total_count :: "'a ext_state_scheme \<Rightarrow> u64" where
  "total_count st = (\<Sum>k\<in>dom (event_agg_map st). av_count (the (event_agg_map st k)))"

definition overflow_total :: "nat \<Rightarrow> 'a ext_state_scheme \<Rightarrow> u64" where
  "overflow_total ncpu st = (\<Sum>c<ncpu. agg_overflow_count st c)"

definition accounted :: "nat \<Rightarrow> 'a ext_state_scheme \<Rightarrow> u64" where
  "accounted ncpu st = total_count st + overflow_total ncpu st"

text \<open>The guards of each program besides the tracking filter: whether it records an event.\<close>

fun wants :: "ext_prog \<Rightarrow> ext_config \<Rightarrow> bpf_env \<Rightarrow> 'a ext_state_scheme \<Rightarrow> bool" where
  "wants P_unlinkat cfg env st \<longleftrightarrow> trace_fs_mutations cfg \<and> user_str env (args env 1) \<noteq> None"
| "wants P_unlink cfg env st \<longleftrightarrow> trace_fs_mutations cfg \<and> user_str env (args env 0) \<noteq> None"
| "wants P_renameat2 cfg env st \<longleftrightarrow> trace_fs_mutations cfg \<and> user_str env (args env 3) \<noteq> None"
| "wants P_renameat cfg env st \<longleftrightarrow> trace_fs_mutations cfg \<and> user_str env (args env 3) \<noteq> None"
| "wants P_rename cfg env st \<longleftrightarrow> trace_fs_mutations cfg \<and> user_str env (args env 1) \<noteq> None"
| "wants P_mkdirat cfg env st \<longleftrightarrow> trace_fs_mutations cfg \<and> user_str env (args env 1) \<noteq> None"
| "wants P_mkdir cfg env st \<longleftrightarrow> trace_fs_mutations cfg \<and> user_str env (args env 0) \<noteq> None"
| "wants P_ftruncate cfg env st \<longleftrightarrow> trace_fs_mutations cfg"
| "wants P_chdir cfg env st \<longleftrightarrow> trace_fs_mutations cfg \<and> user_str env (args env 0) \<noteq> None"
| "wants (P_write_exit ret) cfg env st \<longleftrightarrow> trace_fs_mutations cfg \<and> 0 < sint ret \<and> write_ctx_map st (pid_tgid env) \<noteq> None"
| "wants (P_pwrite64_exit ret) cfg env st \<longleftrightarrow> trace_fs_mutations cfg \<and> 0 < sint ret \<and> write_ctx_map st (pid_tgid env) \<noteq> None"
| "wants (P_writev_exit ret) cfg env st \<longleftrightarrow> trace_fs_mutations cfg \<and> 0 < sint ret \<and> write_ctx_map st (pid_tgid env) \<noteq> None"
| "wants P_bind cfg env st \<longleftrightarrow> trace_network cfg"
| "wants P_listen cfg env st \<longleftrightarrow> trace_network cfg"
| "wants P_connect cfg env st \<longleftrightarrow> trace_network cfg"
| "wants P_setpgid cfg env st \<longleftrightarrow> trace_signals cfg"
| "wants P_setsid cfg env st \<longleftrightarrow> trace_signals cfg"
| "wants P_kill cfg env st \<longleftrightarrow> trace_signals cfg"
| "wants P_fork cfg env st \<longleftrightarrow> trace_signals cfg"
| "wants P_mmap cfg env st \<longleftrightarrow> trace_memory cfg \<and> arg_int env 3 AND 1 \<noteq> 0"
| "wants P_cow_fault cfg env st \<longleftrightarrow> trace_cow cfg"
| "wants _ cfg env st \<longleftrightarrow> False"

lemma total_count_upd:
  assumes "finite (dom (event_agg_map st))"
  shows "total_count (st\<lparr>event_agg_map := (event_agg_map st)(key \<mapsto> v)\<rparr>) =
    total_count st + av_count v - (case event_agg_map st key of None \<Rightarrow> 0 | Some w \<Rightarrow> av_count w)"
proof -
  let ?m = "event_agg_map st"
  have "total_count (st\<lparr>event_agg_map := ?m(key \<mapsto> v)\<rparr>) = av_count v + (\<Sum>k\<in>dom ?m - {key}. av_count (the (?m k)))"
    using assms by (simp add: total_count_def sum.insert_remove)
  moreover have "total_count st = (case ?m key of None \<Rightarrow> 0 | Some w \<Rightarrow> av_count w) + (\<Sum>k\<in>dom ?m - {key}. av_count (the (?m k)))"
  proof (cases "?m key")
    case None
    then show ?thesis by (simp add: total_count_def domIff Diff_insert_absorb)
  next
    case (Some w)
    then show ?thesis using assms by (simp add: total_count_def sum.remove[of _ key] domI)
  qed
  ultimately show ?thesis by simp
qed

lemma overflow_bump: "cpu env < n \<Longrightarrow> overflow_total n (bump_overflow env st) = overflow_total n st + 1"
proof -
  assume c: "cpu env < n"
  have "overflow_total n (bump_overflow env st) =
      (agg_overflow_count st (cpu env) + 1) + (\<Sum>i\<in>{..<n} - {cpu env}. agg_overflow_count st i)"
    using c by (simp add: overflow_total_def bump_overflow_def sum.remove[of "{..<n}" "cpu env"])
  also have "\<dots> = overflow_total n st + 1"
    using c by (simp add: overflow_total_def sum.remove[of "{..<n}" "cpu env"])
  finally show ?thesis .
qed

lemma recorded_accounted:
  assumes "finite (dom (event_agg_map st))" "cpu env < n" "recorded env key b st st'"
  shows "accounted n st' = accounted n st + 1"
proof (cases "event_agg_map st key = None \<and> \<not> room env")
  case True
  then have "st' = bump_overflow env st" using assms(3) by (simp add: recorded_def)
  moreover have "total_count (bump_overflow env st) = total_count st" by (simp add: total_count_def bump_overflow_def)
  ultimately show ?thesis using overflow_bump[OF assms(2)] by (simp add: accounted_def)
next
  case False
  then obtain v where v: "st' = st\<lparr>event_agg_map := (event_agg_map st)(key \<mapsto> v)\<rparr>"
    "av_count v = (case event_agg_map st key of None \<Rightarrow> 1 | Some w \<Rightarrow> av_count w + 1)"
    using assms(3) by (auto simp: recorded_def)
  then have "total_count st' = total_count st + 1"
    using total_count_upd[OF assms(1), of key v] by (simp split: option.splits)
  then show ?thesis by (simp add: v(1) accounted_def overflow_total_def)
qed

lemma recorded_finite: "finite (dom (event_agg_map st)) \<Longrightarrow> recorded env key b st st' \<Longrightarrow> finite (dom (event_agg_map st'))"
  by (auto simp: recorded_def bump_overflow_def split: if_splits)

lemma run_prog_finite: "finite (dom (event_agg_map st)) \<Longrightarrow> finite (dom (event_agg_map (run_prog p cfg env st)))"
  using run_prog_effect[of cfg env st p] recorded_finite[of "st\<lparr>write_ctx_map := w\<rparr>" for w]
  unfolding ext_effect_def by fastforce

lemma accounted_ctx [simp]: "accounted n (st\<lparr>write_ctx_map := w\<rparr>) = accounted n st"
  by (simp add: accounted_def total_count_def overflow_total_def)

lemma update_accounted:
  "finite (dom (event_agg_map st)) \<Longrightarrow> cpu env < n \<Longrightarrow> accounted n (update_agg_map env key 1 b st) = accounted n st + 1"
  by (rule recorded_accounted[OF _ _ update_agg_map_recorded])

lemma path_accounted:
  assumes "finite (dom (event_agg_map st))" "cpu env < n"
  shows "accounted n (agg_path_event cfg env a t st) =
    accounted n st + (if is_event_tracked cfg env st \<and> trace_fs_mutations cfg \<and> user_str env a \<noteq> None then 1 else 0)"
proof (cases "trace_fs_mutations cfg \<and> is_event_tracked cfg env st \<and> user_str env a \<noteq> None")
  case True
  then obtain f where f: "probe_read_user_str env MAX_FILENAME_LEN a = Some f"
    by (auto simp: probe_read_user_str_def)
  with True have "recorded env (path_key env t f) 0 st (agg_path_event cfg env a t st)"
    by (auto simp: agg_path_event_def recorded_def path_key_def map_update_def Let_def split: option.splits)
  then show ?thesis using recorded_accounted[OF assms] True by simp
qed (auto simp: agg_path_event_def probe_read_user_str_def)

lemma write_exit_accounted:
  assumes "finite (dom (event_agg_map st))" "cpu env < n"
  shows "accounted n (trace_write_exit_common cfg env ret st) =
    accounted n st + (if is_event_tracked cfg env st \<and> trace_fs_mutations cfg \<and> 0 < sint ret \<and>
      write_ctx_map st (pid_tgid env) \<noteq> None then 1 else 0)"
  using assms by (auto simp: trace_write_exit_common_def Let_def update_accounted split: option.splits)

lemma run_prog_accounted:
  assumes "finite (dom (event_agg_map st))" "cpu env < n"
  shows "accounted n (run_prog p cfg env st) =
    accounted n st + (if is_event_tracked cfg env st \<and> wants p cfg env st then 1 else 0)"
  using assms
  by (cases p) (auto simp: bpf_defs Let_def path_accounted write_exit_accounted update_accounted
      probe_read_user_str_def split: option.splits)

text \<open>A run of programs, each with the environment of its invocation, and the events it should record.\<close>

fun run_progs :: "ext_config \<Rightarrow> (ext_prog \<times> bpf_env) list \<Rightarrow> 'a ext_state_scheme \<Rightarrow> 'a ext_state_scheme" where
  "run_progs cfg [] st = st"
| "run_progs cfg ((p, env) # xs) st = run_progs cfg xs (run_prog p cfg env st)"

fun wanted :: "ext_config \<Rightarrow> (ext_prog \<times> bpf_env) list \<Rightarrow> 'a ext_state_scheme \<Rightarrow> nat" where
  "wanted cfg [] st = 0"
| "wanted cfg ((p, env) # xs) st =
     (if is_event_tracked cfg env st \<and> wants p cfg env st then 1 else 0) + wanted cfg xs (run_prog p cfg env st)"

lemma effect_filters:
  "ext_effect cfg env st st' \<Longrightarrow> tracked_pids st' = tracked_pids st \<and> tracked_cgroups st' = tracked_cgroups st"
  by (auto simp: ext_effect_def recorded_def bump_overflow_def split: if_splits)

lemma update_keeps_ctx [simp]: "write_ctx_map (update_agg_map env key c b st) = write_ctx_map st"
  by (auto simp: update_agg_map_def bump_overflow_def map_update_def Let_def split: option.splits)

lemma path_keeps_ctx [simp]: "write_ctx_map (agg_path_event cfg env a t st) = write_ctx_map st"
  by (auto simp: agg_path_event_def bump_overflow_def map_update_def Let_def split: option.splits)

lemma run_prog_other_ctx: "tid \<noteq> pid_tgid env \<Longrightarrow> write_ctx_map (run_prog p cfg env st) tid = write_ctx_map st tid"
  by (cases p) (auto simp: bpf_defs trace_write_exit_common_def map_update_other map_delete_def Let_def split: option.splits)

lemma run_progs_other_ctx:
  "\<forall>(p, env)\<in>set xs. tid \<noteq> pid_tgid env \<Longrightarrow>
     write_ctx_map (run_progs cfg xs st) tid = write_ctx_map st tid"
  by (induction cfg xs st rule: run_progs.induct) (auto simp: run_prog_other_ctx)

lemma run_progs_filters:
  "tracked_pids (run_progs cfg xs st) = tracked_pids st \<and> tracked_cgroups (run_progs cfg xs st) = tracked_cgroups st"
  by (induction cfg xs st rule: run_progs.induct) (simp_all add: effect_filters[OF run_prog_effect])

lemma tracked_cong:
  "tracked_pids st' = tracked_pids st \<Longrightarrow> tracked_cgroups st' = tracked_cgroups st \<Longrightarrow>
     is_event_tracked cfg env st' = is_event_tracked cfg env st"
  by (simp add: is_event_tracked_def is_cgroup_tracked_def is_pid_tracked_def)

lemma tracked_env_cong:
  "pid_tgid env' = pid_tgid env \<Longrightarrow> cgroup_id env' = cgroup_id env \<Longrightarrow>
     is_event_tracked cfg env' st = is_event_tracked cfg env st"
  by (simp add: is_event_tracked_def is_cgroup_tracked_def is_pid_tracked_def cur_tgid_def)

text \<open>The key under which writes to a descriptor are aggregated.\<close>

definition write_key :: "bpf_env \<Rightarrow> i32 \<Rightarrow> agg_key" where
  "write_key env fd = \<lparr>ak_pid = cur_tgid env, ak_event_type = 15, ak_detail = zbuf 64 (''fd='' @ dec_int (sint fd))\<rparr>"

lemma write_key_eq:
  "(new_key env EVENT_TYPE_WRITE)\<lparr>ak_detail := format_fd_detail (zbuf DETAIL_LEN []) DETAIL_LEN fd\<rparr> = write_key env fd"
  by (simp add: write_key_def new_key_def format_fd_detail_eq) (simp add: DETAIL_LEN_def)

section \<open>Properties\<close>

definition empty_state :: ext_state where
  "empty_state = \<lparr>event_agg_map = Map.empty, tracked_pids = Map.empty, tracked_cgroups = Map.empty,
     agg_overflow_count = (\<lambda>_. 0), exit_mem = Map.empty, write_ctx_map = Map.empty\<rparr>"

definition sample_env :: bpf_env where
  "sample_env = \<lparr>pid_tgid = 0x70000000007, uid_gid = 0, ktime = 5, cur_comm = zbuf 16 ''sh'', cgroup_id = 1, cpu = 0,
     args = (\<lambda>_. 3), user_str = (\<lambda>_. Some ''/tmp/a''), user_mem = (\<lambda>_ _. None), room = True\<rparr>"

definition sample_config :: ext_config where
  "sample_config = \<lparr>filter_pids = False, filter_cgroup = False, filter_cgroup_children = False, target_cgroup_id = 0,
     trace_fs_mutations = True, trace_network = True, trace_signals = True, trace_memory = True, trace_cow = True\<rparr>"

text \<open>
  C32: Whatever programs run in whatever order, every tracked event whose guards hold is counted
  exactly once, in an entry of the aggregation map or in an overflow counter: the sum of all counts
  and overflow counters grows by exactly the number of such events (modulo \<open>2 ^ 64\<close>, the width of
  the counters).
\<close>

theorem aggregation_loses_nothing:
  assumes "finite (dom (event_agg_map st))" "\<forall>(p, env)\<in>set xs. cpu env < ncpu"
  shows "accounted ncpu (run_progs cfg xs st) = accounted ncpu st + of_nat (wanted cfg xs st)"
  using assms
proof (induction cfg xs st rule: run_progs.induct)
  case (2 cfg p env xs st)
  then show ?case
    using run_prog_accounted[of st env ncpu p cfg] run_prog_finite[of st p cfg env] by simp
qed simp

theorem aggregation_loses_nothing_witness:
  "accounted 1 (run_progs sample_config [(P_unlink, sample_env), (P_kill, sample_env), (P_unlink, sample_env)] empty_state) = 3"
proof -
  have "finite (dom (event_agg_map empty_state))" by (simp add: empty_state_def)
  moreover have "\<forall>(p, env)\<in>set [(P_unlink, sample_env), (P_kill, sample_env), (P_unlink, sample_env)]. cpu env < 1"
    by (simp add: sample_env_def)
  moreover have "wanted sample_config [(P_unlink, sample_env), (P_kill, sample_env), (P_unlink, sample_env)] empty_state = 3"
    by (simp add: is_event_tracked_def is_cgroup_tracked_def is_pid_tracked_def sample_config_def sample_env_def)
  moreover have "accounted 1 empty_state = 0"
    by (simp add: accounted_def total_count_def overflow_total_def empty_state_def)
  ultimately show ?thesis
    using aggregation_loses_nothing[of empty_state _ 1 sample_config] by fastforce
qed

text \<open>
  C33: The filters are respected by every program: an event of a process outside the target cgroups
  or, when PIDs are filtered, outside the tracked PIDs changes no map and no counter; an event that
  is recorded is recorded under the PID of the process that caused it.
\<close>

theorem untracked_events_leave_no_trace:
  "(\<not> is_event_tracked cfg env st \<longrightarrow> run_prog p cfg env st = st) \<and>
   (\<forall>key. event_agg_map (run_prog p cfg env st) key \<noteq> event_agg_map st key \<longrightarrow> ak_pid key = cur_tgid env)"
proof
  note e = run_prog_effect[of cfg env st p, unfolded ext_effect_def]
  show "\<not> is_event_tracked cfg env st \<longrightarrow> run_prog p cfg env st = st" using e by blast
  have "ak_pid key = cur_tgid env"
    if "recorded env k n (st\<lparr>write_ctx_map := w\<rparr>) st'" "ak_pid k = cur_tgid env" "event_agg_map st' key \<noteq> event_agg_map st key"
    for key k n w st'
    using that by (cases "key = k") (auto simp: recorded_def bump_overflow_def split: if_splits)
  then show "\<forall>key. event_agg_map (run_prog p cfg env st) key \<noteq> event_agg_map st key \<longrightarrow> ak_pid key = cur_tgid env"
    using e by fastforce
qed

theorem untracked_events_leave_no_trace_witness:
  "run_prog P_kill (sample_config\<lparr>filter_pids := True\<rparr>) sample_env empty_state = empty_state"
proof -
  have "\<not> is_event_tracked (sample_config\<lparr>filter_pids := True\<rparr>) sample_env empty_state"
    by (simp add: is_event_tracked_def is_pid_tracked_def empty_state_def sample_config_def)
  then show ?thesis
    using untracked_events_leave_no_trace[of "sample_config\<lparr>filter_pids := True\<rparr>" sample_env empty_state P_kill] by blast
qed

text \<open>
  C34: A successful write is attributed to the descriptor it was made on. If a tracked thread enters
  \<open>write\<close> on \<open>fd\<close>, other threads run any programs, and the thread returns from the call with \<open>ret > 0\<close>,
  then one event and \<open>ret\<close> bytes are recorded for that process and descriptor, and the table of
  pending writes no longer holds the thread.
\<close>

theorem write_attributed_to_fd:
  assumes "trace_fs_mutations cfg" "is_event_tracked cfg env st" "room env" "0 < sint ret"
    and "\<forall>(p, e)\<in>set between. pid_tgid env \<noteq> pid_tgid e"
    and "pid_tgid env' = pid_tgid env" "cgroup_id env' = cgroup_id env"
    and st2_def: "st2 = run_progs cfg between (trace_write_enter_common cfg env fd st)"
  shows "recorded env' (write_key env fd) ret (st2\<lparr>write_ctx_map := (write_ctx_map st2)(pid_tgid env := None)\<rparr>)
      (trace_write_exit_common cfg env' ret st2) \<and>
    write_ctx_map (trace_write_exit_common cfg env' ret st2) (pid_tgid env) = None"
proof -
  let ?st1 = "trace_write_enter_common cfg env fd st"
  have enter: "write_ctx_map ?st1 (pid_tgid env) = Some fd" "tracked_pids ?st1 = tracked_pids st" "tracked_cgroups ?st1 = tracked_cgroups st"
    using assms(1-3) by (auto simp: trace_write_enter_common_def map_update_def split: option.splits)
  have ctx: "write_ctx_map st2 (pid_tgid env) = Some fd"
    using run_progs_other_ctx[OF assms(5), of cfg ?st1] enter(1) by (simp add: st2_def)
  have tr: "is_event_tracked cfg env' st2"
  proof -
    have "is_event_tracked cfg env st2"
      using tracked_cong[of st2 st cfg env] run_progs_filters[of cfg between ?st1] enter assms(2) by (simp add: st2_def)
    then show ?thesis using tracked_env_cong[OF assms(6,7)] by blast
  qed
  have key: "write_key env' fd = write_key env fd" using assms(6) by (simp add: write_key_def cur_tgid_def)
  have "trace_write_exit_common cfg env' ret st2 =
      update_agg_map env' (write_key env fd) 1 ret (st2\<lparr>write_ctx_map := (write_ctx_map st2)(pid_tgid env := None)\<rparr>)"
    using assms(1,4,6) ctx tr by (simp add: trace_write_exit_common_def write_key_eq key map_delete_def Let_def)
  then show ?thesis using update_agg_map_recorded by simp
qed

theorem write_attributed_to_fd_witness:
  "write_ctx_map (trace_write_exit_common sample_config sample_env 4
     (trace_write_enter_common sample_config sample_env 3 empty_state)) (pid_tgid sample_env) = None"
proof -
  have "trace_fs_mutations sample_config" "room sample_env" "0 < sint (4::u64)"
    "is_event_tracked sample_config sample_env empty_state"
    by (simp_all add: sample_config_def sample_env_def is_event_tracked_def is_cgroup_tracked_def is_pid_tracked_def)
  then show ?thesis using write_attributed_to_fd[of sample_config sample_env empty_state 4 "[]" sample_env _ 3] by simp
qed

text \<open>
  A write that fails or writes nothing leaves its entry in the table of pending writes: the exit
  program returns before it deletes the entry.
\<close>

lemma failed_write_keeps_pending_entry:
  assumes "trace_fs_mutations cfg" "is_event_tracked cfg env st" "room env" "sint ret \<le> 0"
  shows "write_ctx_map (trace_write_exit_common cfg env' ret (trace_write_enter_common cfg env fd st)) (pid_tgid env) = Some fd"
  using assms by (simp add: trace_write_exit_common_def trace_write_enter_common_def map_update_def split: option.splits)

text \<open>
  The detail strings are exact: a descriptor is written as \<open>fd=\<close> and its signed decimal value, an
  IPv4 endpoint as its dotted quad and port, and two integers with their labels; the rest of the
  64-byte detail is NUL, so that equal values give equal map keys.
\<close>

theorem detail_strings_exact:
  "format_fd_detail (zbuf 64 []) 64 fd = zbuf 64 (''fd='' @ dec_int (sint fd)) \<and>
   format_ipv4_port (zbuf 64 []) 64 ip port = zbuf 64 (ipv4_text ip port) \<and>
   format_family (zbuf 64 []) 64 family = zbuf 64 (''family='' @ dec_nat (unat family)) \<and>
   two_ints_detail ''target='' a '',sig='' b = zbuf 64 (''target='' @ dec_int (sint a) @ '',sig='' @ dec_int (sint b)) \<and>
   two_ints_detail ''pid='' a '',pgid='' b = zbuf 64 (''pid='' @ dec_int (sint a) @ '',pgid='' @ dec_int (sint b))"
  using format_fd_detail_eq[of fd] format_ipv4_port_eq[of ip port] format_family_eq[of family]
    two_ints_detail_eq[of "''target=''" "'',sig=''" a b] two_ints_detail_eq[of "''pid=''" "'',pgid=''" a b]
  by (simp add: DETAIL_LEN_def)

text \<open>
  The detail of a file event reads as the directory of the path, but the bytes of the file name
  stay in the key behind the NUL: two files of one directory never share an entry of the
  aggregation map, although the summaries print the same detail for both.
\<close>

theorem directory_key_keeps_file_name:
  assumes "NUL \<notin> set dir" "NUL \<notin> set a" "NUL \<notin> set b" "CHR ''/'' \<notin> set a" "CHR ''/'' \<notin> set b"
    and "dir \<noteq> []" "length (dir @ CHR ''/'' # a) < 64" "length (dir @ CHR ''/'' # b) < 64" "a \<noteq> b"
  shows "extract_dir_prefix (dir @ CHR ''/'' # a) (zbuf 64 []) 64 \<noteq> extract_dir_prefix (dir @ CHR ''/'' # b) (zbuf 64 []) 64 \<and>
    c_str (extract_dir_prefix (dir @ CHR ''/'' # a) (zbuf 64 []) 64) = dir \<and>
    c_str (extract_dir_prefix (dir @ CHR ''/'' # b) (zbuf 64 []) 64) = dir"
proof -
  have eq: "extract_dir_prefix (dir @ CHR ''/'' # x) (zbuf 64 []) 64 = zbuf 64 (dir @ NUL # x)"
    if "NUL \<notin> set x" "CHR ''/'' \<notin> set x" "length (dir @ CHR ''/'' # x) < 64" for x
  proof -
    let ?p = "dir @ CHR ''/'' # x"
    have p: "take 63 (c_str ?p) = ?p" using that assms(1) by (subst c_str_fix) auto
    have "last_slash ?p = length dir"
    proof (rule ccontr)
      assume ne: "last_slash ?p \<noteq> length dir"
      have "length dir \<le> last_slash ?p" by (rule last_slash_max) auto
      with ne have gt: "length dir < last_slash ?p" by simp
      then have l: "last_slash ?p < length ?p" "?p ! last_slash ?p = CHR ''/''" using last_slash_less[of ?p] by auto
      then have "x ! (last_slash ?p - length dir - 1) \<in> set x" using gt by (intro nth_mem) simp
      moreover have "?p ! last_slash ?p = x ! (last_slash ?p - length dir - 1)" using gt by (simp add: nth_append nth_Cons')
      ultimately show False using l(2) that(2) by simp
    qed
    then show ?thesis
      using extract_dir_prefix_eq[of ?p] p assms(6) by (simp add: DETAIL_LEN_def Let_def)
  qed
  have c: "c_str (zbuf 64 (dir @ NUL # x)) = dir" for x
    using assms(1) by (simp add: zbuf_def)
  have "zbuf 64 (dir @ NUL # a) \<noteq> zbuf 64 (dir @ NUL # b)"
  proof
    assume "zbuf 64 (dir @ NUL # a) = zbuf 64 (dir @ NUL # b)"
    then have "a @ replicate (63 - length dir - length a) NUL = b @ replicate (63 - length dir - length b) NUL"
      by (simp add: zbuf_def)
    then have "c_str (a @ replicate (63 - length dir - length a) NUL) = c_str (b @ replicate (63 - length dir - length b) NUL)"
      by simp
    moreover have "c_str (x @ replicate n NUL) = x" if "NUL \<notin> set x" for x n
      using that by (cases n) (simp_all add: c_str_fix)
    ultimately show False using assms(2,3,9) by simp
  qed
  then show ?thesis using eq[OF assms(2,4,7)] eq[OF assms(3,5,8)] c by simp
qed

theorem directory_key_keeps_file_name_witness:
  "extract_dir_prefix ''/tmp/a'' (zbuf 64 []) 64 \<noteq> extract_dir_prefix ''/tmp/b'' (zbuf 64 []) 64 \<and>
   c_str (extract_dir_prefix ''/tmp/a'' (zbuf 64 []) 64) = ''/tmp''"
  using directory_key_keeps_file_name[of "''/tmp''" "''a''" "''b''"] by simp

end
