(* ===== verification/Proc_Info.thy ===== *)
theory Proc_Info
  imports Prelude
begin

text \<open>
  Command lines and container metadata: \<open>bpf/process_utils.h\<close> and \<open>bpf/container_info.h\<close>. A file
  under \<open>/proc\<close> is its contents, or \<open>None\<close> when it cannot be opened; \<open>fgets_lines\<close> cuts it the way
  \<open>fgets\<close> with a buffer of the given size does.
\<close>

section \<open>The code: process\_utils.h\<close>

text \<open>The \<open>while\<close> loop that measures the first string of the buffer.\<close>

fun scan_len :: "bytes \<Rightarrow> nat \<Rightarrow> nat" where
  "scan_len [] limit = 0"
| "scan_len (c # cs) 0 = 0"
| "scan_len (c # cs) (Suc limit) = (if c \<noteq> NUL then Suc (scan_len cs limit) else 0)"

text \<open>The bytes of \<open>cmd_buf\<close> before the terminating NUL the function writes.\<close>

definition postprocess_full_command :: "bytes \<Rightarrow> i32 \<Rightarrow> u32 \<Rightarrow> bytes" where
  "postprocess_full_command buf buf_size arg_len =
     (if arg_len = 0 \<or> buf_size - 1 < arg_len then
        take (scan_len buf (nat (sint (buf_size - 1)))) buf
      else
        fold (\<lambda>i cmd_buf. if cmd_buf ! i = NUL then cmd_buf[i := CHR '' ''] else cmd_buf)
          [0..<unat arg_len - 1] (take (unat arg_len) buf))"

section \<open>The code: container\_info.h\<close>

text \<open>One call of \<open>fgets\<close> with a buffer of \<open>n + 1\<close> bytes: a line with its newline, or \<open>n\<close> bytes of it.\<close>

fun fgets_line :: "nat \<Rightarrow> bytes \<Rightarrow> bytes" where
  "fgets_line 0 s = []"
| "fgets_line (Suc n) [] = []"
| "fgets_line (Suc n) (c # cs) = (if c = CHR 0x0A then [c] else c # fgets_line n cs)"

function fgets_lines :: "nat \<Rightarrow> bytes \<Rightarrow> bytes list" where
  "fgets_lines bufsize s =
     (if s = [] \<or> bufsize < 2 then []
      else fgets_line (bufsize - 1) s # fgets_lines bufsize (drop (length (fgets_line (bufsize - 1) s)) s))"
  by pat_completeness auto
termination
proof (relation "measure (\<lambda>(n, s). length s)")
  fix bufsize :: nat and s :: bytes
  assume "\<not> (s = [] \<or> bufsize < 2)"
  then show "((bufsize, drop (length (fgets_line (bufsize - 1) s)) s), bufsize, s) \<in> measure (\<lambda>(n, s). length s)"
    by (cases s; cases "bufsize - 1") auto
qed simp

declare fgets_lines.simps [simp del]

definition is_digit :: "char \<Rightarrow> bool" where
  "is_digit c \<longleftrightarrow> 48 \<le> ord c \<and> ord c \<le> 57"

text \<open>The value \<open>strtol\<close> reads from a run of decimal digits, saturated at \<open>LONG_MAX\<close>.\<close>

definition dec_value :: "bytes \<Rightarrow> nat" where
  "dec_value ds = foldl (\<lambda>n d. n * 10 + (ord d - 48)) 0 ds"

definition strtol_digits :: "bytes \<Rightarrow> u64" where
  "strtol_digits p = of_nat (min (dec_value (takeWhile is_digit p)) (2 ^ 63 - 1))"

function nspid_loop :: "bytes \<Rightarrow> i32 \<Rightarrow> nat \<Rightarrow> i32 \<times> nat" where
  "nspid_loop p last_pid count =
     (if p = [] then (last_pid, count)
      else
        let q = dropWhile (\<lambda>c. c = CHR 0x09 \<or> c = CHR '' '') p in
        if q \<noteq> [] \<and> is_digit (hd q)
        then nspid_loop (dropWhile is_digit q) (ucast (strtol_digits q)) (count + 1)
        else (last_pid, count))"
  by pat_completeness auto
termination
proof (relation "measure (\<lambda>(p, _). length p)")
  fix p q :: bytes and last_pid :: i32 and count :: nat
  assume q: "q = dropWhile (\<lambda>c. c = CHR 0x09 \<or> c = CHR '' '') p" "q \<noteq> [] \<and> is_digit (hd q)"
  from q(2) have "length (dropWhile is_digit q) < length q"
    by (cases q) (auto simp: length_dropWhile_le less_Suc_eq_le)
  also have "length q \<le> length p" using q(1) by (simp add: length_dropWhile_le)
  finally show "((dropWhile is_digit q, ucast (strtol_digits q), count + 1), p, last_pid, count) \<in> measure (\<lambda>(p, _). length p)"
    by simp
qed simp

declare nspid_loop.simps [simp del]

fun ns_pid_lines :: "bytes list \<Rightarrow> i32" where
  "ns_pid_lines [] = -1"
| "ns_pid_lines (line # lines) =
     (if take 6 line = ''NSpid:'' then
        (case nspid_loop (c_str (drop 6 line)) (-1) 0 of (last_pid, count) \<Rightarrow>
           if 2 \<le> count then last_pid else -1)
      else ns_pid_lines lines)"

definition get_ns_pid :: "bytes option \<Rightarrow> i32" where
  "get_ns_pid status = (case status of None \<Rightarrow> -1 | Some s \<Rightarrow> ns_pid_lines (fgets_lines 256 s))"

definition is_lower_hex :: "char \<Rightarrow> bool" where
  "is_lower_hex c \<longleftrightarrow> is_digit c \<or> (97 \<le> ord c \<and> ord c \<le> 102)"

function cid_scan :: "bytes \<Rightarrow> nat \<Rightarrow> bytes option" where
  "cid_scan p out_len =
     (if p = [] then None
      else
        let run = takeWhile is_lower_hex p in
        if length run = 64 then Some (take (min (out_len - 1) 12) run)
        else if length run = 0 then cid_scan (tl p) out_len
        else cid_scan (drop (length run) p) out_len)"
  by pat_completeness auto
termination
  by (relation "measure (\<lambda>(p, _). length p)") auto

declare cid_scan.simps [simp del]

fun cid_lines :: "bytes list \<Rightarrow> nat \<Rightarrow> bytes option" where
  "cid_lines [] out_len = None"
| "cid_lines (line # lines) out_len =
     (case cid_scan (c_str line) out_len of Some cid \<Rightarrow> Some cid | None \<Rightarrow> cid_lines lines out_len)"

definition get_container_id :: "bytes option \<Rightarrow> nat \<Rightarrow> bytes option" where
  "get_container_id cgroup out_len =
     (case cgroup of None \<Rightarrow> None | Some s \<Rightarrow> cid_lines (fgets_lines 512 s) out_len)"

text \<open>The arguments are the contents of \<open>/proc/<pid>/status\<close> and \<open>/proc/<pid>/cgroup\<close>.\<close>

definition print_container_fields :: "bytes option \<Rightarrow> bytes option \<Rightarrow> bytes" where
  "print_container_fields status cgroup =
     (let ns_pid = get_ns_pid status in
      if 0 < sint ns_pid then
        '',\"ns_pid\":'' @ dec_int (sint ns_pid) @
        (case get_container_id cgroup 16 of
           Some cid \<Rightarrow> if cid \<noteq> [] then '',\"container_id\":\"'' @ cid @ ''\"'' else []
         | None \<Rightarrow> [])
      else [])"

section \<open>Command lines\<close>

lemma scan_len_c_str: "take (scan_len buf n) buf = c_str (take n buf)"
  by (induction buf n rule: scan_len.induct) auto

text \<open>Overwriting the NULs among the first \<open>k\<close> bytes.\<close>

definition blank :: "char \<Rightarrow> char" where
  "blank c = (if c = NUL then CHR '' '' else c)"

lemma fold_blank:
  "k \<le> length xs \<Longrightarrow>
     fold (\<lambda>i cmd. if cmd ! i = NUL then cmd[i := CHR '' ''] else cmd) [0..<k] xs = map blank (take k xs) @ drop k xs"
proof (induction k)
  case (Suc k)
  then have e: "fold (\<lambda>i cmd. if cmd ! i = NUL then cmd[i := CHR '' ''] else cmd) [0..<k] xs =
      map blank (take k xs) @ xs ! k # drop (Suc k) xs"
    by (simp add: Cons_nth_drop_Suc)
  have "length (map blank (take k xs)) = k" using Suc.prems by simp
  then have "(map blank (take k xs) @ y # ys) ! k = y" "(map blank (take k xs) @ y # ys)[k := z] = map blank (take k xs) @ z # ys" for y z ys
    by (metis nth_append_length, metis list_update_length)
  with e Suc.prems show ?case by (simp add: blank_def take_Suc_conv_app_nth)
qed simp

lemma map_blank_id: "NUL \<notin> set s \<Longrightarrow> map blank s = s"
  by (induction s) (auto simp: blank_def)

text \<open>The bytes \<open>execve\<close> leaves in memory for an argument vector, and its printed form.\<close>

definition argv_bytes :: "bytes list \<Rightarrow> bytes" where
  "argv_bytes args = concat (map (\<lambda>a. a @ [NUL]) args)"

fun join_blank :: "bytes list \<Rightarrow> bytes" where
  "join_blank [] = []"
| "join_blank [a] = a"
| "join_blank (a # as) = a @ CHR '' '' # join_blank as"

lemma map_blank_argv:
  "args \<noteq> [] \<Longrightarrow> \<forall>a\<in>set args. NUL \<notin> set a \<Longrightarrow>
     map blank (butlast (argv_bytes args)) = join_blank args \<and> last (argv_bytes args) = NUL \<and> argv_bytes args \<noteq> []"
proof (induction args rule: join_blank.induct)
  case (3 a b as)
  have ne: "argv_bytes (b # as) \<noteq> []" by (simp add: argv_bytes_def)
  have "argv_bytes (a # b # as) = (a @ [NUL]) @ argv_bytes (b # as)" by (simp add: argv_bytes_def)
  moreover have "map blank [NUL] = '' ''" by (simp add: blank_def)
  ultimately show ?case using 3 ne by (simp add: butlast_append map_blank_id)
qed (auto simp: argv_bytes_def butlast_append map_blank_id)

lemma join_blank_no_nul: "\<forall>a\<in>set args. NUL \<notin> set a \<Longrightarrow> NUL \<notin> set (join_blank args)"
  by (induction args rule: join_blank.induct) auto

section \<open>Decimal numbers\<close>

lemma digit_props: "d < 10 \<Longrightarrow> ord (digit d) = 48 + d" "d < 10 \<Longrightarrow> is_digit (digit d)"
  by (simp_all add: digit_def is_digit_def)

lemma dec_value_snoc: "dec_value (ds @ [d]) = dec_value ds * 10 + (ord d - 48)"
  by (simp add: dec_value_def)

lemma dec_nat_digits: "list_all is_digit (dec_nat n) \<and> dec_nat n \<noteq> [] \<and> dec_value (dec_nat n) = n"
proof (induction n rule: dec_nat.induct)
  case (1 n)
  show ?case
  proof (cases "n < 10")
    case True
    then show ?thesis by (simp add: dec_nat.simps[of n] digit_props dec_value_def)
  next
    case False
    then show ?thesis using 1 by (simp add: dec_nat.simps[of n] digit_props dec_value_snoc)
  qed
qed

lemma dec_nat_is_digit: "c \<in> set (dec_nat n) \<Longrightarrow> is_digit c"
  using dec_nat_digits[of n] by (simp add: list_all_iff)

lemma takeWhile_digits: "rest = [] \<or> \<not> is_digit (hd rest) \<Longrightarrow> takeWhile is_digit (dec_nat n @ rest) = dec_nat n"
  using dec_nat_digits[of n] by (cases rest) (auto simp: list_all_iff takeWhile_append takeWhile_eq_all_conv)

lemma dropWhile_digits: "rest = [] \<or> \<not> is_digit (hd rest) \<Longrightarrow> dropWhile is_digit (dec_nat n @ rest) = rest"
  using dec_nat_digits[of n] by (cases rest) (auto simp: list_all_iff dropWhile_append)

lemma strtol_dec_nat:
  "rest = [] \<or> \<not> is_digit (hd rest) \<Longrightarrow> n < 2 ^ 31 \<Longrightarrow> ucast (strtol_digits (dec_nat n @ rest)) = (of_nat n :: i32)"
proof -
  assume "rest = [] \<or> \<not> is_digit (hd rest)" "n < 2 ^ 31"
  then have "strtol_digits (dec_nat n @ rest) = of_nat n"
    using dec_nat_digits[of n] by (simp add: strtol_digits_def takeWhile_digits)
  then show ?thesis using \<open>n < 2 ^ 31\<close> by (simp add: unsigned_of_nat take_bit_nat_eq_self)
qed

lemma not_digit [simp]: "\<not> is_digit (CHR 0x09)" "\<not> is_digit (CHR 0x0A)" "\<not> is_digit (CHR '' '')"
  by (simp_all add: is_digit_def)

lemma nspid_loop_list:
  "\<forall>n\<in>set ps. n < 2 ^ 31 \<Longrightarrow>
     nspid_loop (concat (map (\<lambda>n. CHR 0x09 # dec_nat n) ps) @ [CHR 0x0A]) l c =
       (if ps = [] then l else of_nat (last ps), c + length ps)"
proof (induction ps arbitrary: l c)
  case Nil
  then show ?case by (subst nspid_loop.simps) simp
next
  case (Cons n ps)
  let ?rest = "concat (map (\<lambda>n. CHR 0x09 # dec_nat n) ps) @ [CHR 0x0A]"
  have rest: "\<not> is_digit (hd ?rest)" by (cases ps) simp_all
  obtain d ds where d: "dec_nat n = d # ds" "is_digit d" using dec_nat_digits[of n] by (cases "dec_nat n") auto
  then have q: "dropWhile (\<lambda>c. c = CHR 0x09 \<or> c = CHR '' '') (CHR 0x09 # dec_nat n @ ?rest) = dec_nat n @ ?rest"
    by (auto simp: is_digit_def)
  have "nspid_loop (CHR 0x09 # dec_nat n @ ?rest) l c =
      nspid_loop (dropWhile is_digit (dec_nat n @ ?rest)) (ucast (strtol_digits (dec_nat n @ ?rest))) (c + 1)"
    by (subst nspid_loop.simps, simp only: q Let_def) (simp add: d)
  also have "\<dots> = nspid_loop ?rest (of_nat n) (c + 1)"
    using rest Cons.prems by (simp add: dropWhile_digits strtol_dec_nat)
  finally show ?case using Cons by simp
qed

lemma fgets_line_newline:
  "CHR 0x0A \<notin> set l \<Longrightarrow> length l < n \<Longrightarrow> fgets_line n (l @ CHR 0x0A # s) = l @ [CHR 0x0A]"
proof (induction l arbitrary: n)
  case Nil
  then show ?case by (cases n) auto
next
  case (Cons c l)
  then show ?case by (cases n) auto
qed

lemma fgets_lines_text:
  "\<forall>l\<in>set ls. CHR 0x0A \<notin> set l \<and> length l + 1 < n \<Longrightarrow>
     fgets_lines n (concat (map (\<lambda>l. l @ [CHR 0x0A]) ls)) = map (\<lambda>l. l @ [CHR 0x0A]) ls"
proof (induction ls)
  case (Cons l ls)
  then have "fgets_line (n - 1) (l @ CHR 0x0A # concat (map (\<lambda>l. l @ [CHR 0x0A]) ls)) = l @ [CHR 0x0A]"
    by (intro fgets_line_newline) auto
  with Cons show ?case by (subst fgets_lines.simps) simp
qed (simp add: fgets_lines.simps)

section \<open>strtol\<close>

definition is_space :: "char \<Rightarrow> bool" where
  "is_space c \<longleftrightarrow> ord c = 32 \<or> (9 \<le> ord c \<and> ord c \<le> 13)"

text \<open>
  \<open>strtol(s, &end, 10)\<close>: the value, saturated at the bounds of a 64-bit \<open>long\<close>, and the rest of the
  string at \<open>end\<close>, which is the whole string when there are no digits.
\<close>

definition strtol :: "bytes \<Rightarrow> int \<times> bytes" where
  "strtol s =
     (let t = dropWhile is_space s;
          neg = (t \<noteq> [] \<and> hd t = CHR ''-'');
          u = (if t \<noteq> [] \<and> (hd t = CHR ''-'' \<or> hd t = CHR ''+'') then tl t else t);
          ds = takeWhile is_digit u;
          v = (if neg then - int (dec_value ds) else int (dec_value ds))
      in if ds = [] then (0, s) else (max (- (2 ^ 63)) (min (2 ^ 63 - 1) v), dropWhile is_digit u))"

text \<open>\<open>errno\<close> is set when the value does not fit.\<close>

definition strtol_range :: "bytes \<Rightarrow> bool" where
  "strtol_range s =
     (let t = dropWhile is_space s;
          neg = (t \<noteq> [] \<and> hd t = CHR ''-'');
          u = (if t \<noteq> [] \<and> (hd t = CHR ''-'' \<or> hd t = CHR ''+'') then tl t else t);
          n = dec_value (takeWhile is_digit u)
      in if neg then 2 ^ 63 < n else 2 ^ 63 \<le> n)"

lemma digit_not_space: "is_digit c \<Longrightarrow> \<not> is_space c \<and> c \<noteq> CHR ''-'' \<and> c \<noteq> CHR ''+''"
  by (auto simp: is_digit_def is_space_def)

lemma strtol_dec_int:
  assumes "- (2 ^ 63) \<le> i" "i < 2 ^ 63"
  shows "strtol (dec_int i) = (i, [])"
proof -
  obtain d ds where n: "dec_nat (nat \<bar>i\<bar>) = d # ds" "is_digit d"
    using dec_nat_digits[of "nat \<bar>i\<bar>"] by (cases "dec_nat (nat \<bar>i\<bar>)") auto
  note dn = digit_not_space[OF n(2)]
  have tw: "takeWhile is_digit (d # ds) = d # ds" "dropWhile is_digit (d # ds) = []" "dec_value (d # ds) = nat \<bar>i\<bar>"
    using takeWhile_digits[of "[]" "nat \<bar>i\<bar>"] dropWhile_digits[of "[]" "nat \<bar>i\<bar>"] dec_nat_digits[of "nat \<bar>i\<bar>"]
    by (simp_all add: n(1))
  have "\<not> is_space (CHR ''-'')" by (simp add: is_space_def)
  moreover have "max (- (2 ^ 63)) (min (2 ^ 63 - 1) i) = i" using assms by simp
  ultimately show ?thesis
  proof (cases "i < 0")
    case True
    then have "dec_int i = CHR ''-'' # d # ds" using n(1) by (simp add: dec_int_def)
    with True tw \<open>\<not> is_space (CHR ''-'')\<close> \<open>max (- (2 ^ 63)) (min (2 ^ 63 - 1) i) = i\<close> show ?thesis
      by (simp only: strtol_def Let_def dropWhile.simps) simp
  next
    case False
    then have "dec_int i = d # ds" using n(1) by (simp add: dec_int_def)
    with False tw dn \<open>max (- (2 ^ 63)) (min (2 ^ 63 - 1) i) = i\<close> show ?thesis
      by (simp only: strtol_def Let_def dropWhile.simps) simp
  qed
qed

text \<open>A non-negative number followed by something that is not a digit.\<close>

lemma strtol_dec_nat_rest:
  assumes "n < 2 ^ 63" "rest = [] \<or> \<not> is_digit (hd rest)"
  shows "strtol (dec_nat n @ rest) = (int n, rest)" "\<not> strtol_range (dec_nat n @ rest)"
proof -
  obtain d ds where d: "dec_nat n = d # ds" "is_digit d"
    using dec_nat_digits[of n] by (cases "dec_nat n") auto
  note dn = digit_not_space[OF d(2)]
  note tw = takeWhile_digits[OF assms(2), of n] dropWhile_digits[OF assms(2), of n]
  have v: "dec_value (dec_nat n) = n" "dec_nat n \<noteq> []" using dec_nat_digits by auto
  have h: "dropWhile is_space (dec_nat n @ rest) = dec_nat n @ rest" "hd (dec_nat n @ rest) = d"
    using d(1) dn by simp_all
  have n: "min (9223372036854775807::int) (int n) = int n" "\<not> 9223372036854775808 \<le> n" using assms(1) by simp_all
  show "strtol (dec_nat n @ rest) = (int n, rest)"
    unfolding strtol_def Let_def h using dn by (simp add: tw v n)
  show "\<not> strtol_range (dec_nat n @ rest)"
    unfolding strtol_range_def Let_def h using dn by (simp add: tw v n)
qed

section \<open>Container identifiers\<close>

text \<open>A maximal run of lowercase hex digits.\<close>

definition hex_run :: "bytes \<Rightarrow> bytes \<Rightarrow> bytes \<Rightarrow> bytes \<Rightarrow> bool" where
  "hex_run p pre run post \<longleftrightarrow> p = pre @ run @ post \<and> list_all is_lower_hex run \<and>
     (pre = [] \<or> \<not> is_lower_hex (last pre)) \<and> (post = [] \<or> \<not> is_lower_hex (hd post))"

lemma hex_run_prepend:
  "hex_run p pre run post \<Longrightarrow> q = [] \<or> pre \<noteq> [] \<or> \<not> is_lower_hex (last q) \<Longrightarrow> hex_run (q @ p) (q @ pre) run post"
  by (auto simp: hex_run_def last_append)

lemma takeWhile_run: "p = run @ post \<Longrightarrow> list_all is_lower_hex run \<Longrightarrow> post = [] \<or> \<not> is_lower_hex (hd post) \<Longrightarrow>
    takeWhile is_lower_hex p = run"
  by (cases post) (auto simp: list_all_iff takeWhile_append takeWhile_eq_all_conv)

lemma hex_run_shift_char:
  assumes "\<not> is_lower_hex c" "run \<noteq> []"
  shows "(\<exists>pre. hex_run (c # p) pre run post) \<longleftrightarrow> (\<exists>pre. hex_run p pre run post)"
proof
  assume "\<exists>pre. hex_run (c # p) pre run post"
  then obtain pre where h: "hex_run (c # p) pre run post" ..
  with assms obtain pre' where "pre = c # pre'" by (cases pre; cases run) (auto simp: hex_run_def)
  with h have "hex_run p pre' run post" by (auto simp: hex_run_def split: if_splits)
  then show "\<exists>pre. hex_run p pre run post" ..
next
  assume "\<exists>pre. hex_run p pre run post"
  then show "\<exists>pre. hex_run (c # p) pre run post"
    using hex_run_prepend[of p _ run post "[c]"] assms(1) by auto
qed

lemma hex_run_shift_run:
  assumes q: "list_all is_lower_hex q" "q \<noteq> []" "p = [] \<or> \<not> is_lower_hex (hd p)" and run: "run \<noteq> []" "run \<noteq> q"
  shows "(\<exists>pre. hex_run (q @ p) pre run post) \<longleftrightarrow> (\<exists>pre. hex_run p pre run post)"
proof
  assume "\<exists>pre. hex_run (q @ p) pre run post"
  then obtain pre where h: "hex_run (q @ p) pre run post" ..
  have tw: "takeWhile is_lower_hex (q @ p) = q" using q takeWhile_run by blast
  have pre: "pre \<noteq> []"
  proof
    assume "pre = []"
    then have "takeWhile is_lower_hex (q @ p) = run" using h by (intro takeWhile_run[of _ _ post]) (auto simp: hex_run_def)
    with tw run(2) show False by simp
  qed
  then have l: "\<not> is_lower_hex (last pre)" using h by (simp add: hex_run_def)
  have "length q < length pre"
  proof (rule ccontr)
    assume "\<not> length q < length pre"
    then have "pre = take (length pre) q"
      using h by (metis append_eq_append_conv_if hex_run_def not_less)
    then have "last pre \<in> set q" using pre by (metis in_set_takeD last_in_set)
    with l q(1) show False by (simp add: list_all_iff)
  qed
  moreover from h have "q @ p = pre @ run @ post" by (simp add: hex_run_def)
  ultimately obtain pre' where pre': "pre = q @ pre'" "pre' \<noteq> []"
    by (auto simp: append_eq_append_conv2)
  with h l have "hex_run p pre' run post" by (auto simp: hex_run_def)
  then show "\<exists>pre. hex_run p pre run post" ..
next
  assume "\<exists>pre. hex_run p pre run post"
  then obtain pre where h: "hex_run p pre run post" ..
  then have "pre \<noteq> []" using q(3) run(1) by (cases run) (auto simp: hex_run_def)
  then show "\<exists>pre. hex_run (q @ p) pre run post" using hex_run_prepend[OF h] by blast
qed

definition id_runs :: "bytes \<Rightarrow> bytes set" where
  "id_runs p = {run. length run = 64 \<and> (\<exists>pre post. hex_run p pre run post)}"

lemma cid_scan_iff:
  "case cid_scan p n of
     Some cid \<Rightarrow> \<exists>run\<in>id_runs p. cid = take (min (n - 1) 12) run
   | None \<Rightarrow> id_runs p = {}"
proof (induction p n rule: cid_scan.induct)
  case (1 p n)
  let ?run = "takeWhile is_lower_hex p" and ?rest = "dropWhile is_lower_hex p"
  have split: "p = ?run @ ?rest" by simp
  have first: "hex_run p [] ?run ?rest"
    using hd_dropWhile[of is_lower_hex p] by (auto simp: hex_run_def list_all_iff simp del: dropWhile_eq_Nil_conv dest: set_takeWhileD)
  have run_first: "run = ?run" if "hex_run p pre run post" "pre = []" for pre run post
    using that takeWhile_run[of p run post] by (simp add: hex_run_def)
  show ?case
  proof (cases "p = []")
    case True
    then show ?thesis by (subst cid_scan.simps) (auto simp: id_runs_def hex_run_def)
  next
    case ne: False
    show ?thesis
    proof (cases "length ?run = 64")
      case True
      with ne have "cid_scan p n = Some (take (min (n - 1) 12) ?run)"
        by (subst cid_scan.simps) (simp add: Let_def)
      with first True show ?thesis by (auto simp: id_runs_def)
    next
      case no: False
      show ?thesis
      proof (cases "?run = []")
        case True
        then obtain c t where p: "p = c # t" "\<not> is_lower_hex c" using ne by (cases p) (auto split: if_splits)
        have eq: "cid_scan p n = cid_scan t n" using p by (subst cid_scan.simps) (simp add: Let_def)
        have "(\<exists>pre. hex_run p pre run post) \<longleftrightarrow> (\<exists>pre. hex_run t pre run post)" if "length run = 64" for run post
          unfolding p(1) using that by (intro hex_run_shift_char[OF p(2)]) auto
        then have ids: "id_runs p = id_runs t" unfolding id_runs_def by blast
        have tl: "tl p = t" "length ?run = 0" using p by simp_all
        show ?thesis unfolding eq ids by (rule "1.IH"(1)[OF ne refl no tl(2), unfolded tl(1)])
      next
        case False
        have eq: "cid_scan p n = cid_scan ?rest n"
          using ne no False by (subst cid_scan.simps) (simp add: Let_def dropWhile_eq_drop)
        have "(\<exists>pre. hex_run (?run @ ?rest) pre run post) \<longleftrightarrow> (\<exists>pre. hex_run ?rest pre run post)" if "length run = 64" for run post
          using that no False first by (intro hex_run_shift_run) (auto simp: hex_run_def)
        then have "(\<exists>pre. hex_run p pre run post) \<longleftrightarrow> (\<exists>pre. hex_run ?rest pre run post)" if "length run = 64" for run post
          using that by simp
        then have ids: "id_runs p = id_runs ?rest" unfolding id_runs_def by blast
        have "length ?run \<noteq> 0" using False by simp
        then show ?thesis unfolding eq ids by (rule "1.IH"(2)[OF ne refl no, folded dropWhile_eq_drop])
      qed
    qed
  qed
qed

lemma cid_lines_iff:
  "case cid_lines ls n of
     Some cid \<Rightarrow> \<exists>l\<in>set ls. \<exists>run\<in>id_runs (c_str l). cid = take (min (n - 1) 12) run
   | None \<Rightarrow> \<forall>l\<in>set ls. id_runs (c_str l) = {}"
proof (induction ls)
  case (Cons l ls)
  then show ?case
    using cid_scan_iff[of "c_str l" n] by (cases "cid_scan (c_str l) n") (auto split: option.splits)
qed simp

lemma postprocess_full_command_join:
  assumes "args \<noteq> []" "\<forall>a\<in>set args. NUL \<notin> set a"
    and "arg_len = of_nat (length (argv_bytes args))" "length (argv_bytes args) < unat buf_size"
  shows "c_str (postprocess_full_command (argv_bytes args @ environment) buf_size arg_len) = join_blank args"
proof -
  let ?raw = "argv_bytes args"
  note raw = map_blank_argv[OF assms(1,2)]
  have len: "unat arg_len = length ?raw"
    using less_trans[OF assms(4) unsigned_less] by (simp add: assms(3) unat_of_nat)
  have pos: "0 < length ?raw" using raw by simp
  have ok: "arg_len \<noteq> 0 \<and> \<not> buf_size - 1 < arg_len"
  proof
    show "arg_len \<noteq> 0" using len pos by auto
    have "buf_size \<noteq> 0" using assms(4) by auto
    then have "unat (buf_size - 1) = unat buf_size - 1" by (simp add: unat_minus_one)
    then show "\<not> buf_size - 1 < arg_len" using len assms(4) by (simp add: word_less_nat_alt)
  qed
  have "postprocess_full_command (?raw @ environment) buf_size arg_len =
      map blank (take (length ?raw - 1) ?raw) @ drop (length ?raw - 1) ?raw"
    using ok by (simp add: postprocess_full_command_def len fold_blank)
  also have "\<dots> = join_blank args @ [NUL]"
  proof -
    have "drop (length ?raw - 1) ?raw = [last ?raw]"
      using raw by (metis append_butlast_last_id append_eq_conv_conj length_butlast)
    then show ?thesis using raw by (simp add: butlast_conv_take)
  qed
  finally show ?thesis using c_str_append_nul join_blank_no_nul[OF assms(2)] by simp
qed

section \<open>Properties\<close>

text \<open>
  When the captured memory holds the whole argument vector (each argument NUL-terminated, at
  most \<open>buf_size - 1\<close> bytes in all), the printed command is the arguments joined by single blanks:
  the environment that follows in memory does not leak into the event.
\<close>

theorem postprocess_full_command_argv:
  assumes "args \<noteq> []" "\<forall>a\<in>set args. NUL \<notin> set a"
    and "arg_len = of_nat (length (argv_bytes args))" "length (argv_bytes args) < unat buf_size"
  shows "c_str (postprocess_full_command (argv_bytes args @ environment) buf_size arg_len) = join_blank args"
  using assms by (rule postprocess_full_command_join)

theorem postprocess_full_command_argv_witness:
  "c_str (postprocess_full_command (argv_bytes [''git'', ''push''] @ ''HOME=/root'') 256 9) = ''git push''"
  using postprocess_full_command_argv[of "[''git'', ''push'']" 9 256 "''HOME=/root''"]
  by (simp add: argv_bytes_def)

text \<open>
  For a status file whose lines fit the buffer and whose first \<open>NSpid:\<close> line lists the PIDs of
  the nested namespaces, \<open>get_ns_pid\<close> returns the innermost PID when there are at least two levels
  and -1 for a process in the initial namespace only.
\<close>

theorem get_ns_pid_innermost:
  assumes "\<forall>l\<in>set (before @ nspid # after). CHR 0x0A \<notin> set l \<and> length l < 255"
    and "\<forall>l\<in>set before. take 6 (l @ [CHR 0x0A]) \<noteq> ''NSpid:''"
    and "nspid = ''NSpid:'' @ concat (map (\<lambda>n. CHR 0x09 # dec_nat n) ps)" "\<forall>n\<in>set ps. n < 2 ^ 31"
  shows "get_ns_pid (Some (concat (map (\<lambda>l. l @ [CHR 0x0A]) (before @ nspid # after)))) =
    (if 2 \<le> length ps then of_nat (last ps) else -1)"
proof -
  have "fgets_lines 256 (concat (map (\<lambda>l. l @ [CHR 0x0A]) (before @ nspid # after))) =
      map (\<lambda>l. l @ [CHR 0x0A]) (before @ nspid # after)"
    using assms(1) by (intro fgets_lines_text) auto
  moreover have "ns_pid_lines (map (\<lambda>l. l @ [CHR 0x0A]) before @ ls) = ns_pid_lines ls" for ls
    using assms(2) by (induction before) simp_all
  moreover have "NUL \<notin> set (concat (map (\<lambda>n. CHR 0x09 # dec_nat n) ps) @ [CHR 0x0A])"
    using dec_nat_is_digit[of NUL] by (auto simp: is_digit_def)
  ultimately show ?thesis
    using nspid_loop_list[OF assms(4), of "-1" 0]
    by (simp add: get_ns_pid_def assms(3) c_str_fix)
qed

theorem get_ns_pid_innermost_witness:
  "get_ns_pid (Some (concat (map (\<lambda>l. l @ [CHR 0x0A]) ([''Name:''] @ (''NSpid:'' @ concat (map (\<lambda>n. CHR 0x09 # dec_nat n) [4242, 7])) # [])))) = 7"
  using get_ns_pid_innermost[of "[''Name:'']" "''NSpid:'' @ concat (map (\<lambda>n. CHR 0x09 # dec_nat n) [4242, 7])" "[]" "[4242, 7]"]
  by (simp add: dec_nat.simps digit_def char_of_eq_iff eq_commute[of "CHR 0x0A"])

text \<open>
  \<open>get_container_id\<close> returns the first 12 digits of a maximal run of exactly 64 lowercase hex
  digits in a line of the cgroup file, and reports failure exactly when no line has such a run.
\<close>

theorem get_container_id_exact:
  "case get_container_id (Some cgroup) 16 of
     Some cid \<Rightarrow> \<exists>l\<in>set (fgets_lines 512 cgroup). \<exists>run\<in>id_runs (c_str l). cid = take 12 run
   | None \<Rightarrow> \<forall>l\<in>set (fgets_lines 512 cgroup). id_runs (c_str l) = {}"
  using cid_lines_iff[of "fgets_lines 512 cgroup" 16] by (auto simp: get_container_id_def split: option.splits)

theorem get_container_id_exact_witness:
  "\<exists>l\<in>set (fgets_lines 512 (''0::/docker/'' @ replicate 64 (CHR ''a''))). \<exists>run\<in>id_runs (c_str l). replicate 12 (CHR ''a'') = take 12 run"
proof -
  have "get_container_id (Some (''0::/docker/'' @ replicate 64 (CHR ''a''))) 16 = Some (replicate 12 (CHR ''a''))"
    by code_simp
  with get_container_id_exact[of "''0::/docker/'' @ replicate 64 (CHR ''a'')"] show ?thesis by simp
qed

end
