(* ===== verification/Process_Bpf.thy ===== *)
theory Process_Bpf
  imports Process_Ext Proc_Info
begin

text \<open>
  The core kernel-side program of the process tracer (\<open>bpf/process.bpf.c\<close>, with the event layout of
  \<open>bpf/process.h\<close>): bash command capture, process start and exit, file opens. The task fields a
  program reads are a \<open>task_info\<close>. \<open>slot\<close> is what \<open>bpf_ringbuf_reserve\<close> returns: \<open>None\<close> when the ring
  buffer is full, otherwise the reserved memory with whatever it held before, since not every
  program fills every field. \<open>rb\<close> is the sequence of submitted events.
\<close>

unbundle bit_operations_syntax

section \<open>The code\<close>

definition MAX_COMMAND_LEN :: nat where
  "MAX_COMMAND_LEN = 256"

text \<open>The enum has three constants; the field is an \<open>int\<close>, and \<open>EVENT_TYPE_OTHER\<close> is any other value of it.\<close>

datatype event_type = EVENT_TYPE_PROCESS | EVENT_TYPE_BASH_READLINE | EVENT_TYPE_FILE_OPERATION | EVENT_TYPE_OTHER i32

text \<open>The union of \<open>struct event\<close>.\<close>

record file_op =
  fo_filepath :: bytes
  fo_fd :: i32
  fo_flags :: i32
  fo_is_open :: bool

datatype payload = Filename bytes | Command bytes | FileOp file_op

record event =
  e_type :: event_type
  e_pid :: i32
  e_ppid :: i32
  e_exit_code :: u32
  e_duration_ns :: u64
  e_timestamp_ns :: u64
  e_comm :: bytes
  e_full_command :: bytes
  e_payload :: payload
  e_exit_event :: bool

record bpf_state = ext_state +
  exec_start :: "pid_t \<rightharpoonup> u64"
  rb :: "event list"

record bpf_config =
  ext_cfg :: ext_config
  min_duration_ns :: u64

record task_info =
  parent_tgid :: i32
  task_exit_code :: i32
  maxrss :: u64
  arg_start :: u64
  arg_end :: u64
  exec_filename :: bytes

definition submit :: "event \<Rightarrow> bpf_state \<Rightarrow> bpf_state" where
  "submit e st = st\<lparr>rb := rb st @ [e]\<rparr>"

definition bash_readline :: "bpf_config \<Rightarrow> bpf_env \<Rightarrow> u64 \<Rightarrow> event option \<Rightarrow> bpf_state \<Rightarrow> bpf_state" where
  "bash_readline cfg env ret slot st =
     (if ret = 0 then st
      else if \<not> is_cgroup_tracked (ext_cfg cfg) env st then st
      else
        let comm = cur_comm env in
        if comm ! 0 \<noteq> CHR ''b'' \<or> comm ! 1 \<noteq> CHR ''a'' \<or> comm ! 2 \<noteq> CHR ''s'' \<or> comm ! 3 \<noteq> CHR ''h'' \<or> comm ! 4 \<noteq> NUL
        then st
        else (case slot of
            None \<Rightarrow> st
          | Some e \<Rightarrow>
              submit (e\<lparr>e_type := EVENT_TYPE_BASH_READLINE, e_pid := cur_tgid env, e_ppid := 0, e_exit_code := 0,
                        e_duration_ns := 0, e_timestamp_ns := ktime env, e_exit_event := False, e_comm := comm,
                        e_payload := (case probe_read_user_str env MAX_COMMAND_LEN ret of
                            Some s \<Rightarrow> Command s | None \<Rightarrow> Command [])\<rparr>) st))"

text \<open>
  The command line of an exec event and the length stored in \<open>exit_code\<close>. A failed read leaves the
  buffer zeroed before the name of the program is copied into it.
\<close>

definition exec_command :: "bpf_env \<Rightarrow> task_info \<Rightarrow> bytes \<Rightarrow> bytes \<times> u32" where
  "exec_command env task old =
     (let len0 = arg_end task - arg_start task;
          arg_len = (if of_nat (MAX_COMMAND_LEN - 1) < len0 then of_nat (MAX_COMMAND_LEN - 1) else len0)
      in if 0 < arg_len then
           ((case user_mem env (arg_start task) (MAX_COMMAND_LEN - 1) of
               Some raw \<Rightarrow> raw @ [NUL]
             | None \<Rightarrow> zbuf MAX_COMMAND_LEN (probe_read_kernel_str MAX_COMMAND_LEN (cur_comm env))),
            ucast (arg_len AND of_nat (MAX_COMMAND_LEN - 1)))
         else
           (let s = probe_read_kernel_str MAX_COMMAND_LEN (cur_comm env)
            in s @ NUL # drop (length s + 1) old, 0))"

definition handle_exec :: "bpf_config \<Rightarrow> bpf_env \<Rightarrow> task_info \<Rightarrow> event option \<Rightarrow> bpf_state \<Rightarrow> bpf_state" where
  "handle_exec cfg env task slot st =
     (if \<not> is_cgroup_tracked (ext_cfg cfg) env st then st
      else
        let pid = cur_tgid env;
            st1 = st\<lparr>exec_start := snd (map_update (room env) (exec_start st) pid (ktime env) BPF_ANY)\<rparr>
        in if min_duration_ns cfg \<noteq> 0 then st1
           else (case slot of
               None \<Rightarrow> st1
             | Some e \<Rightarrow>
                 (case exec_command env task (e_full_command e) of (full_command, arg_len) \<Rightarrow>
                    submit (e\<lparr>e_type := EVENT_TYPE_PROCESS, e_exit_event := False, e_pid := pid,
                              e_ppid := parent_tgid task, e_timestamp_ns := ktime env, e_comm := cur_comm env,
                              e_payload := Filename (probe_read_kernel_str MAX_FILENAME_LEN (exec_filename task)),
                              e_full_command := full_command, e_exit_code := arg_len\<rparr>) st1)))"

definition handle_exit :: "bpf_config \<Rightarrow> bpf_env \<Rightarrow> task_info \<Rightarrow> event option \<Rightarrow> bpf_state \<Rightarrow> bpf_state" where
  "handle_exit cfg env task slot st =
     (if \<not> is_cgroup_tracked (ext_cfg cfg) env st then st
      else
        let pid = cur_tgid env; tid = cur_tid env in
        if pid \<noteq> tid then st
        else
          let start_ts = exec_start st pid; ts = ktime env in
          if start_ts = None \<and> min_duration_ns cfg \<noteq> 0 then st
          else
            let duration_ns = (case start_ts of Some t \<Rightarrow> ts - t | None \<Rightarrow> 0);
                st1 = st\<lparr>exec_start := map_delete (exec_start st) pid\<rparr>
            in if min_duration_ns cfg \<noteq> 0 \<and> duration_ns < min_duration_ns cfg then st1
               else (case slot of
                   None \<Rightarrow> st1
                 | Some e \<Rightarrow>
                     let e1 = e\<lparr>e_type := EVENT_TYPE_PROCESS, e_exit_event := True, e_duration_ns := duration_ns,
                                e_pid := pid, e_ppid := parent_tgid task, e_timestamp_ns := ts,
                                e_exit_code := drop_bit 8 (task_exit_code task) AND 0xff, e_comm := cur_comm env\<rparr>;
                         st2 = (if 0 < maxrss task
                                then st1\<lparr>exit_mem := snd (map_update (room env) (exit_mem st1) pid \<lparr>hiwater_rss = maxrss task\<rparr> BPF_ANY)\<rparr>
                                else st1)
                     in submit e1 st2))"

text \<open>What the two open programs share: the event for a path and its flags.\<close>

definition open_event :: "bpf_env \<Rightarrow> bytes \<Rightarrow> i32 \<Rightarrow> event \<Rightarrow> event" where
  "open_event env filepath flags e =
     e\<lparr>e_type := EVENT_TYPE_FILE_OPERATION, e_pid := cur_tgid env, e_ppid := 0, e_exit_code := 0,
       e_duration_ns := 0, e_timestamp_ns := ktime env, e_exit_event := False, e_comm := cur_comm env,
       e_payload := FileOp \<lparr>fo_filepath = probe_read_kernel_str MAX_FILENAME_LEN filepath, fo_fd = -1,
                            fo_flags = flags, fo_is_open = True\<rparr>\<rparr>"

definition trace_openat :: "bpf_config \<Rightarrow> bpf_env \<Rightarrow> event option \<Rightarrow> bpf_state \<Rightarrow> bpf_state" where
  "trace_openat cfg env slot st =
     (if \<not> is_cgroup_tracked (ext_cfg cfg) env st then st
      else case probe_read_user_str env MAX_FILENAME_LEN (args env 1) of
          None \<Rightarrow> st
        | Some filepath \<Rightarrow>
            (case slot of None \<Rightarrow> st | Some e \<Rightarrow> submit (open_event env filepath (arg_int env 2) e) st))"

definition trace_open :: "bpf_config \<Rightarrow> bpf_env \<Rightarrow> event option \<Rightarrow> bpf_state \<Rightarrow> bpf_state" where
  "trace_open cfg env slot st =
     (if \<not> is_cgroup_tracked (ext_cfg cfg) env st then st
      else case probe_read_user_str env MAX_FILENAME_LEN (args env 0) of
          None \<Rightarrow> st
        | Some filepath \<Rightarrow>
            (case slot of None \<Rightarrow> st | Some e \<Rightarrow> submit (open_event env filepath (arg_int env 1) e) st))"

section \<open>Runs of the program\<close>

datatype bpf_prog = B_readline u64 | B_exec task_info | B_exit task_info | B_openat | B_open | B_ext ext_prog

fun run_bpf :: "bpf_prog \<Rightarrow> bpf_config \<Rightarrow> bpf_env \<Rightarrow> event option \<Rightarrow> bpf_state \<Rightarrow> bpf_state" where
  "run_bpf (B_readline ret) cfg env slot st = bash_readline cfg env ret slot st"
| "run_bpf (B_exec task) cfg env slot st = handle_exec cfg env task slot st"
| "run_bpf (B_exit task) cfg env slot st = handle_exit cfg env task slot st"
| "run_bpf B_openat cfg env slot st = trace_openat cfg env slot st"
| "run_bpf B_open cfg env slot st = trace_open cfg env slot st"
| "run_bpf (B_ext p) cfg env slot st = run_prog p (ext_cfg cfg) env st"

text \<open>Any sequence of invocations; \<open>P\<close> restricts which programs run in which environments.\<close>

inductive bpf_run :: "bpf_config \<Rightarrow> (bpf_prog \<Rightarrow> bpf_env \<Rightarrow> bool) \<Rightarrow> bpf_state \<Rightarrow> bpf_state \<Rightarrow> bool" for cfg P where
  run_refl: "bpf_run cfg P st st"
| run_step: "bpf_run cfg P st st1 \<Longrightarrow> P prog env \<Longrightarrow> bpf_run cfg P st (run_bpf prog cfg env slot st1)"

lemmas core_defs [bpf_defs] = bash_readline_def handle_exec_def handle_exit_def trace_openat_def trace_open_def submit_def

lemma run_prog_core: "exec_start (run_prog p cfg env (st::bpf_state)) = exec_start st \<and> rb (run_prog p cfg env st) = rb st"
  using run_prog_effect[of cfg env st p]
  by (auto simp: ext_effect_def recorded_def bump_overflow_def split: if_splits)

lemma run_bpf_filters:
  "tracked_pids (run_bpf prog cfg env slot st) = tracked_pids st \<and> tracked_cgroups (run_bpf prog cfg env slot st) = tracked_cgroups st"
  by (cases prog) (auto simp: core_defs Let_def effect_filters[OF run_prog_effect] split: option.splits prod.splits)

lemma cgroup_cong:
  "tracked_cgroups st' = tracked_cgroups st \<Longrightarrow> is_cgroup_tracked cfg env st' = is_cgroup_tracked cfg env st"
  by (simp add: is_cgroup_tracked_def)

text \<open>The start of \<open>pid\<close> is not touched except by an exec or the exit of its main thread.\<close>

definition keeps_start :: "pid_t \<Rightarrow> bpf_prog \<Rightarrow> bpf_env \<Rightarrow> bool" where
  "keeps_start pid prog env \<longleftrightarrow>
     (case prog of B_exec _ \<Rightarrow> cur_tgid env \<noteq> pid | B_exit _ \<Rightarrow> cur_tgid env \<noteq> pid \<or> cur_tid env \<noteq> pid | _ \<Rightarrow> True)"

lemma run_bpf_keeps_start:
  "keeps_start pid prog env \<Longrightarrow> exec_start (run_bpf prog cfg env slot st) pid = exec_start st pid"
  by (cases prog)
    (auto simp: keeps_start_def core_defs Let_def run_prog_core map_update_other map_delete_def split: option.splits prod.splits)

lemma bpf_run_keeps_start:
  "bpf_run cfg (keeps_start pid) st st' \<Longrightarrow>
     exec_start st' pid = exec_start st pid \<and> tracked_cgroups st' = tracked_cgroups st"
  by (induction rule: bpf_run.induct) (auto simp: run_bpf_keeps_start run_bpf_filters)

lemma event_tracked_cgroup: "is_event_tracked cfg env st \<Longrightarrow> is_cgroup_tracked cfg env st"
  by (simp add: is_event_tracked_def)

lemma handle_exec_start:
  "is_cgroup_tracked (ext_cfg cfg) env st \<Longrightarrow> room env \<Longrightarrow>
     exec_start (handle_exec cfg env task slot st) (cur_tgid env) = Some (ktime env) \<and>
     tracked_cgroups (handle_exec cfg env task slot st) = tracked_cgroups st"
  by (auto simp: handle_exec_def submit_def Let_def map_update_def split: option.splits prod.splits)

section \<open>Properties\<close>

text \<open>
  When a tracked process execs at time \<open>t1\<close> and its main thread exits at \<open>t2\<close>, with any other
  programs in between except another exec or exit of the same process, then the exit event carries
  the duration \<open>t2 - t1\<close>, the PID and the exit status, it is submitted exactly when the duration
  reaches the configured minimum and the ring buffer has room, and the start entry is gone.
\<close>

theorem exec_exit_duration:
  assumes "is_cgroup_tracked (ext_cfg cfg) env1 st" "room env1"
    and "bpf_run cfg (keeps_start (cur_tgid env1)) (handle_exec cfg env1 task1 slot1 st) st2"
    and "cur_tgid env2 = cur_tgid env1" "cur_tid env2 = cur_tgid env1" "cgroup_id env2 = cgroup_id env1"
  shows "exec_start (handle_exit cfg env2 task2 slot2 st2) (cur_tgid env1) = None \<and>
    (if slot2 = None \<or> ktime env2 - ktime env1 < min_duration_ns cfg
     then rb (handle_exit cfg env2 task2 slot2 st2) = rb st2
     else \<exists>e. rb (handle_exit cfg env2 task2 slot2 st2) = rb st2 @ [e] \<and> e_exit_event e \<and>
       e_pid e = cur_tgid env1 \<and> e_duration_ns e = ktime env2 - ktime env1 \<and> e_timestamp_ns e = ktime env2 \<and>
       e_exit_code e = drop_bit 8 (task_exit_code task2) AND 0xff)"
proof -
  have st: "exec_start st2 (cur_tgid env1) = Some (ktime env1)" "tracked_cgroups st2 = tracked_cgroups st"
    using bpf_run_keeps_start[OF assms(3)] handle_exec_start[OF assms(1,2)] by simp_all
  have "is_cgroup_tracked (ext_cfg cfg) env2 st2"
    using assms(1,6) st(2) by (auto simp: is_cgroup_tracked_def split: if_splits)
  moreover have "\<not> ktime env2 - ktime env1 < min_duration_ns cfg" if "min_duration_ns cfg = 0"
    using that by simp
  ultimately show ?thesis
    using st assms(4,5)
    by (auto simp: handle_exit_def submit_def map_delete_def Let_def split: option.splits)
qed

definition sample_bpf_state :: bpf_state where
  "sample_bpf_state = \<lparr>event_agg_map = Map.empty, tracked_pids = Map.empty, tracked_cgroups = Map.empty,
     agg_overflow_count = (\<lambda>_. 0), exit_mem = Map.empty, write_ctx_map = Map.empty, exec_start = Map.empty, rb = []\<rparr>"

definition sample_bpf_config :: bpf_config where
  "sample_bpf_config = \<lparr>ext_cfg = sample_config, min_duration_ns = 0\<rparr>"

definition sample_slot :: event where
  "sample_slot = \<lparr>e_type = EVENT_TYPE_PROCESS, e_pid = 0, e_ppid = 0, e_exit_code = 0, e_duration_ns = 0, e_timestamp_ns = 0,
     e_comm = [], e_full_command = [], e_payload = Filename [], e_exit_event = False\<rparr>"

definition sample_task :: task_info where
  "sample_task = \<lparr>parent_tgid = 1, task_exit_code = 0x100, maxrss = 0, arg_start = 0, arg_end = 9, exec_filename = ''/usr/bin/git''\<rparr>"

theorem exec_exit_duration_witness:
  "exec_start (handle_exit sample_bpf_config (sample_env\<lparr>pid_tgid := 0x700000007\<rparr>) sample_task None
     (handle_exec sample_bpf_config (sample_env\<lparr>pid_tgid := 0x700000007\<rparr>) sample_task None sample_bpf_state)) 7 = None"
proof -
  let ?e = "sample_env\<lparr>pid_tgid := 0x700000007\<rparr>"
  have id: "cur_tgid ?e = 7" "cur_tid ?e = 7" by (simp_all add: cur_tgid_def cur_tid_def)
  moreover have "is_cgroup_tracked (ext_cfg sample_bpf_config) ?e sample_bpf_state" "room ?e"
    by (simp_all add: is_cgroup_tracked_def sample_bpf_config_def sample_config_def sample_env_def)
  ultimately show ?thesis
    using exec_exit_duration[OF _ _ run_refl, of sample_bpf_config ?e sample_bpf_state ?e] by simp
qed

text \<open>
  A program that runs in an untracked cgroup changes nothing at all; a program submits at most one
  event, and that event names the process that caused it.
\<close>

theorem core_programs_filtered:
  "(\<not> is_cgroup_tracked (ext_cfg cfg) env st \<longrightarrow> run_bpf prog cfg env slot st = st) \<and>
   (rb (run_bpf prog cfg env slot st) = rb st \<or>
    (\<exists>e. rb (run_bpf prog cfg env slot st) = rb st @ [e] \<and> e_pid e = cur_tgid env))"
proof
  show "\<not> is_cgroup_tracked (ext_cfg cfg) env st \<longrightarrow> run_bpf prog cfg env slot st = st"
    using run_prog_effect[of "ext_cfg cfg" env st] event_tracked_cgroup[of "ext_cfg cfg" env st]
    by (cases prog) (auto simp: core_defs ext_effect_def)
  show "rb (run_bpf prog cfg env slot st) = rb st \<or>
    (\<exists>e. rb (run_bpf prog cfg env slot st) = rb st @ [e] \<and> e_pid e = cur_tgid env)"
    by (cases prog) (auto simp: core_defs open_event_def Let_def run_prog_core split: option.splits prod.splits)
qed

theorem core_programs_filtered_witness:
  "run_bpf B_open (sample_bpf_config\<lparr>ext_cfg := sample_config\<lparr>filter_cgroup := True\<rparr>\<rparr>) sample_env None sample_bpf_state = sample_bpf_state"
proof -
  have "\<not> is_cgroup_tracked (ext_cfg (sample_bpf_config\<lparr>ext_cfg := sample_config\<lparr>filter_cgroup := True\<rparr>\<rparr>)) sample_env sample_bpf_state"
    by (simp add: is_cgroup_tracked_def sample_config_def sample_env_def)
  then show ?thesis
    using core_programs_filtered[of "sample_bpf_config\<lparr>ext_cfg := sample_config\<lparr>filter_cgroup := True\<rparr>\<rparr>" sample_env sample_bpf_state B_open None]
    by blast
qed

text \<open>
  C35: From the memory of the process to the printed command: when the argument vector of an exec fits
  255 bytes and can be read, the exec event the kernel submits, post-processed in user space, gives
  exactly the arguments joined by blanks.
\<close>

theorem exec_command_end_to_end:
  assumes "is_cgroup_tracked (ext_cfg cfg) env st" "min_duration_ns cfg = 0"
    and "argv \<noteq> []" "\<forall>a\<in>set argv. NUL \<notin> set a" "length (argv_bytes argv) \<le> 255"
    and "arg_end task = arg_start task + of_nat (length (argv_bytes argv))"
    and "user_mem env (arg_start task) 255 = Some (take 255 (argv_bytes argv @ environment))"
    and "255 \<le> length (argv_bytes argv @ environment)"
  shows "\<exists>e. rb (handle_exec cfg env task (Some e0) st) = rb st @ [e] \<and> \<not> e_exit_event e \<and> e_pid e = cur_tgid env \<and>
    c_str (postprocess_full_command (e_full_command e) 256 (e_exit_code e)) = join_blank argv"
proof -
  let ?raw = "argv_bytes argv" and ?n = "length (argv_bytes argv)"
  have pos: "0 < ?n" using map_blank_argv[OF assms(3,4)] by simp
  have len: "arg_end task - arg_start task = of_nat ?n" using assms(6) by simp
  have u: "unat (of_nat ?n :: u64) = ?n" using assms(5) by (simp add: unat_of_nat)
  have le: "\<not> (255::u64) < of_nat ?n" using assms(5) u by (simp add: word_less_nat_alt)
  have gt: "(0::u64) < of_nat ?n" using pos u by (simp add: word_less_nat_alt)
  have "(of_nat ?n AND 255 :: u64) = of_nat ?n"
  proof -
    have "(of_nat ?n AND 255 :: u64) = take_bit 8 (of_nat ?n)"
      by (simp only: take_bit_eq_mask mask_eq_exp_minus_1) simp
    also have "\<dots> = of_nat ?n"
      using assms(5) by (simp add: take_bit_of_nat take_bit_nat_eq_self)
    finally show ?thesis .
  qed
  moreover have "take_bit 64 ?n = ?n" using assms(5) by (intro take_bit_nat_eq_self) simp
  ultimately have cmd: "exec_command env task old = (take 255 (?raw @ environment) @ [NUL], of_nat ?n)" for old
    using le gt assms(7) by (simp add: exec_command_def len MAX_COMMAND_LEN_def Let_def unsigned_of_nat)
  have "c_str (postprocess_full_command (?raw @ (take (255 - ?n) environment @ [NUL])) 256 (of_nat ?n)) = join_blank argv"
    using assms(3,4,5) by (intro postprocess_full_command_join) auto
  then show ?thesis
    using assms(1,2) unfolding handle_exec_def
    using assms(5) by (simp add: submit_def Let_def cmd)
qed

theorem exec_command_end_to_end_witness:
  "\<exists>e. rb (handle_exec sample_bpf_config (sample_env\<lparr>user_mem := (\<lambda>_ _. Some (take 255 (argv_bytes [''git'', ''push''] @ replicate 300 (CHR ''E''))))\<rparr>)
      sample_task (Some sample_slot) sample_bpf_state) = [e] \<and>
    c_str (postprocess_full_command (e_full_command e) 256 (e_exit_code e)) = ''git push''"
proof -
  let ?env = "sample_env\<lparr>user_mem := (\<lambda>_ _. Some (take 255 (argv_bytes [''git'', ''push''] @ replicate 300 (CHR ''E''))))\<rparr>"
  have "is_cgroup_tracked (ext_cfg sample_bpf_config) ?env sample_bpf_state" "min_duration_ns sample_bpf_config = 0"
    by (simp_all add: is_cgroup_tracked_def sample_bpf_config_def sample_config_def)
  moreover have "arg_end sample_task = arg_start sample_task + of_nat (length (argv_bytes [''git'', ''push'']))"
    by (simp add: sample_task_def argv_bytes_def)
  moreover have "length (argv_bytes [''git'', ''push'']) \<le> 255" by (simp add: argv_bytes_def)
  ultimately show ?thesis
    using exec_command_end_to_end[of sample_bpf_config ?env sample_bpf_state "[''git'', ''push'']" sample_task "replicate 300 (CHR ''E'')" sample_slot]
    by (auto simp: sample_bpf_state_def)
qed

end
