(* ===== verification/Jsonl.thy ===== *)
theory Jsonl
  imports Prelude
begin

text \<open>
  The JSONL output helpers shared by the loaders (\<open>bpf/jsonl.h\<close>): UTF-8 validation, streaming
  escape of a byte buffer and the bounded escape into a fixed buffer. \<open>mbrtowc\<close> depends on the
  process locale, so it is an argument; \<open>utf8_mbrtowc\<close> states what a UTF-8 locale documents of
  it. \<open>json_chars\<close> recognises the contents of a JSON string (RFC 8259, UTF-8 per RFC 3629) and
  \<open>json_unescape\<close> reads them back.
\<close>

unbundle bit_operations_syntax

section \<open>The code\<close>

text \<open>The results of \<open>mbrtowc\<close>: \<open>(size_t)-1\<close>, \<open>(size_t)-2\<close>, 0, or the length of a character.\<close>

datatype mb_result = MbInvalid | MbIncomplete | MbNull | MbLen nat

type_synonym mbrtowc_fn = "bytes \<Rightarrow> mb_result"

definition expected_len :: "char \<Rightarrow> nat" where
  "expected_len c =
     (if ord c AND 0xE0 = 0xC0 then 2
      else if ord c AND 0xF0 = 0xE0 then 3
      else if ord c AND 0xF8 = 0xF0 then 4
      else 0)"

definition codepoint2 :: "bytes \<Rightarrow> nat" where
  "codepoint2 s = push_bit 6 (ord (s ! 0) AND 0x1F) OR (ord (s ! 1) AND 0x3F)"

definition codepoint3 :: "bytes \<Rightarrow> nat" where
  "codepoint3 s = push_bit 12 (ord (s ! 0) AND 0x0F) OR push_bit 6 (ord (s ! 1) AND 0x3F)
     OR (ord (s ! 2) AND 0x3F)"

definition codepoint4 :: "bytes \<Rightarrow> nat" where
  "codepoint4 s = push_bit 18 (ord (s ! 0) AND 0x07) OR push_bit 12 (ord (s ! 1) AND 0x3F)
     OR push_bit 6 (ord (s ! 2) AND 0x3F) OR (ord (s ! 3) AND 0x3F)"

definition validate_utf8_char :: "mbrtowc_fn \<Rightarrow> bytes \<Rightarrow> nat \<Rightarrow> nat" where
  "validate_utf8_char mbrtowc str remaining =
     (if remaining = 0 then 0
      else if ord (str ! 0) < 0x80 then 1
      else
        let n = expected_len (str ! 0) in
        if n = 0 then 0
        else if remaining < n then 0
        else (case mbrtowc (take n str) of
            MbInvalid \<Rightarrow> 0
          | MbIncomplete \<Rightarrow> 0
          | MbNull \<Rightarrow> 0
          | MbLen _ \<Rightarrow>
              if n = 2 then (if codepoint2 str < 0x80 then 0 else n)
              else if n = 3 then
                (if codepoint3 str < 0x800 then 0
                 else if 0xD800 \<le> codepoint3 str \<and> codepoint3 str \<le> 0xDFFF then 0 else n)
              else
                (if codepoint4 str < 0x10000 \<or> 0x10FFFF < codepoint4 str then 0 else n)))"

definition hex_digit :: "nat \<Rightarrow> char" where
  "hex_digit d = (if d < 10 then char_of (48 + d) else char_of (87 + d))"

text \<open>What \<open>printf\<close> with the format \<open>u%04x\<close> after a backslash writes for an unsigned char.\<close>

definition u_escape :: "char \<Rightarrow> bytes" where
  "u_escape c = CHR 0x5C # ''u00'' @ [hex_digit (ord c div 16), hex_digit (ord c mod 16)]"

function json_escape_loop :: "mbrtowc_fn \<Rightarrow> bytes \<Rightarrow> bytes" where
  "json_escape_loop mb [] = []"
| "json_escape_loop mb (c # cs) =
     (if c = CHR 0x22 \<or> c = CHR 0x5C then CHR 0x5C # c # json_escape_loop mb cs
      else if c = CHR 0x0A then [CHR 0x5C, CHR ''n''] @ json_escape_loop mb cs
      else if c = CHR 0x0D then [CHR 0x5C, CHR ''r''] @ json_escape_loop mb cs
      else if c = CHR 0x09 then [CHR 0x5C, CHR ''t''] @ json_escape_loop mb cs
      else if c = CHR 0x08 then [CHR 0x5C, CHR ''b''] @ json_escape_loop mb cs
      else if c = CHR 0x0C then [CHR 0x5C, CHR ''f''] @ json_escape_loop mb cs
      else if 32 \<le> ord c \<and> ord c \<le> 126 then c # json_escape_loop mb cs
      else if 128 \<le> ord c then
        (let n = validate_utf8_char mb (c # cs) (length (c # cs)) in
         if 0 < n then take n (c # cs) @ json_escape_loop mb (drop n (c # cs))
         else u_escape c @ json_escape_loop mb cs)
      else u_escape c @ json_escape_loop mb cs)"
  by pat_completeness auto
termination
  by (relation "measure (\<lambda>(mb, cs). length cs)") auto

definition json_print_escaped :: "mbrtowc_fn \<Rightarrow> bytes \<Rightarrow> nat \<Rightarrow> bytes" where
  "json_print_escaped mb buf len = json_escape_loop mb (take len buf)"

definition json_print_escaped_quoted :: "mbrtowc_fn \<Rightarrow> bytes \<Rightarrow> nat \<Rightarrow> bytes" where
  "json_print_escaped_quoted mb buf len =
     CHR 0x22 # json_print_escaped mb buf len @ [CHR 0x22]"

text \<open>
  \<open>json_escape\<close> writes into \<open>dst\<close>; \<open>out\<close> is what it has written so far, \<open>length out\<close> is the
  variable \<open>j\<close>, and \<open>size_sub\<close> is subtraction on \<open>size_t\<close>.
\<close>

definition size_sub :: "nat \<Rightarrow> nat \<Rightarrow> nat" where
  "size_sub a b = (if b \<le> a then a - b else a + 2 ^ 64 - b)"

fun json_escape_into :: "bytes \<Rightarrow> bytes \<Rightarrow> nat \<Rightarrow> bytes" where
  "json_escape_into [] out dst_size = out"
| "json_escape_into (c # cs) out dst_size =
     (if c = NUL \<or> \<not> length out < size_sub dst_size 2 then out
      else if c = CHR 0x5C then
        json_escape_into cs (if length out + 2 < dst_size then out @ [CHR 0x5C, CHR 0x5C] else out) dst_size
      else if c = CHR 0x22 then
        json_escape_into cs (if length out + 2 < dst_size then out @ [CHR 0x5C, CHR 0x22] else out) dst_size
      else if c = CHR 0x0A then
        json_escape_into cs (if length out + 2 < dst_size then out @ [CHR 0x5C, CHR ''n''] else out) dst_size
      else if c = CHR 0x09 then
        json_escape_into cs (if length out + 2 < dst_size then out @ [CHR 0x5C, CHR ''t''] else out) dst_size
      else json_escape_into cs (out @ [c]) dst_size)"

text \<open>The string \<open>dst\<close> holds afterwards; the terminating NUL is at index \<open>length\<close> of it.\<close>

definition json_escape :: "bytes \<Rightarrow> nat \<Rightarrow> bytes" where
  "json_escape src dst_size = json_escape_into src [] dst_size"

section \<open>Reference definitions\<close>

definition cont_byte :: "char \<Rightarrow> bool" where
  "cont_byte c \<longleftrightarrow> 0x80 \<le> ord c \<and> ord c \<le> 0xBF"

text \<open>The length of the RFC 3629 character at the front of a byte string, 0 if there is none.\<close>

fun utf8_len :: "bytes \<Rightarrow> nat" where
  "utf8_len [] = 0"
| "utf8_len (a # s) =
     (if ord a < 0x80 then 1
      else if 0xC2 \<le> ord a \<and> ord a \<le> 0xDF then
        (case s of b # _ \<Rightarrow> if cont_byte b then 2 else 0 | _ \<Rightarrow> 0)
      else if 0xE0 \<le> ord a \<and> ord a \<le> 0xEF then
        (case s of b # c # _ \<Rightarrow>
           if cont_byte b \<and> cont_byte c \<and> (ord a = 0xE0 \<longrightarrow> 0xA0 \<le> ord b) \<and> (ord a = 0xED \<longrightarrow> ord b \<le> 0x9F)
           then 3 else 0
         | _ \<Rightarrow> 0)
      else if 0xF0 \<le> ord a \<and> ord a \<le> 0xF4 then
        (case s of b # c # d # _ \<Rightarrow>
           if cont_byte b \<and> cont_byte c \<and> cont_byte d \<and>
              (ord a = 0xF0 \<longrightarrow> 0x90 \<le> ord b) \<and> (ord a = 0xF4 \<longrightarrow> ord b \<le> 0x8F)
           then 4 else 0
         | _ \<Rightarrow> 0)
      else 0)"

definition is_hex :: "char \<Rightarrow> bool" where
  "is_hex c \<longleftrightarrow> (48 \<le> ord c \<and> ord c \<le> 57) \<or> (97 \<le> ord c \<and> ord c \<le> 102) \<or> (65 \<le> ord c \<and> ord c \<le> 70)"

text \<open>The contents of a JSON string: what may stand between the quotes.\<close>

function json_chars :: "bytes \<Rightarrow> bool" where
  "json_chars [] = True"
| "json_chars (c # cs) =
     (if ord c < 32 \<or> c = CHR 0x22 then False
      else if c = CHR 0x5C then
        (case cs of
           [] \<Rightarrow> False
         | e # es \<Rightarrow>
             if e \<in> set [CHR 0x22, CHR 0x5C, CHR ''/'', CHR ''b'', CHR ''f'', CHR ''n'', CHR ''r'', CHR ''t'']
             then json_chars es
             else e = CHR ''u'' \<and> 4 \<le> length es \<and> list_all is_hex (take 4 es) \<and> json_chars (drop 4 es))
      else
        let n = utf8_len (c # cs) in if 0 < n then json_chars (drop n (c # cs)) else False)"
  by pat_completeness auto
termination
  by (relation "measure length") auto

definition hex_val :: "char \<Rightarrow> nat" where
  "hex_val c = (if ord c \<le> 57 then ord c - 48 else if ord c \<le> 70 then ord c - 55 else ord c - 87)"

text \<open>Reading back the escapes of ASCII characters; other bytes stand for themselves.\<close>

fun json_unescape :: "bytes \<Rightarrow> bytes option" where
  "json_unescape [] = Some []"
| "json_unescape (c # cs) =
     (if c \<noteq> CHR 0x5C then map_option ((#) c) (json_unescape cs)
      else (case cs of
          [] \<Rightarrow> None
        | e # es \<Rightarrow>
            if e = CHR ''n'' then map_option ((#) (CHR 0x0A)) (json_unescape es)
            else if e = CHR ''r'' then map_option ((#) (CHR 0x0D)) (json_unescape es)
            else if e = CHR ''t'' then map_option ((#) (CHR 0x09)) (json_unescape es)
            else if e = CHR ''b'' then map_option ((#) (CHR 0x08)) (json_unescape es)
            else if e = CHR ''f'' then map_option ((#) (CHR 0x0C)) (json_unescape es)
            else if e = CHR ''u'' then
              (case es of a # b # h # l # rest \<Rightarrow>
                 if a = CHR ''0'' \<and> b = CHR ''0'' \<and> hex_val h < 8
                 then map_option ((#) (char_of (16 * hex_val h + hex_val l))) (json_unescape rest)
                 else None
               | _ \<Rightarrow> None)
            else map_option ((#) e) (json_unescape es)))"

text \<open>A byte string made of RFC 3629 characters only.\<close>

function utf8_text :: "bytes \<Rightarrow> bool" where
  "utf8_text [] = True"
| "utf8_text (c # cs) = (let n = utf8_len (c # cs) in if 0 < n then utf8_text (drop n (c # cs)) else False)"
  by pat_completeness auto
termination
  by (relation "measure length") auto

text \<open>
  What the code relies on of \<open>mbrtowc\<close>. In a UTF-8 locale, and in a locale without characters
  above 0x7F, a sequence of the length its lead byte announces is accepted only when the rest
  are continuation bytes; a UTF-8 locale also accepts every RFC 3629 character.
\<close>

locale multibyte =
  fixes mb :: mbrtowc_fn
  assumes mb_sound: "mb (a # s) = MbLen k \<Longrightarrow> expected_len a = length (a # s) \<Longrightarrow> list_all cont_byte s"

locale utf8_mbrtowc = multibyte +
  assumes mb_complete: "utf8_len s = length s \<Longrightarrow> s \<noteq> [] \<Longrightarrow> hd s \<noteq> NUL \<Longrightarrow> \<exists>k. mb s = MbLen k"

text \<open>
  \<open>mbrtowc\<close> in a UTF-8 locale (a character that is cut off is reported as invalid; the code treats
  both alike), in a 7-bit locale, and in a single-byte locale such as ISO 8859-1.
\<close>

definition mbrtowc_utf8 :: mbrtowc_fn where
  "mbrtowc_utf8 s =
     (case s of [] \<Rightarrow> MbIncomplete
      | a # t \<Rightarrow> if a = NUL then MbNull else if 0 < utf8_len s then MbLen (utf8_len s) else MbInvalid)"

definition mbrtowc_c :: mbrtowc_fn where
  "mbrtowc_c s =
     (case s of [] \<Rightarrow> MbIncomplete
      | a # t \<Rightarrow> if a = NUL then MbNull else if ord a < 0x80 then MbLen 1 else MbInvalid)"

definition mbrtowc_single_byte :: mbrtowc_fn where
  "mbrtowc_single_byte s =
     (case s of [] \<Rightarrow> MbIncomplete | a # t \<Rightarrow> if a = NUL then MbNull else MbLen 1)"

section \<open>Bits of a byte\<close>

lemma byte_all: "list_all P [0..<256] \<Longrightarrow> P (ord c)"
  by (simp add: list_all_iff)

lemma and_push_mask: "(n::nat) AND push_bit k (mask j) = 2 ^ k * (n div 2 ^ k mod 2 ^ j)"
proof -
  have "n AND push_bit k (mask j) = push_bit k (take_bit j (drop_bit k n))"
    by (auto simp: bit_eq_iff bit_simps)
  then show ?thesis
    by (simp add: push_bit_eq_mult take_bit_eq_mod drop_bit_eq_div mult.commute)
qed

lemma high_bits:
  assumes "(n::nat) < 256"
  shows "n AND 0xE0 = 32 * (n div 32)" "n AND 0xF0 = 16 * (n div 16)" "n AND 0xF8 = 8 * (n div 8)"
  using assms and_push_mask[of n 5 3] and_push_mask[of n 4 4] and_push_mask[of n 3 5]
  by (simp_all add: mask_eq_exp_minus_1 push_bit_eq_mult less_mult_imp_div_less)

lemma div_block: "0 < k \<Longrightarrow> k * (n div k) = k * m \<longleftrightarrow> k * m \<le> n \<and> n < k * m + (k::nat)"
proof -
  assume "0 < k"
  then have "n = k * (n div k) + n mod k" "n mod k < k" by simp_all
  moreover have "n div k = m" if "k * m \<le> n" "n < k * m + k"
    using that div_nat_eqI[of k m n] by (simp add: algebra_simps)
  ultimately show ?thesis by (metis le_add1 nat_add_left_cancel_less)
qed

lemma expected_len_range:
  "expected_len c =
     (if 0xC0 \<le> ord c \<and> ord c \<le> 0xDF then 2
      else if 0xE0 \<le> ord c \<and> ord c \<le> 0xEF then 3
      else if 0xF0 \<le> ord c \<and> ord c \<le> 0xF7 then 4 else 0)"
proof -
  have b: "ord c < 256" by simp
  have "ord c AND 0xE0 = 32 * (ord c div 32)" "ord c AND 0xF0 = 16 * (ord c div 16)"
    "ord c AND 0xF8 = 8 * (ord c div 8)"
    using high_bits[OF b] by blast+
  then have "ord c AND 0xE0 = 0xC0 \<longleftrightarrow> 0xC0 \<le> ord c \<and> ord c \<le> 0xDF"
    "ord c AND 0xF0 = 0xE0 \<longleftrightarrow> 0xE0 \<le> ord c \<and> ord c \<le> 0xEF"
    "ord c AND 0xF8 = 0xF0 \<longleftrightarrow> 0xF0 \<le> ord c \<and> ord c \<le> 0xF7"
    using div_block[of 32 "ord c" 6] div_block[of 16 "ord c" 14] div_block[of 8 "ord c" 30] by auto
  then show ?thesis by (simp add: expected_len_def)
qed

lemma and_masks [simp]:
  "(n::nat) AND 0x3F = n mod 64" "n AND 0x1F = n mod 32" "n AND 0x0F = n mod 16" "n AND 0x07 = n mod 8"
proof -
  have "n AND mask k = n mod 2 ^ k" for k
    by (simp add: take_bit_eq_mask flip: take_bit_eq_mod)
  from this[of 6] this[of 5] this[of 4] this[of 3] show
    "n AND 0x3F = n mod 64" "n AND 0x1F = n mod 32" "n AND 0x0F = n mod 16" "n AND 0x07 = n mod 8"
    by (simp_all add: mask_eq_exp_minus_1)
qed

lemma push_or:
  assumes "x < 2 ^ n"
  shows "push_bit n y OR x = y * 2 ^ n + (x::nat)"
proof -
  have x: "x = take_bit n x" using assms by (simp add: take_bit_eq_mod)
  have "push_bit n y AND x = 0"
    by (subst x) (auto simp: bit_eq_iff bit_simps)
  then show ?thesis
    by (simp add: disjunctive_add_eq_or push_bit_eq_mult[symmetric])
qed

lemma codepoint2_val: "codepoint2 s = ord (s ! 0) mod 32 * 64 + ord (s ! 1) mod 64"
  using push_or[of "ord (s ! 1) mod 64" 6] by (simp add: codepoint2_def)

lemma codepoint3_val:
  "codepoint3 s = ord (s ! 0) mod 16 * 4096 + ord (s ! 1) mod 64 * 64 + ord (s ! 2) mod 64"
proof -
  let ?y = "ord (s ! 1) mod 64" and ?z = "ord (s ! 2) mod 64"
  have "push_bit 6 ?y OR ?z = ?y * 64 + ?z" using push_or[of ?z 6] by simp
  moreover have "?y < 64" "?z < 64" by simp_all
  then have "?y * 64 + ?z < 4096" by linarith
  ultimately show ?thesis
    using push_or[of "?y * 64 + ?z" 12 "ord (s ! 0) mod 16"] by (simp add: codepoint3_def or.assoc)
qed

lemma codepoint4_val:
  "codepoint4 s = ord (s ! 0) mod 8 * 262144 + ord (s ! 1) mod 64 * 4096 + ord (s ! 2) mod 64 * 64 + ord (s ! 3) mod 64"
proof -
  let ?x = "ord (s ! 1) mod 64" and ?y = "ord (s ! 2) mod 64" and ?z = "ord (s ! 3) mod 64"
  have b: "?x < 64" "?y < 64" "?z < 64" by simp_all
  have "push_bit 6 ?y OR ?z = ?y * 64 + ?z" using push_or[of ?z 6] by simp
  moreover have "push_bit 12 ?x OR (?y * 64 + ?z) = ?x * 4096 + (?y * 64 + ?z)"
    using push_or[of "?y * 64 + ?z" 12] b by simp
  moreover have "?x * 4096 + (?y * 64 + ?z) < 262144" using b by linarith
  ultimately show ?thesis
    using push_or[of "?x * 4096 + (?y * 64 + ?z)" 18 "ord (s ! 0) mod 8"]
    by (simp add: codepoint4_def or.assoc)
qed

lemma cont_mod: "cont_byte b \<Longrightarrow> ord b mod 64 = ord b - 128"
proof -
  assume "cont_byte b"
  then obtain k where "ord b = 128 + k" "k < 64"
    by (auto simp: cont_byte_def le_iff_add)
  then show ?thesis by (simp add: mod_add_left_eq[symmetric])
qed

lemma lead_mod:
  "0xC0 \<le> ord a \<Longrightarrow> ord a \<le> 0xDF \<Longrightarrow> ord a mod 32 = ord a - 0xC0"
  "0xE0 \<le> ord a \<Longrightarrow> ord a \<le> 0xEF \<Longrightarrow> ord a mod 16 = ord a - 0xE0"
  "0xF0 \<le> ord a \<Longrightarrow> ord a \<le> 0xF7 \<Longrightarrow> ord a mod 8 = ord a - 0xF0"
proof -
  let ?P = "\<lambda>n::nat. (0xC0 \<le> n \<longrightarrow> n \<le> 0xDF \<longrightarrow> n mod 32 = n - 0xC0) \<and>
    (0xE0 \<le> n \<longrightarrow> n \<le> 0xEF \<longrightarrow> n mod 16 = n - 0xE0) \<and> (0xF0 \<le> n \<longrightarrow> n \<le> 0xF7 \<longrightarrow> n mod 8 = n - 0xF0)"
  have "list_all ?P [0..<256]" by code_simp
  then have "?P (ord a)" by (rule byte_all)
  then show "0xC0 \<le> ord a \<Longrightarrow> ord a \<le> 0xDF \<Longrightarrow> ord a mod 32 = ord a - 0xC0"
    "0xE0 \<le> ord a \<Longrightarrow> ord a \<le> 0xEF \<Longrightarrow> ord a mod 16 = ord a - 0xE0"
    "0xF0 \<le> ord a \<Longrightarrow> ord a \<le> 0xF7 \<Longrightarrow> ord a mod 8 = ord a - 0xF0" by blast+
qed

section \<open>UTF-8 validation\<close>

lemma codepoint3_range:
  assumes "A \<le> 15" "B < 64" "C < (64::nat)"
  shows "(A * 4096 + B * 64 + C < 0x800 \<or> 0xD800 \<le> A * 4096 + B * 64 + C \<and> A * 4096 + B * 64 + C \<le> 0xDFFF) \<longleftrightarrow>
    (A = 0 \<and> B < 32) \<or> (A = 13 \<and> 32 \<le> B)"
proof -
  consider "A = 0" | "1 \<le> A" "A \<le> 12" | "A = 13" | "14 \<le> A" by linarith
  then show ?thesis
    by cases (use assms in \<open>simp; linarith\<close>)+
qed

lemma codepoint4_range:
  assumes "A \<le> 7" "B < 64" "C < 64" "D < (64::nat)"
  shows "(A * 262144 + B * 4096 + C * 64 + D < 0x10000 \<or> 0x10FFFF < A * 262144 + B * 4096 + C * 64 + D) \<longleftrightarrow>
    (A = 0 \<and> B < 16) \<or> (A = 4 \<and> 16 \<le> B) \<or> 5 \<le> A"
proof -
  consider "A = 0" | "1 \<le> A" "A \<le> 3" | "A = 4" | "5 \<le> A" by linarith
  then show ?thesis
    by cases (use assms in \<open>simp; linarith\<close>)+
qed

lemma utf8_len_cases:
  "utf8_len (a # s) = (if ord a < 0x80 then 1 else let n = expected_len a in
     if n = 0 \<or> length s + 1 < n \<or> \<not> list_all cont_byte (take (n - 1) s) then 0
     else if n = 2 then (if codepoint2 (a # s) < 0x80 then 0 else 2)
     else if n = 3 then (if codepoint3 (a # s) < 0x800 \<or> (0xD800 \<le> codepoint3 (a # s) \<and> codepoint3 (a # s) \<le> 0xDFFF) then 0 else 3)
     else (if codepoint4 (a # s) < 0x10000 \<or> 0x10FFFF < codepoint4 (a # s) then 0 else 4))"
proof -
  consider "ord a < 0xC0" | "0xC0 \<le> ord a" "ord a \<le> 0xDF" | "0xE0 \<le> ord a" "ord a \<le> 0xEF"
    | "0xF0 \<le> ord a" "ord a \<le> 0xF7" | "0xF8 \<le> ord a" by linarith
  then show ?thesis
  proof cases
    case 2
    then have n: "expected_len a = 2" by (simp add: expected_len_range)
    show ?thesis
    proof (cases s)
      case (Cons b t)
      then show ?thesis
        using 2 cont_mod[of b] lead_mod(1)[of a] n
        by (auto simp: codepoint2_val Let_def cont_byte_def)
    qed (use 2 n in \<open>simp add: Let_def\<close>)
  next
    case 3
    then have n: "expected_len a = 3" by (simp add: expected_len_range)
    show ?thesis
    proof (cases "\<exists>b c t. s = b # c # t")
      case True
      then obtain b c t where s: "s = b # c # t" by blast
      show ?thesis
      proof (cases "cont_byte b \<and> cont_byte c")
        case True
        then have cp: "codepoint3 (a # s) = (ord a - 224) * 4096 + (ord b - 128) * 64 + (ord c - 128)"
          using 3 by (simp add: s codepoint3_val cont_mod lead_mod(2))
        have "ord a - 224 \<le> 15" "ord b - 128 < 64" "ord c - 128 < 64"
          using 3 True by (auto simp: cont_byte_def)
        note rng = codepoint3_range[OF this, folded cp]
        have "utf8_len (a # s) = (if (ord a = 0xE0 \<longrightarrow> 0xA0 \<le> ord b) \<and> (ord a = 0xED \<longrightarrow> ord b \<le> 0x9F) then 3 else 0)"
          using 3 True by (simp add: s)
        also have "\<dots> = (if codepoint3 (a # s) < 0x800 \<or> (0xD800 \<le> codepoint3 (a # s) \<and> codepoint3 (a # s) \<le> 0xDFFF) then 0 else 3)"
          unfolding rng using 3 True by (auto simp: cont_byte_def)
        finally show ?thesis using 3 True n by (simp add: s Let_def)
      qed (use 3 n in \<open>auto simp: s Let_def numeral_eq_Suc\<close>)
    next
      case False
      then have "length s < 2" by (cases s; cases "tl s") auto
      with 3 n False show ?thesis by (auto simp: Let_def split: list.splits)
    qed
  next
    case 4
    then have n: "expected_len a = 4" by (simp add: expected_len_range)
    show ?thesis
    proof (cases "\<exists>b c d t. s = b # c # d # t")
      case True
      then obtain b c d t where s: "s = b # c # d # t" by blast
      show ?thesis
      proof (cases "cont_byte b \<and> cont_byte c \<and> cont_byte d")
        case True
        then have cp: "codepoint4 (a # s) = (ord a - 240) * 262144 + (ord b - 128) * 4096 + (ord c - 128) * 64 + (ord d - 128)"
          using 4 by (simp add: s codepoint4_val cont_mod lead_mod(3))
        have "ord a - 240 \<le> 7" "ord b - 128 < 64" "ord c - 128 < 64" "ord d - 128 < 64"
          using 4 True by (auto simp: cont_byte_def)
        note rng = codepoint4_range[OF this, folded cp]
        have "utf8_len (a # s) = (if ord a \<le> 0xF4 \<and> (ord a = 0xF0 \<longrightarrow> 0x90 \<le> ord b) \<and> (ord a = 0xF4 \<longrightarrow> ord b \<le> 0x8F) then 4 else 0)"
          using 4 True by (simp add: s)
        also have "\<dots> = (if codepoint4 (a # s) < 0x10000 \<or> 0x10FFFF < codepoint4 (a # s) then 0 else 4)"
        proof -
          have "(ord a \<le> 0xF4 \<and> (ord a = 0xF0 \<longrightarrow> 0x90 \<le> ord b) \<and> (ord a = 0xF4 \<longrightarrow> ord b \<le> 0x8F)) \<longleftrightarrow>
              \<not> (ord a - 240 = 0 \<and> ord b - 128 < 16 \<or> ord a - 240 = 4 \<and> 16 \<le> ord b - 128 \<or> 5 \<le> ord a - 240)"
            using 4 True by (simp add: cont_byte_def) linarith
          then show ?thesis unfolding rng by simp
        qed
        finally show ?thesis using 4 True n by (simp add: s Let_def)
      qed (use 4 n in \<open>auto simp: s Let_def numeral_eq_Suc\<close>)
    next
      case False
      then have "length s < 3" by (cases s; cases "tl s"; cases "tl (tl s)") auto
      with 4 n False show ?thesis by (auto simp: Let_def split: list.splits)
    qed
  qed (auto simp: expected_len_range)
qed

lemma utf8_len_le: "utf8_len s \<le> length s"
  by (cases s) (auto split: list.splits)

lemma utf8_len_append: "0 < utf8_len s \<Longrightarrow> utf8_len (take (utf8_len s) s @ t) = utf8_len s"
  by (cases s) (auto split: list.splits if_splits)

lemma utf8_len_take: "0 < utf8_len s \<Longrightarrow> utf8_len (take (utf8_len s) s) = utf8_len s"
  using utf8_len_append[of s "[]"] by simp

lemma utf8_len_ascii: "utf8_len (c # cs) = 1 \<longleftrightarrow> ord c < 0x80"
  by (auto split: list.splits)

lemma expected_len_high: "expected_len c \<noteq> 0 \<Longrightarrow> 0x80 \<le> ord c"
  by (auto simp: expected_len_range split: if_splits)

lemma expected_len_vals: "expected_len c = 0 \<or> expected_len c = 2 \<or> expected_len c = 3 \<or> expected_len c = 4"
  by (simp add: expected_len_def)

text \<open>The code's own checks on the code point, after \<open>mbrtowc\<close> has accepted the bytes.\<close>

definition cp_reject :: "nat \<Rightarrow> bytes \<Rightarrow> bool" where
  "cp_reject n s \<longleftrightarrow>
     (if n = 2 then codepoint2 s < 0x80
      else if n = 3 then codepoint3 s < 0x800 \<or> (0xD800 \<le> codepoint3 s \<and> codepoint3 s \<le> 0xDFFF)
      else codepoint4 s < 0x10000 \<or> 0x10FFFF < codepoint4 s)"

lemma utf8_len_eq:
  assumes "0x80 \<le> ord a" "n = expected_len a"
  shows "utf8_len (a # s) =
    (if n \<noteq> 0 \<and> n \<le> length (a # s) \<and> list_all cont_byte (take (n - 1) s) \<and> \<not> cp_reject n (a # s) then n else 0)"
  unfolding utf8_len_cases using assms expected_len_vals[of a]
  by (elim disjE) (simp_all add: cp_reject_def Let_def Suc_le_eq)

lemma validate_eq:
  assumes "0x80 \<le> ord a" "n = expected_len a"
  shows "validate_utf8_char mb (a # s) (length (a # s)) =
    (if n \<noteq> 0 \<and> n \<le> length (a # s) \<and> (\<exists>k. mb (take n (a # s)) = MbLen k) \<and> \<not> cp_reject n (a # s) then n else 0)"
  using assms expected_len_vals[of a]
  by (elim disjE) (simp_all add: validate_utf8_char_def cp_reject_def Let_def Suc_le_eq split: mb_result.split)

declare utf8_len.simps(2) [simp del]

lemma utf8_len_high:
  assumes "0x80 \<le> ord c" "x \<in> set (take (utf8_len (c # cs)) (c # cs))"
  shows "0x80 \<le> ord x"
proof -
  have n: "utf8_len (c # cs) = expected_len c" "list_all cont_byte (take (expected_len c - 1) cs)"
    using assms utf8_len_eq[OF assms(1) refl, of cs] by (auto split: if_splits)
  then show ?thesis
    using assms by (cases "expected_len c") (auto simp: list_all_iff cont_byte_def)
qed

context multibyte
begin

lemma validate_sound:
  "validate_utf8_char mb s (length s) = utf8_len s \<or> validate_utf8_char mb s (length s) = 0"
proof (cases s)
  case (Cons a t)
  let ?n = "expected_len a"
  show ?thesis
  proof (cases "ord a < 0x80")
    case True
    then show ?thesis by (simp add: Cons validate_utf8_char_def utf8_len.simps)
  next
    case False
    have "list_all cont_byte (take (?n - 1) t)" if "mb (take ?n (a # t)) = MbLen k" "?n \<noteq> 0" "?n \<le> length (a # t)" for k
    proof -
      have "take ?n (a # t) = a # take (?n - 1) t" using that(2) by (cases ?n) auto
      with that mb_sound[of a "take (?n - 1) t" k] show ?thesis by simp
    qed
    then show ?thesis
      using False validate_eq[of a ?n mb t] utf8_len_eq[of a ?n t] by (auto simp: Cons)
  qed
qed (simp add: validate_utf8_char_def)

end

context utf8_mbrtowc
begin

lemma validate_exact: "validate_utf8_char mb s (length s) = utf8_len s"
proof (cases "utf8_len s = 0")
  case True
  then show ?thesis using validate_sound[of s] by simp
next
  case False
  then obtain a t where s: "s = a # t" by (cases s) auto
  show ?thesis
  proof (cases "ord a < 0x80")
    case True
    then show ?thesis by (simp add: s validate_utf8_char_def utf8_len.simps)
  next
    case high: False
    let ?n = "expected_len a"
    note u = utf8_len_eq[of a ?n t]
    have n: "utf8_len s = ?n" "?n \<noteq> 0" "?n \<le> length s" "\<not> cp_reject ?n s"
      using False high u by (auto simp: s split: if_splits)
    have "take ?n s \<noteq> []" "hd (take ?n s) = a" using n s by auto
    moreover have "utf8_len (take ?n s) = length (take ?n s)"
      using utf8_len_take[of s] n by simp
    moreover have "a \<noteq> NUL" using high by auto
    ultimately have "\<exists>k. mb (take ?n s) = MbLen k" using mb_complete by metis
    then show ?thesis
      using high n validate_eq[of a ?n mb t] by (simp add: s)
  qed
qed

end

section \<open>Streaming escape\<close>

declare json_escape_loop.simps [simp del] json_chars.simps(2) [simp del] json_unescape.simps(2) [simp del]

lemma hex_digit_ord: "d < 16 \<Longrightarrow> ord (hex_digit d) = (if d < 10 then 48 + d else 87 + d)"
  by (simp add: hex_digit_def)

lemma is_hex_digit: "d < 16 \<Longrightarrow> is_hex (hex_digit d)"
  by (simp add: is_hex_def hex_digit_ord)

lemma hex_val_digit: "d < 16 \<Longrightarrow> hex_val (hex_digit d) = d"
  by (simp add: hex_val_def hex_digit_ord)

lemma byte_nibbles: "ord c div 16 < 16" "ord c mod 16 < 16" "16 * (ord c div 16) + ord c mod 16 = ord c"
  by (simp_all add: less_mult_imp_div_less)

lemma json_chars_escape [simp]:
  "e \<in> set [CHR 0x22, CHR 0x5C, CHR ''/'', CHR ''b'', CHR ''f'', CHR ''n'', CHR ''r'', CHR ''t''] \<Longrightarrow>
     json_chars (CHR 0x5C # e # t) = json_chars t"
  by (subst json_chars.simps) simp

lemma json_chars_u [simp]: "json_chars (u_escape c @ t) = json_chars t"
proof -
  have "is_hex (hex_digit (ord c div 16))" "is_hex (hex_digit (ord c mod 16))"
    using byte_nibbles[of c] by (simp_all add: is_hex_digit)
  then show ?thesis
    by (simp add: u_escape_def json_chars.simps(2)[of "CHR 0x5C"]) (simp add: is_hex_def)
qed

lemma json_chars_plain [simp]:
  "32 \<le> ord c \<Longrightarrow> ord c < 0x80 \<Longrightarrow> c \<noteq> CHR 0x22 \<Longrightarrow> c \<noteq> CHR 0x5C \<Longrightarrow> json_chars (c # t) = json_chars t"
  by (simp add: json_chars.simps(2) utf8_len.simps(2))

lemma json_chars_utf8:
  assumes "0x80 \<le> ord c" "n = utf8_len (c # cs)" "0 < n"
  shows "json_chars (take n (c # cs) @ t) = json_chars t"
proof -
  obtain m where m: "n = Suc m" using assms(3) by (cases n) auto
  then have t: "take n (c # cs) @ t = c # take m cs @ t" by simp
  have "utf8_len (take n (c # cs) @ t) = n" using utf8_len_append[of "c # cs" t] assms by simp
  then have l: "utf8_len (c # take m cs @ t) = Suc m" by (simp only: t) (simp only: m)
  have "n \<le> Suc (length cs)" using utf8_len_le[of "c # cs"] assms(2) by simp
  then have "length (take m cs) = m" using m by simp
  note l = l this
  have "c \<noteq> CHR 0x22" "c \<noteq> CHR 0x5C" using assms(1) by auto
  with assms(1) l m show ?thesis by (simp add: json_chars.simps(2))
qed

lemma json_unescape_simple [simp]:
  "json_unescape (CHR 0x5C # CHR ''n'' # t) = map_option ((#) (CHR 0x0A)) (json_unescape t)"
  "json_unescape (CHR 0x5C # CHR ''r'' # t) = map_option ((#) (CHR 0x0D)) (json_unescape t)"
  "json_unescape (CHR 0x5C # CHR ''t'' # t) = map_option ((#) (CHR 0x09)) (json_unescape t)"
  "json_unescape (CHR 0x5C # CHR ''b'' # t) = map_option ((#) (CHR 0x08)) (json_unescape t)"
  "json_unescape (CHR 0x5C # CHR ''f'' # t) = map_option ((#) (CHR 0x0C)) (json_unescape t)"
  "json_unescape (CHR 0x5C # CHR 0x22 # t) = map_option ((#) (CHR 0x22)) (json_unescape t)"
  "json_unescape (CHR 0x5C # CHR 0x5C # t) = map_option ((#) (CHR 0x5C)) (json_unescape t)"
  "c \<noteq> CHR 0x5C \<Longrightarrow> json_unescape (c # t) = map_option ((#) c) (json_unescape t)"
  by (simp_all add: json_unescape.simps(2))

lemma json_unescape_u:
  assumes "ord c < 128"
  shows "json_unescape (u_escape c @ t) = map_option ((#) c) (json_unescape t)"
proof -
  have "hex_val (hex_digit (ord c div 16)) = ord c div 16" "hex_val (hex_digit (ord c mod 16)) = ord c mod 16"
    using byte_nibbles[of c] by (simp_all add: hex_val_digit)
  moreover have "ord c div 16 < 8" using assms by linarith
  ultimately show ?thesis
    using byte_nibbles(3)[of c] by (simp add: u_escape_def json_unescape.simps(2)[of "CHR 0x5C"])
qed

lemma json_unescape_raw:
  "CHR 0x5C \<notin> set xs \<Longrightarrow> json_unescape (xs @ t) = map_option ((@) xs) (json_unescape t)"
proof (induction xs)
  case Nil
  then show ?case by (simp add: option.map_ident)
next
  case (Cons x xs)
  then have "x \<noteq> CHR 0x5C" by auto
  with Cons show ?case by (simp add: option.map_comp comp_def)
qed

lemma escape_loop_high:
  assumes "128 \<le> ord c" "validate_utf8_char mb (c # cs) (length (c # cs)) = n" "0 < n"
  shows "json_escape_loop mb (c # cs) = take n (c # cs) @ json_escape_loop mb (drop n (c # cs))"
proof -
  have "c \<notin> {CHR 0x22, CHR 0x5C, CHR 0x0A, CHR 0x0D, CHR 0x09, CHR 0x08, CHR 0x0C}" using assms(1) by auto
  with assms show ?thesis by (subst json_escape_loop.simps) (simp only: Let_def if_True if_False insert_iff simp_thms, simp)
qed

context multibyte
begin

lemma validate_cases:
  obtains "validate_utf8_char mb (c # cs) (length (c # cs)) = 0"
  | "validate_utf8_char mb (c # cs) (length (c # cs)) = utf8_len (c # cs)" "0 < utf8_len (c # cs)"
  using validate_sound[of "c # cs"] by fastforce

lemma escape_loop_json: "json_chars (json_escape_loop mb s)"
proof (induction s rule: length_induct)
  case (1 s)
  show ?case
  proof (cases s)
    case (Cons c cs)
    let ?v = "validate_utf8_char mb (c # cs) (length (c # cs))"
    have "json_chars (json_escape_loop mb cs)" using 1 Cons by simp
    moreover have "json_chars (take ?v (c # cs) @ json_escape_loop mb (drop ?v (c # cs)))"
      if "128 \<le> ord c" "0 < ?v"
    proof (cases rule: validate_cases[of c cs])
      case 2
      then have "json_chars (json_escape_loop mb (drop ?v (c # cs)))"
        using 1 Cons by (metis drop_eq_Nil length_drop length_greater_0_conv less_imp_diff_less
            diff_less list.simps(3) that(2))
      then show ?thesis unfolding 2(1) using json_chars_utf8[OF that(1) refl 2(2)] by simp
    qed (use that in simp)
    ultimately show ?thesis
      by (simp add: Cons json_escape_loop.simps(2) Let_def)
  qed (simp add: json_escape_loop.simps)
qed

end

context utf8_mbrtowc
begin

lemma escape_loop_unescape: "utf8_text s \<Longrightarrow> json_unescape (json_escape_loop mb s) = Some s"
proof (induction s rule: utf8_text.induct)
  case (2 c cs)
  let ?n = "utf8_len (c # cs)"
  have n: "0 < ?n" "utf8_text (drop ?n (c # cs))" using "2.prems" by (simp_all add: Let_def split: if_splits)
  with "2.IH" have ih: "json_unescape (json_escape_loop mb (drop ?n (c # cs))) = Some (drop ?n (c # cs))" by simp
  show ?case
  proof (cases "ord c < 0x80")
    case True
    then have "?n = 1" by (simp add: utf8_len.simps)
    with ih have "json_unescape (json_escape_loop mb cs) = Some cs" by simp
    with True show ?thesis
      by (simp add: json_escape_loop.simps(2) json_unescape_u)
  next
    case False
    then have "CHR 0x5C \<notin> set (take ?n (c # cs))" using utf8_len_high[of c _ cs] by fastforce
    then have "json_unescape (take ?n (c # cs) @ json_escape_loop mb (drop ?n (c # cs))) = Some (take ?n (c # cs) @ drop ?n (c # cs))"
      by (subst json_unescape_raw) (simp_all only: ih option.map not_False_eq_True)
    moreover have "json_escape_loop mb (c # cs) = take ?n (c # cs) @ json_escape_loop mb (drop ?n (c # cs))"
      by (rule escape_loop_high[OF _ validate_exact n(1)]) (use False in simp)
    ultimately show ?thesis by (simp only: append_take_drop_id)
  qed
qed (simp add: json_escape_loop.simps)

end

interpretation c_locale: multibyte mbrtowc_c
  by unfold_locales (auto simp: mbrtowc_c_def expected_len_range split: if_splits)

interpretation utf8_locale: utf8_mbrtowc mbrtowc_utf8
proof unfold_locales
  fix a s k
  assume a: "mbrtowc_utf8 (a # s) = MbLen k" "expected_len a = length (a # s)"
  then have "0x80 \<le> ord a" using expected_len_high[of a] by simp
  with a utf8_len_eq[of a "expected_len a" s] show "list_all cont_byte s"
    by (auto simp: mbrtowc_utf8_def split: if_splits)
next
  fix s
  assume "utf8_len s = length s" "s \<noteq> []" "hd s \<noteq> NUL"
  then show "\<exists>k. mbrtowc_utf8 s = MbLen k" by (cases s) (simp_all add: mbrtowc_utf8_def)
qed

lemma json_chars_no_control: "json_chars s \<Longrightarrow> c \<in> set s \<Longrightarrow> 32 \<le> ord c"
proof (induction s rule: length_induct)
  case (1 s)
  then obtain a t where s: "s = a # t" by (cases s) auto
  note j = "1.prems"(1)[unfolded s, unfolded json_chars.simps(2)]
  show ?case
  proof (cases "a = CHR 0x5C")
    case True
    then obtain e es where t: "t = e # es" using j by (cases t) (auto split: if_splits)
    show ?thesis
    proof (cases "e = CHR ''u''")
      case u: True
      then have h: "json_chars (drop 4 es)" "list_all is_hex (take 4 es)"
        using j True by (simp_all add: t)
      have "c \<in> {a, e} \<union> set (take 4 es) \<union> set (drop 4 es)"
        using "1.prems"(2) unfolding s t set_append[symmetric] Un_assoc append_take_drop_id by auto
      moreover have "32 \<le> ord c" if "c \<in> set (take 4 es)"
        using h(2) that by (auto simp: list_all_iff is_hex_def)
      moreover have "32 \<le> ord c" if "c \<in> set (drop 4 es)"
        using "1.IH"[rule_format, OF _ h(1) that] by (simp add: s t)
      ultimately show ?thesis using True u by auto
    next
      case False
      then have "json_chars es" "32 \<le> ord e" using j True by (auto simp: t split: if_splits)
      moreover have "32 \<le> ord c" if "c \<in> set es"
        using "1.IH"[rule_format, OF _ \<open>json_chars es\<close> that] by (simp add: s t)
      ultimately show ?thesis using "1.prems"(2) True by (auto simp: s t)
    qed
  next
    case False
    let ?n = "utf8_len (a # t)"
    have n: "32 \<le> ord a" "0 < ?n" "json_chars (drop ?n (a # t))"
      using j False by (auto simp: Let_def split: if_splits)
    have "c \<in> set (take ?n (a # t)) \<union> set (drop ?n (a # t))"
      using "1.prems"(2) unfolding s set_append[symmetric] append_take_drop_id .
    moreover have "32 \<le> ord c" if "c \<in> set (take ?n (a # t))"
      using that n(1) utf8_len_high[of a c t] by (cases "ord a < 0x80") (auto simp: utf8_len.simps)
    moreover have "length (drop ?n (a # t)) < length s" using n(2) by (simp add: s)
    ultimately show ?thesis using "1.IH" n(3) by blast
  qed
qed

section \<open>Bounded escape\<close>

text \<open>What \<open>json_escape\<close> writes for one character.\<close>

definition esc :: "char \<Rightarrow> bytes" where
  "esc c = (if c = CHR 0x5C \<or> c = CHR 0x22 then [CHR 0x5C, c]
            else if c = CHR 0x0A then [CHR 0x5C, CHR ''n'']
            else if c = CHR 0x09 then [CHR 0x5C, CHR ''t''] else [c])"

abbreviation esc_all :: "bytes \<Rightarrow> bytes" where
  "esc_all s \<equiv> concat (map esc s)"

lemma escape_into_step:
  "2 \<le> n \<Longrightarrow> json_escape_into (c # cs) out n =
     (if c = NUL \<or> \<not> length out + 2 < n then out else json_escape_into cs (out @ esc c) n)"
  by (auto simp: size_sub_def esc_def)

declare json_escape_into.simps(2) [simp del]

lemma length_esc: "1 \<le> length (esc c)" "length (esc c) \<le> 2"
  by (simp_all add: esc_def)

lemma escape_into_greedy:
  assumes "2 \<le> n" "length out < n"
  shows "\<exists>k \<le> length (c_str s). json_escape_into s out n = out @ esc_all (take k (c_str s)) \<and>
    length (json_escape_into s out n) < n \<and>
    (length out + length (esc_all (c_str s)) + 2 \<le> n \<longrightarrow> k = length (c_str s))"
  using assms
proof (induction s arbitrary: out)
  case (Cons c cs)
  show ?case
  proof (cases "c = NUL \<or> \<not> length out + 2 < n")
    case True
    then show ?thesis
      using Cons.prems length_esc(1)[of c] by (auto simp: escape_into_step intro: exI[of _ 0])
  next
    case False
    then have "length (out @ esc c) < n" using length_esc(2)[of c] by simp
    from Cons.IH[OF Cons.prems(1) this] obtain k where "k \<le> length (c_str cs)"
      "json_escape_into cs (out @ esc c) n = (out @ esc c) @ esc_all (take k (c_str cs))"
      "length (json_escape_into cs (out @ esc c) n) < n"
      "length (out @ esc c) + length (esc_all (c_str cs)) + 2 \<le> n \<longrightarrow> k = length (c_str cs)" by blast
    with False Cons.prems show ?thesis
      by (intro exI[of _ "Suc k"]) (simp add: escape_into_step)
  qed
qed auto

lemma unescape_esc: "json_unescape (esc_all s @ t) = map_option ((@) s) (json_unescape t)"
  by (induction s) (auto simp: esc_def option.map_comp comp_def option.map_ident)

lemma json_chars_esc_all:
  "list_all (\<lambda>c. 32 \<le> ord c \<and> ord c < 0x80 \<or> c = CHR 0x0A \<or> c = CHR 0x09) s \<Longrightarrow> json_chars (esc_all s)"
  by (induction s) (auto simp: esc_def)

section \<open>Properties\<close>

text \<open>
  C25: In a UTF-8 locale \<open>validate_utf8_char\<close> returns the length of the RFC 3629 character at the
  front of the buffer, and 0 when there is none: overlong forms, surrogates, code points above
  0x10FFFF, stray continuation bytes and characters cut off by the end of the buffer are rejected.
\<close>

theorem validate_utf8_char_rfc3629:
  assumes "utf8_mbrtowc mb"
  shows "validate_utf8_char mb s (length s) = utf8_len s"
  using assms by (rule utf8_mbrtowc.validate_exact)

theorem validate_utf8_char_rfc3629_witness:
  "validate_utf8_char mbrtowc_utf8 [CHR 0xE2, CHR 0x82, CHR 0xAC] 3 = 3 \<and>
   validate_utf8_char mbrtowc_utf8 [CHR 0xED, CHR 0xA0, CHR 0x80] 3 = 0"
  using validate_utf8_char_rfc3629[OF utf8_locale.utf8_mbrtowc_axioms, of "[CHR 0xE2, CHR 0x82, CHR 0xAC]"]
    validate_utf8_char_rfc3629[OF utf8_locale.utf8_mbrtowc_axioms, of "[CHR 0xED, CHR 0xA0, CHR 0x80]"]
  by (simp add: utf8_len.simps cont_byte_def eval_nat_numeral)

text \<open>
  C23: For any bytes at all, \<open>json_print_escaped\<close> writes the contents of a valid JSON string, with no
  control character in it, so that every event stays on one line of the JSONL stream.
\<close>

theorem json_print_escaped_valid:
  assumes "multibyte mb"
  shows "json_chars (json_print_escaped mb buf len) \<and> (\<forall>c \<in> set (json_print_escaped mb buf len). 32 \<le> ord c)"
  unfolding json_print_escaped_def
  using multibyte.escape_loop_json[OF assms] json_chars_no_control by blast

theorem json_print_escaped_valid_witness:
  "json_chars (json_print_escaped mbrtowc_c [CHR 0x0A, CHR 0x22, CHR 0xFF, CHR 0x00] 4)"
  using json_print_escaped_valid[OF c_locale.multibyte_axioms] by blast

text \<open>
  C24: In a UTF-8 locale, reading the escaped form of a UTF-8 text back gives the text: the escape
  loses nothing, and NUL bytes inside the captured data survive.
\<close>

theorem json_print_escaped_roundtrip:
  assumes "utf8_mbrtowc mb" "utf8_text (take len buf)"
  shows "json_unescape (json_print_escaped mb buf len) = Some (take len buf)"
  using assms utf8_mbrtowc.escape_loop_unescape by (simp add: json_print_escaped_def)

theorem json_print_escaped_roundtrip_witness:
  "json_unescape (json_print_escaped mbrtowc_utf8 [CHR 0x00, CHR 0xE2, CHR 0x82, CHR 0xAC, CHR 0x22] 5) =
     Some [CHR 0x00, CHR 0xE2, CHR 0x82, CHR 0xAC, CHR 0x22]"
  using json_print_escaped_roundtrip[OF utf8_locale.utf8_mbrtowc_axioms,
      of 5 "[CHR 0x00, CHR 0xE2, CHR 0x82, CHR 0xAC, CHR 0x22]"]
  by (simp add: utf8_len.simps cont_byte_def Let_def)

text \<open>
  C26: With a destination of at least two bytes \<open>json_escape\<close> stays inside it, the terminating NUL
  included; what it writes is the escape of a prefix of the source, never half an escape sequence,
  and of the whole source when the escaped form leaves two bytes free.
\<close>

theorem json_escape_bounded:
  assumes "2 \<le> dst_size"
  shows "\<exists>k \<le> length (c_str src). json_unescape (json_escape src dst_size) = Some (take k (c_str src)) \<and>
    length (json_escape src dst_size) + 1 \<le> dst_size \<and>
    (length (esc_all (c_str src)) + 2 \<le> dst_size \<longrightarrow> k = length (c_str src))"
proof -
  obtain k where k: "k \<le> length (c_str src)" "json_escape src dst_size = esc_all (take k (c_str src))"
    "length (json_escape src dst_size) < dst_size"
    "length (esc_all (c_str src)) + 2 \<le> dst_size \<longrightarrow> k = length (c_str src)"
    using escape_into_greedy[of dst_size "[]" src] assms unfolding json_escape_def
    by (metis append_Nil list.size(3) add_0 less_le_trans zero_less_numeral)
  have "json_unescape (json_escape src dst_size) = Some (take k (c_str src))"
    unfolding k(2) using unescape_esc[of "take k (c_str src)" "[]"] by simp
  then show ?thesis using k(1,3,4) by (intro exI[of _ k] conjI) simp_all
qed

theorem json_escape_bounded_witness:
  "length (json_escape (replicate 10 (CHR 0x22)) 8) + 1 \<le> 8"
proof -
  have "(2::nat) \<le> 8" by simp
  from json_escape_bounded[OF this, of "replicate 10 (CHR 0x22)"] show ?thesis by blast
qed

text \<open>
  What \<open>json_escape\<close> writes is a valid JSON string whenever the source is printable ASCII with
  newlines and tabs, and it is not when the source holds another control character such as a
  carriage return, which the streaming escape would have handled.
\<close>

theorem json_escape_validity:
  "(\<forall>src n. 2 \<le> n \<longrightarrow> list_all (\<lambda>c. 32 \<le> ord c \<and> ord c < 0x80 \<or> c = CHR 0x0A \<or> c = CHR 0x09) (c_str src) \<longrightarrow>
      json_chars (json_escape src n)) \<and>
   \<not> json_chars (json_escape [CHR 0x0D, CHR 0x00] 64) \<and>
   json_chars (json_print_escaped mbrtowc_utf8 [CHR 0x0D] 1)"
proof (intro conjI allI impI)
  fix src n
  assume "2 \<le> (n::nat)" and ok: "list_all (\<lambda>c. 32 \<le> ord c \<and> ord c < 0x80 \<or> c = CHR 0x0A \<or> c = CHR 0x09) (c_str src)"
  then obtain k where "json_escape src n = esc_all (take k (c_str src))"
    using escape_into_greedy[of n "[]" src] unfolding json_escape_def by auto
  moreover have "list_all (\<lambda>c. 32 \<le> ord c \<and> ord c < 0x80 \<or> c = CHR 0x0A \<or> c = CHR 0x09) (take k (c_str src))"
    using ok by (auto simp: list_all_iff dest: in_set_takeD)
  ultimately show "json_chars (json_escape src n)" using json_chars_esc_all by simp
next
  show "\<not> json_chars (json_escape [CHR 0x0D, CHR 0x00] 64)"
    by (simp add: json_escape_def escape_into_step esc_def json_chars.simps(2))
  show "json_chars (json_print_escaped mbrtowc_utf8 [CHR 0x0D] 1)"
    using utf8_locale.escape_loop_json by (simp add: json_print_escaped_def)
qed

theorem json_escape_validity_witness:
  "json_chars (json_escape ''ls -la'' 64)"
  using json_escape_validity by (simp add: json_escape_validity[THEN conjunct1, rule_format])

text \<open>
  \<open>validate_utf8_char\<close> ignores the length \<open>mbrtowc\<close> returns. In a single-byte locale, where
  \<open>mbrtowc\<close> accepts any lead byte on its own, a quote after such a byte is copied unescaped and ends
  the JSON string early.
\<close>

theorem json_print_escaped_single_byte_locale:
  "json_print_escaped mbrtowc_single_byte [CHR 0xC3, CHR 0x22] 2 = [CHR 0xC3, CHR 0x22] \<and>
   \<not> json_chars (json_print_escaped mbrtowc_single_byte [CHR 0xC3, CHR 0x22] 2)"
proof -
  have "validate_utf8_char mbrtowc_single_byte [CHR 0xC3, CHR 0x22] (length [CHR 0xC3, CHR 0x22]) = 2"
    by (simp add: validate_utf8_char_def expected_len_range mbrtowc_single_byte_def codepoint2_val)
  from escape_loop_high[OF _ this]
  have "json_print_escaped mbrtowc_single_byte [CHR 0xC3, CHR 0x22] 2 = [CHR 0xC3, CHR 0x22]"
   
    by (simp add: json_print_escaped_def json_escape_loop.simps(1))
  moreover have "\<not> json_chars [CHR 0xC3, CHR 0x22]"
    by (simp add: json_chars.simps(2) utf8_len.simps cont_byte_def)
  ultimately show ?thesis by simp
qed

end
