(* ===== verification/Map_Flush.thy ===== *)
theory Map_Flush
  imports Process_Bpf Jsonl "HOL-Library.Char_ord" "HOL-Library.List_Lexorder" "HOL-Library.Product_Lexorder"
begin

text \<open>
  The userspace half of the aggregation (\<open>bpf/process_ext/map_flush.h\<close>): printing the entries of the
  aggregation map as summary lines, emptying it, flushing the entries of one process, and reporting
  overflow; and the cgroup filter set-up of \<open>bpf/process_ext/userspace.h\<close>. \<open>next_key\<close> is the
  kernel's \<open>bpf_map_get_next_key\<close>, \<open>links\<close> resolves \<open>/proc/<pid>/fd/<fd>\<close>. The loops over a map are
  partial functions: that they end is proved from the laws of \<open>map_iter\<close>.
\<close>

section \<open>The code: map\_flush.h\<close>

definition event_type_name :: "u32 \<Rightarrow> bytes" where
  "event_type_name t =
     (if t = type_code EVENT_TYPE_FILE_DELETE then ''FILE_DELETE''
      else if t = type_code EVENT_TYPE_FILE_RENAME then ''FILE_RENAME''
      else if t = type_code EVENT_TYPE_DIR_CREATE then ''DIR_CREATE''
      else if t = type_code EVENT_TYPE_FILE_TRUNCATE then ''FILE_TRUNCATE''
      else if t = type_code EVENT_TYPE_CHDIR then ''CHDIR''
      else if t = type_code EVENT_TYPE_WRITE then ''WRITE''
      else if t = type_code EVENT_TYPE_NET_BIND then ''NET_BIND''
      else if t = type_code EVENT_TYPE_NET_LISTEN then ''NET_LISTEN''
      else if t = type_code EVENT_TYPE_NET_CONNECT then ''NET_CONNECT''
      else if t = type_code EVENT_TYPE_PGRP_CHANGE then ''PGRP_CHANGE''
      else if t = type_code EVENT_TYPE_SESSION_CREATE then ''SESSION_CREATE''
      else if t = type_code EVENT_TYPE_SIGNAL_SEND then ''SIGNAL_SEND''
      else if t = type_code EVENT_TYPE_PROC_FORK then ''PROC_FORK''
      else if t = type_code EVENT_TYPE_MMAP_SHARED then ''MMAP_SHARED''
      else if t = type_code EVENT_TYPE_COW_FAULT then ''COW_FAULT''
      else ''UNKNOWN'')"

definition parse_fd_detail :: "bytes \<Rightarrow> i32 option" where
  "parse_fd_detail detail =
     (let s = c_str detail in
      if take 3 s \<noteq> ''fd='' then None
      else (case strtol (drop 3 s) of (fd, rest) \<Rightarrow>
          if length rest = length (drop 3 s) \<or> rest \<noteq> [] then None else Some (word_of_int fd)))"

type_synonym link_table = "u32 \<Rightarrow> i32 \<Rightarrow> bytes option"

text \<open>\<open>readlink\<close> fills at most 126 bytes; \<open>None\<close> when it fails or returns nothing.\<close>

definition resolve_fd_path :: "link_table \<Rightarrow> u32 \<Rightarrow> i32 \<Rightarrow> nat \<Rightarrow> bytes option" where
  "resolve_fd_path links pid fd out_size =
     (case links pid fd of
        None \<Rightarrow> None
      | Some target \<Rightarrow>
          if target = [] then None
          else Some (take (out_size - 1) (c_str (take (MAX_FILENAME_LEN - 1) target))))"

definition print_summary_json :: "link_table \<Rightarrow> agg_key \<Rightarrow> agg_value \<Rightarrow> bytes" where
  "print_summary_json links key val =
    ((let extra_esc = json_escape (av_extra val) (MAX_FILENAME_LEN * 2);
          comm_esc = json_escape (av_comm val) (TASK_COMM_LEN * 2);
          is_write = (ak_event_type key = type_code EVENT_TYPE_WRITE);
          parsed_fd = (if is_write then parse_fd_detail (ak_detail key) else None);
          resolved_path = (case parsed_fd of None \<Rightarrow> None | Some fd \<Rightarrow> resolve_fd_path links (ak_pid key) fd MAX_FILENAME_LEN);
          detail_esc = (case resolved_path of
              Some path \<Rightarrow> json_escape path (MAX_FILENAME_LEN * 2)
            | None \<Rightarrow> json_escape (ak_detail key) (MAX_FILENAME_LEN * 2))
      in ''{\"timestamp\":'' @ dec_nat (unat (av_last_ts val)) @ '',\"event\":\"SUMMARY\",'' @
         ''\"comm\":\"'' @ comm_esc @ ''\",\"pid\":'' @ dec_nat (unat (ak_pid key)) @
         '',\"type\":\"'' @ event_type_name (ak_event_type key) @ ''\",\"detail\":\"'' @ detail_esc @
         ''\",\"count\":'' @ dec_nat (unat (av_count val)) @
         (if 0 < av_total_bytes val then '',\"total_bytes\":'' @ dec_nat (unat (av_total_bytes val)) else []) @
         (case parsed_fd of
            Some fd \<Rightarrow> '',\"fd\":'' @ dec_int (sint fd) @
              '',\"path_resolved\":'' @ (if resolved_path \<noteq> None then ''true'' else ''false'')
          | None \<Rightarrow> []) @
         (if extra_esc \<noteq> [] then '',\"extra\":\"'' @ extra_esc @ ''\"'' else []) @
         ''}'') @ [CHR 0x0A])"

type_synonym 'k iter = "('k \<rightharpoonup> agg_value) \<Rightarrow> 'k \<Rightarrow> 'k option"

definition zero_key :: agg_key where
  "zero_key = \<lparr>ak_pid = 0, ak_event_type = 0, ak_detail = zbuf DETAIL_LEN []\<rparr>"

partial_function (option) flush_loop ::
  "agg_key iter \<Rightarrow> link_table \<Rightarrow> (agg_key \<rightharpoonup> agg_value) \<Rightarrow> agg_key \<Rightarrow> bytes \<Rightarrow> ((agg_key \<rightharpoonup> agg_value) \<times> bytes) option" where
  "flush_loop next_key links m key out =
     (case next_key m key of
        None \<Rightarrow> Some (m, out)
      | Some nk \<Rightarrow>
          (case m nk of
             Some val \<Rightarrow>
               if 0 < av_count val
               then flush_loop next_key links (map_delete m nk) nk (out @ print_summary_json links nk val)
               else flush_loop next_key links m nk out
           | None \<Rightarrow> flush_loop next_key links m nk out))"

definition flush_agg_map ::
  "agg_key iter \<Rightarrow> link_table \<Rightarrow> (agg_key \<rightharpoonup> agg_value) \<Rightarrow> ((agg_key \<rightharpoonup> agg_value) \<times> bytes) option" where
  "flush_agg_map next_key links m = flush_loop next_key links m zero_key []"

text \<open>The collecting loop of \<open>flush_pid_from_agg_map\<close>: what it prints and the keys it will delete, at most 256.\<close>

partial_function (option) flush_pid_loop ::
  "agg_key iter \<Rightarrow> link_table \<Rightarrow> u32 \<Rightarrow> (agg_key \<rightharpoonup> agg_value) \<Rightarrow> agg_key \<Rightarrow> bytes \<Rightarrow> agg_key list \<Rightarrow> (bytes \<times> agg_key list) option" where
  "flush_pid_loop next_key links target_pid m key out to_delete =
     (case next_key m key of
        None \<Rightarrow> Some (out, to_delete)
      | Some nk \<Rightarrow>
          if ak_pid nk = target_pid then
            flush_pid_loop next_key links target_pid m nk
              (case m nk of
                 Some val \<Rightarrow> if 0 < av_count val then out @ print_summary_json links nk val else out
               | None \<Rightarrow> out)
              (if length to_delete < 256 then to_delete @ [nk] else to_delete)
          else flush_pid_loop next_key links target_pid m nk out to_delete)"

definition flush_pid_from_agg_map ::
  "agg_key iter \<Rightarrow> link_table \<Rightarrow> u32 \<Rightarrow> (agg_key \<rightharpoonup> agg_value) \<Rightarrow> ((agg_key \<rightharpoonup> agg_value) \<times> bytes) option" where
  "flush_pid_from_agg_map next_key links target_pid m =
     (case flush_pid_loop next_key links target_pid m zero_key [] [] of
        None \<Rightarrow> None
      | Some (out, to_delete) \<Rightarrow> Some (fold (\<lambda>k m. map_delete m k) to_delete m, out))"

text \<open>
  \<open>check_overflow\<close>: the number of possible CPUs, whether the array could be allocated, whether the
  lookup succeeded and the per-CPU counters; the result is the total, the line printed and the
  counters afterwards.
\<close>

definition check_overflow :: "int \<Rightarrow> bool \<Rightarrow> bool \<Rightarrow> (nat \<Rightarrow> u64) \<Rightarrow> u64 \<times> bytes \<times> (nat \<Rightarrow> u64)" where
  "check_overflow num_possible alloc_ok lookup_ok counts =
     (let num_cpus = (if num_possible \<le> 0 then 256 else nat num_possible) in
      if \<not> alloc_ok then (0, [], counts)
      else
        let total = (if lookup_ok then sum_list (map counts [0..<num_cpus]) else 0) in
        if 0 < total then
          (total,
           ''{\"timestamp\":0,\"event\":\"WARNING\",\"comm\":\"\",\"pid\":0,'' @
           ''\"type\":\"AGG_MAP_OVERFLOW\",\"overflow_count\":'' @ dec_nat (unat total) @ ''}'' @ [CHR 0x0A],
           \<lambda>c. if c < num_cpus then 0 else counts c)
        else (total, [], counts))"

section \<open>The code: userspace.h\<close>

text \<open>
  The two clock readings as seconds and nanoseconds (\<open>None\<close> when \<open>clock_gettime\<close> fails) and the
  result of \<open>gmtime_r\<close> and \<open>strftime\<close> for the second one.
\<close>

definition clock_ns :: "u64 \<times> u64 \<Rightarrow> u64" where
  "clock_ns t = fst t * 1000000000 + snd t"

definition pad9 :: "nat \<Rightarrow> bytes" where
  "pad9 n = replicate (9 - length (dec_nat n)) (CHR ''0'') @ dec_nat n"

definition print_clock_sync_anchor ::
  "bytes option \<Rightarrow> (u64 \<times> u64) option \<Rightarrow> (u64 \<times> u64) option \<Rightarrow> bytes option \<Rightarrow> bytes" where
  "print_clock_sync_anchor phase mono_ts real_ts wall_prefix =
     (case (mono_ts, real_ts, wall_prefix) of
        (Some m, Some r, Some w) \<Rightarrow>
          ''{\"timestamp\":'' @ dec_nat (unat (clock_ns m)) @ '',\"event\":\"CLOCK_SYNC\",'' @
          ''\"phase\":\"'' @ (case phase of Some p \<Rightarrow> p | None \<Rightarrow> ''unknown'') @
          ''\",\"mono_ns\":'' @ dec_nat (unat (clock_ns m)) @
          '',\"wall_time_ns\":'' @ dec_nat (unat (clock_ns r)) @
          '',\"wall_time\":\"'' @ w @ ''.'' @ pad9 (unat (snd r)) @ ''Z\"}'' @ [CHR 0x0A]
      | _ \<Rightarrow> [])"

definition normalize_cgroup_path :: "bytes option \<Rightarrow> nat \<Rightarrow> bytes option" where
  "normalize_cgroup_path input output_len =
     (case input of
        None \<Rightarrow> None
      | Some p \<Rightarrow>
          if p = [] \<or> output_len = 0 then None
          else if take 14 p = ''/sys/fs/cgroup'' then Some (take (output_len - 1) p)
          else if hd p = CHR ''/'' then Some (take (output_len - 1) (''/sys/fs/cgroup'' @ p))
          else Some (take (output_len - 1) (''/sys/fs/cgroup/'' @ p)))"

text \<open>The file system: \<open>stat\<close> gives the inode and whether it is a directory, \<open>readdir\<close> the entries or the error number.\<close>

record cgroup_fs =
  fs_stat :: "bytes \<Rightarrow> (u64 \<times> bool) option"
  fs_readdir :: "bytes \<Rightarrow> int + bytes list"

definition resolve_cgroup_id_from_path :: "cgroup_fs \<Rightarrow> bytes option \<Rightarrow> u64 option" where
  "resolve_cgroup_id_from_path fs cgroup_path =
     (case normalize_cgroup_path cgroup_path 512 of
        None \<Rightarrow> None
      | Some normalized \<Rightarrow> map_option fst (fs_stat fs normalized))"

partial_function (option) clear_loop :: "((u64 \<rightharpoonup> u8) \<Rightarrow> u64 \<Rightarrow> u64 option) \<Rightarrow> (u64 \<rightharpoonup> u8) \<Rightarrow> u64 \<Rightarrow> (u64 \<rightharpoonup> u8) option" where
  "clear_loop next_key m k =
     (case next_key (map_delete m k) k of
        None \<Rightarrow> Some (map_delete m k)
      | Some nk \<Rightarrow> clear_loop next_key (map_delete m k) nk)"

definition clear_u64_set_map ::
  "((u64 \<rightharpoonup> u8) \<Rightarrow> u64 \<Rightarrow> u64 option) \<Rightarrow> ((u64 \<rightharpoonup> u8) \<Rightarrow> u64 option) \<Rightarrow> bool \<Rightarrow> (u64 \<rightharpoonup> u8) \<Rightarrow> (u64 \<rightharpoonup> u8) option" where
  "clear_u64_set_map next_key first_key valid_fd m =
     (if \<not> valid_fd then Some m
      else case first_key m of None \<Rightarrow> Some m | Some k \<Rightarrow> clear_loop next_key m k)"

text \<open>\<open>accepts m\<close>: the kernel has room for a new element. The result is the flag, the map and the count.\<close>

definition add_cgroup_path_inode_to_map ::
  "cgroup_fs \<Rightarrow> ((u64 \<rightharpoonup> u8) \<Rightarrow> bool) \<Rightarrow> bytes \<Rightarrow> (u64 \<rightharpoonup> u8) \<Rightarrow> nat \<Rightarrow> bool \<times> (u64 \<rightharpoonup> u8) \<times> nat" where
  "add_cgroup_path_inode_to_map fs accepts path m added =
     (case fs_stat fs path of
        None \<Rightarrow> (False, m, added)
      | Some (ino, is_dir) \<Rightarrow>
          if \<not> is_dir then (False, m, added)
          else (case map_update (accepts m) m ino 1 BPF_ANY of (ok, m') \<Rightarrow>
              if ok then (True, m', added + 1) else (False, m, added)))"

text \<open>
  \<open>add_descendant_cgroup_ids\<close> and its loop over the directory entries. A child whose path does not
  fit 1024 bytes is skipped, so the recursion ends.
\<close>

function add_descendant_cgroup_ids ::
    "cgroup_fs \<Rightarrow> ((u64 \<rightharpoonup> u8) \<Rightarrow> bool) \<Rightarrow> bytes \<Rightarrow> (u64 \<rightharpoonup> u8) \<times> nat \<Rightarrow> int \<times> (u64 \<rightharpoonup> u8) \<times> nat"
  and descend_entries ::
    "cgroup_fs \<Rightarrow> ((u64 \<rightharpoonup> u8) \<Rightarrow> bool) \<Rightarrow> bytes \<Rightarrow> bytes list \<Rightarrow> (u64 \<rightharpoonup> u8) \<times> nat \<Rightarrow> (u64 \<rightharpoonup> u8) \<times> nat" where
  "add_descendant_cgroup_ids fs accepts root ma =
     (case fs_readdir fs root of
        Inl errno \<Rightarrow> (- errno, ma)
      | Inr entries \<Rightarrow> (0, descend_entries fs accepts root entries ma))"
| "descend_entries fs accepts root [] ma = ma"
| "descend_entries fs accepts root (name # names) ma =
     (if name = ''.'' \<or> name = ''..'' then descend_entries fs accepts root names ma
      else
        let child = root @ CHR ''/'' # name in
        if 1024 \<le> length child then descend_entries fs accepts root names ma
        else (case fs_stat fs child of
            None \<Rightarrow> descend_entries fs accepts root names ma
          | Some (ino, is_dir) \<Rightarrow>
              if \<not> is_dir then descend_entries fs accepts root names ma
              else
                let (_, ma1) = add_cgroup_path_inode_to_map fs accepts child (fst ma) (snd ma);
                    (_, ma2) = add_descendant_cgroup_ids fs accepts child ma1
                in descend_entries fs accepts root names ma2))"
  by pat_completeness auto
termination
  by (relation "measures [\<lambda>x. case x of Inl (_, _, root, _) \<Rightarrow> 2 * (1024 - length root) + 1
       | Inr (_, _, root, names, _) \<Rightarrow> 2 * (1024 - length root),
     \<lambda>x. case x of Inl _ \<Rightarrow> 0 | Inr (_, _, _, names, _) \<Rightarrow> length names]") auto

definition populate_cgroup_filter_map ::
  "cgroup_fs \<Rightarrow> ((u64 \<rightharpoonup> u8) \<Rightarrow> u64 \<Rightarrow> u64 option) \<Rightarrow> ((u64 \<rightharpoonup> u8) \<Rightarrow> u64 option) \<Rightarrow> ((u64 \<rightharpoonup> u8) \<Rightarrow> bool) \<Rightarrow>
   bytes option \<Rightarrow> bool \<Rightarrow> bool \<Rightarrow> (u64 \<rightharpoonup> u8) \<Rightarrow> (int \<times> (u64 \<rightharpoonup> u8)) option" where
  "populate_cgroup_filter_map fs next_key first_key accepts cgroup_path include_children valid_fd m =
     (if \<not> valid_fd then Some (-22, m)
      else case normalize_cgroup_path cgroup_path 512 of
          None \<Rightarrow> Some (-22, m)
        | Some normalized \<Rightarrow>
            (case clear_u64_set_map next_key first_key valid_fd m of
               None \<Rightarrow> None
             | Some m0 \<Rightarrow>
                 (case add_cgroup_path_inode_to_map fs accepts normalized m0 0 of (ok, m1, added) \<Rightarrow>
                    if \<not> ok then Some (-2, m1)
                    else if include_children then
                      (case add_descendant_cgroup_ids fs accepts normalized (m1, added) of (rc, m2, added2) \<Rightarrow>
                         if rc < 0 then Some (rc, m2) else Some (int added2, m2))
                    else Some (int added, m1))))"

section \<open>Emptying a map\<close>

declare flush_loop.simps [code] flush_pid_loop.simps [code] clear_loop.simps [code]

context map_iter
begin

lemma keys_step:
  assumes "finite (dom m)" "keys m = k # ks"
  shows "m k \<noteq> None" "keys (m(k := None)) = ks" "finite (dom (m(k := None)))"
proof -
  show "m k \<noteq> None" using keys_dom[OF assms(1)] assms(2) by (metis domIff list.set_intros(1))
  have "k \<notin> set ks" using keys_distinct[of m] assms(2) by simp
  then show "keys (m(k := None)) = ks"
    using keys_delete[OF assms(1), of k] assms(2) by (auto simp: filter_id_conv)
  show "finite (dom (m(k := None)))" using assms(1) by simp
qed

lemma keys_Nil: "finite (dom m) \<Longrightarrow> keys m = [] \<Longrightarrow> m = Map.empty"
  using keys_dom[of m] by (metis dom_eq_empty_conv list.set(1))

lemma next_at:
  assumes fin: "finite (dom m)" and key: "keys m = xs @ ys" "if xs = [] then m key = None else key = last xs"
  shows "next_key m key = (case ys of [] \<Rightarrow> None | y # _ \<Rightarrow> Some y)"
proof (cases "xs = []")
  case True
  then show ?thesis using key next_absent[OF fin] by simp
next
  case False
  then have k: "keys m = butlast xs @ key # ys" using key by simp
  then have "m key \<noteq> None" using keys_dom[OF fin] by (metis domIff in_set_conv_decomp)
  with k show ?thesis
    using next_present[OF fin] next_in_mid[of "butlast xs" key ys] keys_distinct[of m] by simp
qed

end

lemma filter_drop: "y \<notin> set xs \<Longrightarrow> filter (\<lambda>x. x \<noteq> y) xs = xs"
  by (induction xs) auto

text \<open>
  The flush deletes the entries it prints and keeps those whose count is 0. After a deletion the
  walk starts again from the first key.
\<close>

abbreviation positive :: "('k \<rightharpoonup> agg_value) \<Rightarrow> 'k \<Rightarrow> bool" where
  "positive m k \<equiv> 0 < av_count (the (m k))"

definition summaries :: "link_table \<Rightarrow> (agg_key \<rightharpoonup> agg_value) \<Rightarrow> agg_key list \<Rightarrow> bytes" where
  "summaries links m ks = concat (map (\<lambda>k. print_summary_json links k (the (m k))) (filter (positive m) ks))"

lemma summaries_Cons:
  "summaries links m (k # ks) = (if positive m k then print_summary_json links k (the (m k)) else []) @ summaries links m ks"
  by (simp add: summaries_def)

lemma summaries_append: "summaries links m (xs @ ys) = summaries links m xs @ summaries links m ys"
  by (simp add: summaries_def)

lemma summaries_none: "filter (positive m) xs = [] \<Longrightarrow> summaries links m xs = []"
  by (simp add: summaries_def)

lemma summaries_upd: "k \<notin> set ks \<Longrightarrow> summaries links (m(k := v)) ks = summaries links m ks"
  unfolding summaries_def by (intro arg_cong[where f = concat] map_cong filter_cong) auto

definition unflushed :: "(agg_key \<rightharpoonup> agg_value) \<Rightarrow> agg_key \<rightharpoonup> agg_value" where
  "unflushed m = (\<lambda>k. if m k \<noteq> None \<and> positive m k then None else m k)"

lemma unflushed_upd: "positive m k \<Longrightarrow> unflushed (m(k := None)) = unflushed m"
  by (auto simp: unflushed_def)

lemma unflushed_same:
  assumes "finite (dom m)" "map_iter next_key keys" "filter (positive m) (keys m) = []"
  shows "unflushed m = m"
proof
  fix k
  show "unflushed m k = m k"
    using assms(3) map_iter.keys_dom[OF assms(2,1)] by (auto simp: unflushed_def filter_empty_conv)
qed

lemma flush_loop_from:
  assumes it: "map_iter next_key keys"
  shows "finite (dom m) \<Longrightarrow> keys m = xs @ ys \<Longrightarrow> (if xs = [] then m key = None else key = last xs) \<Longrightarrow>
    filter (positive m) xs = [] \<Longrightarrow> length (filter (positive m) ys) = n \<Longrightarrow>
    flush_loop next_key links m key out = Some (unflushed m, out @ summaries links m ys)"
proof (induction n arbitrary: m xs ys key out rule: less_induct)
  case (less n)
  note outer = less.IH
  show ?case using less.prems
  proof (induction ys arbitrary: xs key out)
    case Nil
    then have "next_key m key = None" "unflushed m = m"
      using map_iter.next_at[OF it Nil.prems(1-3)] unflushed_same[OF Nil.prems(1) it] by simp_all
    then show ?case by (subst flush_loop.simps) (simp add: summaries_def)
  next
    case (Cons y ys)
    have nk: "next_key m key = Some y" using map_iter.next_at[OF it Cons.prems(1-3)] by simp
    obtain v where v: "m y = Some v"
      using map_iter.keys_dom[OF it Cons.prems(1)] Cons.prems(2) by (metis domD in_set_conv_decomp)
    show ?case
    proof (cases "0 < av_count v")
      case True
      let ?m = "m(y := None)"
      have y: "y \<notin> set xs" "y \<notin> set ys"
        using map_iter.keys_distinct[OF it, of m] Cons.prems(2) by auto
      have k': "keys ?m = [] @ (xs @ ys)"
        using map_iter.keys_delete[OF it Cons.prems(1), of y] Cons.prems(2) filter_drop[OF y(1)] filter_drop[OF y(2)] by simp
      have pos: "filter (positive ?m) zs = filter (positive m) zs" if "y \<notin> set zs" for zs
        using that by (intro filter_cong) auto
      have fin: "finite (dom ?m)" and yk: "if [] = [] then ?m y = None else y = last []"
        using Cons.prems(1) by simp_all
      have "filter (positive ?m) (xs @ ys) = filter (positive m) ys"
        using Cons.prems(4) by (simp only: filter_append pos[OF y(1)] pos[OF y(2)] append_Nil)
      then have len: "length (filter (positive ?m) (xs @ ys)) < n" using Cons.prems(5) True v by auto
      have "flush_loop next_key links ?m y (out @ print_summary_json links y v) =
          Some (unflushed ?m, (out @ print_summary_json links y v) @ summaries links ?m (xs @ ys))"
        by (rule outer[OF len fin k' yk _ refl]) simp
      moreover have "summaries links ?m (xs @ ys) = summaries links m ys"
        using Cons.prems(4) y by (simp add: summaries_append summaries_upd summaries_none)
      moreover have "unflushed ?m = unflushed m" using v True by (intro unflushed_upd) simp
      ultimately show ?thesis
        using nk v True by (subst flush_loop.simps) (simp add: map_delete_def summaries_Cons)
    next
      case False
      then show ?thesis
        using nk v Cons.IH[of "xs @ [y]" y out] Cons.prems
        by (subst flush_loop.simps) (simp add: summaries_Cons)
    qed
  qed
qed

lemma flush_agg_map_eq:
  "map_iter next_key keys \<Longrightarrow> finite (dom m) \<Longrightarrow> m zero_key = None \<Longrightarrow>
     flush_agg_map next_key links m = Some (unflushed m, summaries links m (keys m))"
  using flush_loop_from[of next_key keys m "[]" "keys m" zero_key _ links "[]"] by (simp add: flush_agg_map_def)

text \<open>Walking a map without changing it visits the keys after \<open>key\<close> in order.\<close>

lemma flush_pid_loop_from:
  assumes it: "map_iter next_key keys" and fin: "finite (dom m)"
    and key: "keys m = xs @ ys" "if xs = [] then m key = None else key = last xs"
  shows "flush_pid_loop next_key links p m key out del =
    Some (out @ concat (map (\<lambda>k. if 0 < av_count (the (m k)) then print_summary_json links k (the (m k)) else [])
                         (filter (\<lambda>k. ak_pid k = p) ys)),
          take (max 256 (length del)) (del @ filter (\<lambda>k. ak_pid k = p) ys))"
  using key
proof (induction ys arbitrary: xs key out del)
  case Nil
  then have "next_key m key = None" using map_iter.next_at[OF it fin Nil.prems] by simp
  then show ?case by (subst flush_pid_loop.simps) simp
next
  case (Cons y ys)
  have nk: "next_key m key = Some y" using map_iter.next_at[OF it fin Cons.prems] by simp
  have "m y \<noteq> None" using map_iter.keys_dom[OF it fin] Cons.prems(1) by (metis domIff in_set_conv_decomp)
  then obtain v where v: "m y = Some v" by blast
  note ih = Cons.IH[of "xs @ [y]" y]
  show ?case
  proof (cases "ak_pid y = p")
    case True
    let ?out = "if 0 < av_count v then out @ print_summary_json links y v else out"
    let ?del = "if length del < 256 then del @ [y] else del"
    have "take (max 256 (length ?del)) (?del @ zs) = take (max 256 (length del)) (del @ y # zs)" for zs
    proof (cases "length del < 256")
      case True
      then have "take (256 - length del) (y # zs) = y # take (255 - length del) zs"
        by (subst take_Cons') simp
      with True show ?thesis by (simp add: max_def)
    qed (simp add: max_def)
    then show ?thesis
      using nk v ih[of ?out ?del] True Cons.prems by (subst flush_pid_loop.simps) simp
  next
    case False
    then show ?thesis using nk ih Cons.prems by (subst flush_pid_loop.simps) simp
  qed
qed

lemma flush_pid_from_agg_map_eq:
  assumes "map_iter next_key keys" "finite (dom m)" "m zero_key = None"
  shows "flush_pid_from_agg_map next_key links p m =
    Some (\<lambda>k. if k \<in> set (take 256 (filter (\<lambda>k. ak_pid k = p) (keys m))) then None else m k,
      concat (map (\<lambda>k. if 0 < av_count (the (m k)) then print_summary_json links k (the (m k)) else [])
        (filter (\<lambda>k. ak_pid k = p) (keys m))))"
proof -
  have "fold (\<lambda>k m. map_delete m k) ks m0 = (\<lambda>k. if k \<in> set ks then None else m0 k)" for ks and m0 :: "agg_key \<rightharpoonup> agg_value"
    by (induction ks arbitrary: m0) (auto simp: map_delete_def fun_eq_iff)
  then show ?thesis
    using flush_pid_loop_from[OF assms(1,2), of "[]" "keys m" zero_key links p "[]" "[]"] assms(3)
    by (simp add: flush_pid_from_agg_map_def)
qed

lemma clear_loop_all:
  assumes it: "map_iter next_key keys"
  shows "finite (dom m) \<Longrightarrow> keys m = k # ks \<Longrightarrow> clear_loop next_key m k = Some Map.empty"
proof (induction ks arbitrary: m k)
  case Nil
  note st = map_iter.keys_step[OF it Nil]
  then have "m(k := None) = Map.empty" using map_iter.keys_Nil[OF it] by blast
  moreover have "next_key (m(k := None)) k = None" using map_iter.next_absent[OF it st(3), of k] st(2) by simp
  ultimately show ?case by (subst clear_loop.simps) (simp add: map_delete_def)
next
  case (Cons k' ks)
  note st = map_iter.keys_step[OF it Cons.prems]
  have "next_key (m(k := None)) k = Some k'" using map_iter.next_absent[OF it st(3), of k] st(2) by simp
  moreover have "clear_loop next_key (m(k := None)) k' = Some Map.empty" by (rule Cons.IH[OF st(3,2)])
  ultimately show ?case by (subst clear_loop.simps) (simp add: map_delete_def)
qed

section \<open>An iteration order\<close>

text \<open>Sorted order of an injective encoding of the keys, and the next key in it.\<close>

definition sorted_keys :: "('k \<Rightarrow> 'o::linorder) \<Rightarrow> ('k \<rightharpoonup> 'v) \<Rightarrow> 'k list" where
  "sorted_keys f m = map (the_inv_into UNIV f) (sorted_list_of_set (f ` dom m))"

definition sorted_next :: "('k \<Rightarrow> 'o::linorder) \<Rightarrow> ('k \<rightharpoonup> 'v) \<Rightarrow> 'k \<Rightarrow> 'k option" where
  "sorted_next f m k =
     (if m k = None then (case sorted_keys f m of [] \<Rightarrow> None | x # _ \<Rightarrow> Some x) else next_in k (sorted_keys f m))"

lemma sorted_keys_iter:
  fixes f :: "'k \<Rightarrow> 'o::linorder"
  assumes f: "inj f"
  shows "map_iter (sorted_next f) (sorted_keys f :: ('k \<rightharpoonup> 'v) \<Rightarrow> 'k list)"
proof unfold_locales
  note inv = the_inv_into_f_f[OF f UNIV_I]
  fix m :: "'k \<rightharpoonup> 'v" and k
  show "set (sorted_keys f m) = dom m" if "finite (dom m)"
    using that by (simp add: sorted_keys_def image_image inv)
  show "distinct (sorted_keys f m)"
  proof (cases "finite (f ` dom m)")
    case True
    then have "inj_on (the_inv_into UNIV f) (set (sorted_list_of_set (f ` dom m)))"
      by (auto simp: inj_on_def inv)
    then show ?thesis by (simp add: sorted_keys_def distinct_map)
  qed (simp add: sorted_keys_def)
  show "sorted_keys f (m(k := None)) = filter (\<lambda>x. x \<noteq> k) (sorted_keys f m)" if fin: "finite (dom m)"
  proof -
    have "f ` dom (m(k := None)) = f ` dom m - {f k}" using f by (auto simp: inj_def)
    then have "sorted_list_of_set (f ` dom (m(k := None))) = remove1 (f k) (sorted_list_of_set (f ` dom m))"
      using fin by (simp add: sorted_list_of_set_remove)
    also have "\<dots> = filter (\<lambda>x. x \<noteq> f k) (sorted_list_of_set (f ` dom m))"
      by (simp add: distinct_remove1_removeAll removeAll_filter_not_eq eq_commute)
    finally show ?thesis
      using fin by (auto simp: sorted_keys_def filter_map comp_def inv intro!: arg_cong[of _ _ "map _"] filter_cong)
  qed
  show "sorted_next f m k = (case sorted_keys f m of [] \<Rightarrow> None | x # _ \<Rightarrow> Some x)" if "finite (dom m)" "m k = None"
    using that by (simp add: sorted_next_def)
  show "sorted_next f m k = next_in k (sorted_keys f m)" if "finite (dom m)" "m k \<noteq> None"
    using that by (auto simp: sorted_next_def)
qed

text \<open>The order of the aggregation keys by process, type and detail, and of cgroup identifiers.\<close>

definition key_code :: "agg_key \<Rightarrow> u32 \<times> u32 \<times> bytes" where
  "key_code k = (ak_pid k, ak_event_type k, ak_detail k)"

interpretation agg_iter: map_iter "sorted_next key_code" "sorted_keys key_code :: (agg_key \<rightharpoonup> agg_value) \<Rightarrow> agg_key list"
  by (rule sorted_keys_iter) (auto simp: inj_def key_code_def)

interpretation cgroup_iter: map_iter "sorted_next (\<lambda>k. k)" "sorted_keys (\<lambda>k. k) :: (u64 \<rightharpoonup> u8) \<Rightarrow> u64 list"
  by (rule sorted_keys_iter) simp

section \<open>Descendant cgroups\<close>

definition valid_child :: "cgroup_fs \<Rightarrow> bytes \<Rightarrow> bytes \<Rightarrow> bool" where
  "valid_child fs root name \<longleftrightarrow> name \<noteq> ''.'' \<and> name \<noteq> ''..'' \<and> length (root @ CHR ''/'' # name) < 1024 \<and>
     (\<exists>ino. fs_stat fs (root @ CHR ''/'' # name) = Some (ino, True))"

inductive cg_desc :: "cgroup_fs \<Rightarrow> bytes \<Rightarrow> bytes \<Rightarrow> bool" for fs where
  desc_child: "fs_readdir fs root = Inr names \<Longrightarrow> name \<in> set names \<Longrightarrow> valid_child fs root name \<Longrightarrow>
     cg_desc fs root (root @ CHR ''/'' # name)"
| desc_deep: "fs_readdir fs root = Inr names \<Longrightarrow> name \<in> set names \<Longrightarrow> valid_child fs root name \<Longrightarrow>
     cg_desc fs (root @ CHR ''/'' # name) c \<Longrightarrow> cg_desc fs root c"

inductive_simps cg_desc_iff: "cg_desc fs root c"

definition inode_of :: "cgroup_fs \<Rightarrow> bytes \<Rightarrow> u64" where
  "inode_of fs p = fst (the (fs_stat fs p))"

lemma add_inode_dom:
  assumes "\<And>m. accepts m" "fs_stat fs path = Some (ino, True)"
  shows "add_cgroup_path_inode_to_map fs accepts path m n = (True, m(ino \<mapsto> 1), n + 1)"
  using assms by (simp add: add_cgroup_path_inode_to_map_def map_update_def split: option.splits)

lemma descend_entries_dom:
  assumes acc: "\<And>m. accepts m"
    and sub: "\<And>child ma. length root < length child \<Longrightarrow> length child < 1024 \<Longrightarrow>
      dom (fst (snd (add_descendant_cgroup_ids fs accepts child ma))) = dom (fst ma) \<union> inode_of fs ` {c. cg_desc fs child c}"
  shows "dom (fst (descend_entries fs accepts root names ma)) = dom (fst ma) \<union>
      inode_of fs ` {c. \<exists>name\<in>set names. valid_child fs root name \<and>
        (c = root @ CHR ''/'' # name \<or> cg_desc fs (root @ CHR ''/'' # name) c)}"
proof (induction names arbitrary: ma)
  case (Cons name names)
  let ?child = "root @ CHR ''/'' # name"
  show ?case
  proof (cases "valid_child fs root name")
    case True
    then obtain ino where ino: "fs_stat fs ?child = Some (ino, True)" by (auto simp: valid_child_def)
    let ?ma1 = "((fst ma)(ino \<mapsto> 1), snd ma + 1)"
    let ?ma2 = "snd (add_descendant_cgroup_ids fs accepts ?child ?ma1)"
    have add: "add_cgroup_path_inode_to_map fs accepts ?child (fst ma) (snd ma) = (True, ?ma1)"
      by (rule add_inode_dom[OF acc ino])
    have eq: "descend_entries fs accepts root (name # names) ma = descend_entries fs accepts root names ?ma2"
      using True ino add by (simp add: valid_child_def Let_def case_prod_beta)
    have "dom (fst ?ma2) = insert ino (dom (fst ma)) \<union> inode_of fs ` {c. cg_desc fs ?child c}"
      using sub[of ?child ?ma1] True by (simp add: valid_child_def)
    moreover have "inode_of fs ?child = ino" using ino by (simp add: inode_of_def)
    ultimately show ?thesis unfolding eq Cons using True by auto
  next
    case False
    then have eq: "descend_entries fs accepts root (name # names) ma = descend_entries fs accepts root names ma"
      by (auto simp: valid_child_def Let_def split: option.splits)
    show ?thesis unfolding eq Cons using False by auto
  qed
qed simp

lemma add_descendant_dom:
  assumes acc: "\<And>m. accepts m"
  shows "dom (fst (snd (add_descendant_cgroup_ids fs accepts root ma))) = dom (fst ma) \<union> inode_of fs ` {c. cg_desc fs root c}"
proof (induction "1024 - length root" arbitrary: root ma rule: less_induct)
  case less
  show ?case
  proof (cases "fs_readdir fs root")
    case (Inl e)
    then have "\<not> cg_desc fs root c" for c by (subst cg_desc_iff) simp
    with Inl show ?thesis by auto
  next
    case (Inr entries)
    then have d: "cg_desc fs root c \<longleftrightarrow> (\<exists>name\<in>set entries. valid_child fs root name \<and>
        (c = root @ CHR ''/'' # name \<or> cg_desc fs (root @ CHR ''/'' # name) c))" for c
      by (subst cg_desc_iff) auto
    have "dom (fst (descend_entries fs accepts root entries ma)) = dom (fst ma) \<union>
        inode_of fs ` {c. \<exists>name\<in>set entries. valid_child fs root name \<and>
          (c = root @ CHR ''/'' # name \<or> cg_desc fs (root @ CHR ''/'' # name) c)}"
      by (rule descend_entries_dom[OF acc less]) simp
    moreover have "{c. cg_desc fs root c} = {c. \<exists>name\<in>set entries. valid_child fs root name \<and>
          (c = root @ CHR ''/'' # name \<or> cg_desc fs (root @ CHR ''/'' # name) c)}"
      using d by blast
    ultimately show ?thesis using Inr by (simp only: add_descendant_cgroup_ids.simps sum.case snd_conv)
  qed
qed

text \<open>Without any assumption on the kernel's capacity the map stays finite and the call returns.\<close>

lemma add_inode_finite:
  "finite (dom m) \<Longrightarrow> finite (dom (fst (snd (add_cgroup_path_inode_to_map fs accepts path m n))))"
  using map_update_finite[of m "accepts m" _ 1 BPF_ANY]
  by (auto simp: add_cgroup_path_inode_to_map_def split: option.splits prod.splits)

lemma descend_finite:
  "finite (dom (fst ma)) \<Longrightarrow> finite (dom (fst (snd (add_descendant_cgroup_ids fs accepts root ma))))"
  "finite (dom (fst ma)) \<Longrightarrow> finite (dom (fst (descend_entries fs accepts root names ma)))"
proof (induction fs accepts root ma and fs accepts root names ma rule: add_descendant_cgroup_ids_descend_entries.induct)
  case (3 fs accepts root name names ma)
  then show ?case
    using add_inode_finite[of "fst ma" fs accepts "root @ CHR ''/'' # name" "snd ma"]
    by (auto simp: Let_def case_prod_beta split: option.splits if_splits)
qed (auto split: sum.splits)

lemma clear_u64_set_map_eq:
  assumes "map_iter next_key keys" "\<And>m. first_key m = (case keys m of [] \<Rightarrow> None | x # _ \<Rightarrow> Some x)" "finite (dom m)"
  shows "clear_u64_set_map next_key first_key True m = Some Map.empty"
proof (cases "keys m")
  case Nil
  then show ?thesis
    using assms(2)[of m] map_iter.keys_Nil[OF assms(1,3) Nil] by (simp add: clear_u64_set_map_def)
next
  case (Cons k ks)
  then show ?thesis using clear_loop_all[OF assms(1,3) Cons] assms(2)[of m] by (simp add: clear_u64_set_map_def)
qed

lemma populate_returns:
  assumes "map_iter next_key keys" "\<And>m. first_key m = (case keys m of [] \<Rightarrow> None | x # _ \<Rightarrow> Some x)" "finite (dom m)"
  shows "\<exists>n m'. populate_cgroup_filter_map fs next_key first_key accepts path children ok m = Some (n, m') \<and> finite (dom m')"
proof (cases "ok \<and> normalize_cgroup_path path 512 \<noteq> None")
  case True
  then obtain root where root: "normalize_cgroup_path path 512 = Some root" by blast
  obtain b m1 n1 where add: "add_cgroup_path_inode_to_map fs accepts root Map.empty 0 = (b, m1, n1)"
    by (cases "add_cgroup_path_inode_to_map fs accepts root Map.empty 0")
  then have fin: "finite (dom m1)" using add_inode_finite[of Map.empty fs accepts root 0] by simp
  obtain rc m2 n2 where d: "add_descendant_cgroup_ids fs accepts root (m1, n1) = (rc, m2, n2)"
    by (cases "add_descendant_cgroup_ids fs accepts root (m1, n1)")
  have "finite (dom m2)" using descend_finite(1)[of "(m1, n1)" fs accepts root] fin d by simp
  then show ?thesis
    using True root add d fin clear_u64_set_map_eq[OF assms] by (simp add: populate_cgroup_filter_map_def)
qed (use assms(3) in \<open>auto simp: populate_cgroup_filter_map_def\<close>)

section \<open>Output lines\<close>

lemma esc_no_newline: "CHR 0x0A \<notin> set (esc c)"
  by (simp add: esc_def)

lemma json_escape_no_newline: "2 \<le> n \<Longrightarrow> CHR 0x0A \<notin> set (json_escape src n)"
proof -
  assume "2 \<le> n"
  then obtain k where "json_escape src n = esc_all (take k (c_str src))"
    using escape_into_greedy[of n "[]" src] by (auto simp: json_escape_def)
  then show ?thesis using esc_no_newline by auto
qed

lemma dec_no_newline: "CHR 0x0A \<notin> set (dec_nat n)" "CHR 0x0A \<notin> set (dec_int i)"
  using dec_nat_ascii[of "CHR 0x0A"] by (auto simp: dec_int_def)

lemma type_name_no_newline: "CHR 0x0A \<notin> set (event_type_name t)"
  by (simp add: event_type_name_def)

section \<open>Properties\<close>

text \<open>
  C36: Flushing the aggregation map ends, prints one summary line for every entry with a positive
  count, none twice, and deletes exactly those entries, whatever order the kernel walks the keys in.
\<close>

theorem flush_agg_map_complete:
  assumes "map_iter next_key keys" "finite (dom m)" "m zero_key = None"
  shows "flush_agg_map next_key links m =
      Some (\<lambda>k. if m k \<noteq> None \<and> 0 < av_count (the (m k)) then None else m k,
            concat (map (\<lambda>k. print_summary_json links k (the (m k))) (filter (\<lambda>k. 0 < av_count (the (m k))) (keys m)))) \<and>
    distinct (keys m) \<and> set (keys m) = dom m"
  using flush_agg_map_eq[OF assms, of links] map_iter.keys_distinct[OF assms(1)] map_iter.keys_dom[OF assms(1,2)]
  by (simp add: unflushed_def summaries_def)

theorem flush_agg_map_complete_witness:
  "\<exists>out. flush_agg_map (sorted_next key_code) (\<lambda>_ _. None)
     [write_key sample_env 3 \<mapsto> \<lparr>av_count = 2, av_total_bytes = 9, av_first_ts = 1, av_last_ts = 2, av_comm = [], av_extra = []\<rparr>] =
     Some (Map.empty, out)"
proof -
  let ?m = "[write_key sample_env 3 \<mapsto> \<lparr>av_count = 2, av_total_bytes = 9, av_first_ts = 1, av_last_ts = 2, av_comm = [], av_extra = []\<rparr>]"
  have m: "finite (dom ?m)" "?m zero_key = None"
    by (auto simp: write_key_def zero_key_def split: if_splits)
  have "(\<lambda>k. if ?m k \<noteq> None \<and> 0 < av_count (the (?m k)) then None else ?m k) = Map.empty" by (rule ext) simp
  with flush_agg_map_complete[OF agg_iter.map_iter_axioms m, of "\<lambda>_ _. None"] show ?thesis by (simp only:) blast
qed

text \<open>
  C37: Flushing one process prints every entry of that process with a positive count and deletes exactly
  the first 256 entries of the process in the order of the walk, and no other entry: all of them when
  there are at most 256, and otherwise 256 of them, so that the others, printed or not, stay in the map
  for a later flush.
\<close>

theorem flush_pid_complete:
  assumes "map_iter next_key keys" "finite (dom m)" "m zero_key = None"
    and "own = {k\<in>dom m. ak_pid k = p}"
  shows "\<exists>m' out gone. flush_pid_from_agg_map next_key links p m = Some (m', out) \<and>
    out = concat (map (\<lambda>k. if 0 < av_count (the (m k)) then print_summary_json links k (the (m k)) else [])
                   (filter (\<lambda>k. ak_pid k = p) (keys m))) \<and>
    set (filter (\<lambda>k. ak_pid k = p) (keys m)) = own \<and> distinct (keys m) \<and>
    m' = (\<lambda>k. if k \<in> gone then None else m k) \<and>
    gone = set (take 256 (filter (\<lambda>k. ak_pid k = p) (keys m))) \<and> gone \<subseteq> own \<and> card gone = min 256 (card own) \<and>
    (card own \<le> 256 \<longrightarrow> gone = own)"
proof -
  let ?ks = "filter (\<lambda>k. ak_pid k = p) (keys m)"
  have ks: "distinct ?ks" "set ?ks = own" "distinct (keys m)"
    using map_iter.keys_distinct[OF assms(1)] map_iter.keys_dom[OF assms(1,2)] assms(4) by auto
  then have len: "card own = length ?ks" using distinct_card by metis
  have sub: "set (take 256 ?ks) \<subseteq> own" using set_take_subset[of 256 ?ks] ks(2) by simp
  moreover have "card (set (take 256 ?ks)) = min 256 (card own)" using ks(1) by (simp add: distinct_card len)
  moreover have "set (take 256 ?ks) = own" if "card own \<le> 256" using that ks(2) len by simp
  ultimately show ?thesis
    using ks flush_pid_from_agg_map_eq[OF assms(1-3), of links p]
    by (intro exI[of _ "\<lambda>k. if k \<in> set (take 256 ?ks) then None else m k"] exI[of _ "set (take 256 ?ks)"]) auto
qed

text \<open>A process with 300 entries: 44 stay.\<close>

definition many_key :: "nat \<Rightarrow> agg_key" where
  "many_key i = \<lparr>ak_pid = 9, ak_event_type = of_nat i, ak_detail = []\<rparr>"

theorem flush_pid_complete_witness:
  "\<exists>m' out. flush_pid_from_agg_map (sorted_next key_code) (\<lambda>_ _. None) 9
      (\<lambda>k. if k \<in> many_key ` {..<300} then Some \<lparr>av_count = 1, av_total_bytes = 0, av_first_ts = 0, av_last_ts = 0, av_comm = [], av_extra = []\<rparr>
           else None) = Some (m', out) \<and> card (dom m') = 44"
proof -
  let ?E = "many_key ` {..<300}"
  let ?m = "\<lambda>k. if k \<in> ?E then Some \<lparr>av_count = 1, av_total_bytes = 0, av_first_ts = 0, av_last_ts = 0, av_comm = [], av_extra = []\<rparr> else None"
  have dom: "dom ?m = ?E" by (auto split: if_splits)
  have inj: "inj_on many_key {..<300}"
  proof (rule inj_onI)
    fix i j assume "i \<in> {..<300::nat}" "j \<in> {..<300::nat}" "many_key i = many_key j"
    then have "unat (of_nat i :: u32) = unat (of_nat j :: u32)" "i < 300" "j < 300" by (simp_all add: many_key_def)
    then show "i = j" by (simp add: unat_of_nat)
  qed
  have own: "?E = {k\<in>dom ?m. ak_pid k = 9}" unfolding dom by (auto simp: many_key_def)
  have card: "card ?E = 300" using inj by (simp add: card_image)
  have "finite (dom ?m)" unfolding dom by simp
  moreover have "?m zero_key = None" by (auto simp: zero_key_def many_key_def)
  ultimately obtain m' out gone where f: "flush_pid_from_agg_map (sorted_next key_code) (\<lambda>_ _. None) 9 ?m = Some (m', out)"
    and m': "m' = (\<lambda>k. if k \<in> gone then None else ?m k)" and g: "gone \<subseteq> ?E" "card gone = min 256 (card ?E)"
    using flush_pid_complete[OF agg_iter.map_iter_axioms _ _ own, of "\<lambda>_ _. None"] by blast
  have "dom m' = ?E - gone" unfolding m' by (auto split: if_splits)
  then have "card (dom m') = 44" using g card by (simp add: card_Diff_subset finite_subset)
  with f show ?thesis by blast
qed

text \<open>
  The descriptor in the detail of a write summary is read back exactly: what \<open>parse_fd_detail\<close> finds
  in a key built by \<open>format_fd_detail\<close> is the descriptor the kernel side put there, negative ones
  included.
\<close>

theorem fd_detail_roundtrip:
  "parse_fd_detail (format_fd_detail (zbuf DETAIL_LEN []) DETAIL_LEN fd) = Some fd"
proof -
  let ?i = "sint fd"
  have "NUL \<notin> set (''fd='' @ dec_int ?i)" using dec_int_ascii[of NUL ?i] by auto
  then have c: "c_str (format_fd_detail (zbuf DETAIL_LEN []) DETAIL_LEN fd) = ''fd='' @ dec_int ?i"
    unfolding format_fd_detail_eq by (rule c_str_zbuf)
  have "- 2147483648 \<le> ?i" "?i < 2147483648" using sint_ge[of fd] sint_lt[of fd] by simp_all
  then have "strtol (dec_int ?i) = (?i, [])" by (intro strtol_dec_int) simp_all
  moreover have "dec_int ?i \<noteq> []" using dec_nat_digits by (simp add: dec_int_def)
  ultimately show ?thesis by (simp add: parse_fd_detail_def c)
qed

text \<open>
  A summary is one line of the JSONL stream, whatever bytes the command name, the path or the
  descriptor's target contain: it ends with a newline and has no other.
\<close>

theorem summary_is_one_line:
  "\<exists>line. print_summary_json links key val = line @ [CHR 0x0A] \<and> CHR 0x0A \<notin> set line"
proof -
  have "2 \<le> MAX_FILENAME_LEN * 2" "2 \<le> TASK_COMM_LEN * 2" by (simp_all add: MAX_FILENAME_LEN_def TASK_COMM_LEN_def)
  note j = json_escape_no_newline[OF this(1)] json_escape_no_newline[OF this(2)]
  show ?thesis
    unfolding print_summary_json_def
    by (intro exI conjI, rule refl)
      (auto simp: Let_def j dec_no_newline type_name_no_newline split: option.splits if_splits)
qed

text \<open>
  C38: Setting up the cgroup filter replaces the old contents of the map. When the kernel has room, the
  map then holds the inode of the target cgroup and, if children are included, of every descendant
  directory whose path is shorter than 1024 bytes, and nothing else; the recursion always ends.
\<close>

theorem populate_cgroup_filter_map_exact:
  assumes "map_iter next_key keys" "\<And>m. first_key m = (case keys m of [] \<Rightarrow> None | x # _ \<Rightarrow> Some x)" "finite (dom m)"
    and "\<And>m. accepts m" "normalize_cgroup_path (Some path) 512 = Some root" "fs_stat fs root = Some (ino, True)"
    and "\<And>errno. fs_readdir fs root \<noteq> Inl errno"
  shows "\<exists>n m'. populate_cgroup_filter_map fs next_key first_key accepts (Some path) children True m = Some (n, m') \<and> 0 \<le> n \<and>
    dom m' = insert ino (if children then inode_of fs ` {c. cg_desc fs root c} else {})"
proof -
  note clear = clear_u64_set_map_eq[OF assms(1-3)]
  have add: "add_cgroup_path_inode_to_map fs accepts root Map.empty 0 = (True, [ino \<mapsto> 1], 1)"
    using add_inode_dom[where accepts = accepts, OF assms(4,6), of Map.empty 0] by simp
  obtain entries where e: "fs_readdir fs root = Inr entries" using assms(7) by (cases "fs_readdir fs root") auto
  obtain m2 n2 where d: "add_descendant_cgroup_ids fs accepts root ([ino \<mapsto> 1], 1) = (0, m2, n2)"
    using e by (cases "descend_entries fs accepts root entries ([ino \<mapsto> 1], 1)") simp
  have "dom m2 = insert ino (inode_of fs ` {c. cg_desc fs root c})"
    using add_descendant_dom[where accepts = accepts, OF assms(4), of fs root "([ino \<mapsto> 1], 1)"] d by simp
  then show ?thesis
    using clear add d assms(5) by (simp add: populate_cgroup_filter_map_def)
qed

text \<open>A cgroup with one child cgroup and a file; the path of the child names no directory below it.\<close>

definition sample_cgroups :: cgroup_fs where
  "sample_cgroups = \<lparr>fs_stat = (\<lambda>p. if p = ''/sys/fs/cgroup/agents'' then Some (42, True)
       else if p = ''/sys/fs/cgroup/agents/a'' then Some (43, True)
       else if p = ''/sys/fs/cgroup/agents/cgroup.procs'' then Some (44, False) else None),
     fs_readdir = (\<lambda>p. if p = ''/sys/fs/cgroup/agents'' then Inr [''.'', ''a'', ''cgroup.procs''] else Inr [''..''])\<rparr>"

theorem populate_cgroup_filter_map_exact_witness:
  "\<exists>n m'. populate_cgroup_filter_map sample_cgroups
      (sorted_next (\<lambda>k. k)) (\<lambda>m. case sorted_keys (\<lambda>k. k) m of [] \<Rightarrow> None | x # _ \<Rightarrow> Some x) (\<lambda>_. True)
      (Some ''agents'') True True [7 \<mapsto> 1] = Some (n, m') \<and> dom m' = {42, 43}"
proof -
  let ?root = "''/sys/fs/cgroup/agents''"
  have "normalize_cgroup_path (Some ''agents'') 512 = Some ?root"
    by (simp add: normalize_cgroup_path_def)
  moreover have "fs_stat sample_cgroups ?root = Some (42, True)" "\<And>e. fs_readdir sample_cgroups ?root \<noteq> Inl e"
    by (simp_all add: sample_cgroups_def)
  moreover have "\<not> cg_desc sample_cgroups ''/sys/fs/cgroup/agents/a'' c" for c
    by (subst cg_desc_iff) (simp add: sample_cgroups_def valid_child_def)
  then have "cg_desc sample_cgroups ?root c \<longleftrightarrow> c = ''/sys/fs/cgroup/agents/a''" for c
    by (subst cg_desc_iff) (auto simp: sample_cgroups_def valid_child_def)
  then have "inode_of sample_cgroups ` {c. cg_desc sample_cgroups ?root c} = {43}"
    by (simp add: inode_of_def sample_cgroups_def)
  ultimately show ?thesis
    using populate_cgroup_filter_map_exact[OF cgroup_iter.map_iter_axioms refl, of "[7 \<mapsto> 1]" "\<lambda>_. True" "''agents''" ?root sample_cgroups 42 True]
    by auto
qed

end
