(* ===== verification/Linear_Probing.thy ===== *)
theory Linear_Probing
  imports Prelude
begin

text \<open>
  Linear probing in a table of \<open>N\<close> slots, independent of what a slot stores:
  the cyclic distance between slots, the invariant that makes probing find
  every entry, and the argument that deleting an entry and re-inserting the rest
  of its cluster keeps that invariant, also in a full table.
  A table is seen through two functions, \<open>act\<close> (is the slot in use) and \<open>hh\<close>
  (the home slot of the key stored there).
\<close>

section \<open>Cyclic distance\<close>

definition dist :: "nat \<Rightarrow> nat \<Rightarrow> nat \<Rightarrow> nat" where
  "dist N a b = (if a \<le> b then b - a else b + N - a)"

text \<open>Slot \<open>k\<close> is probed before slot \<open>e\<close> when probing starts at \<open>h\<close>.\<close>

definition before :: "nat \<Rightarrow> nat \<Rightarrow> nat \<Rightarrow> nat \<Rightarrow> bool" where
  "before N h e k \<longleftrightarrow> dist N h k < dist N h e"

text \<open>
  The invariant: there is a ranking of the slots (the order in which their entries
  were inserted) such that every slot probed before an entry's own slot is in use,
  by an entry of smaller rank.
\<close>

definition probe_rank :: "nat \<Rightarrow> (nat \<Rightarrow> bool) \<Rightarrow> (nat \<Rightarrow> nat) \<Rightarrow> (nat \<Rightarrow> nat) \<Rightarrow> bool" where
  "probe_rank N act hh r \<longleftrightarrow>
     (\<forall>e<N. act e \<longrightarrow> (\<forall>k<N. before N (hh e) e k \<longrightarrow> act k \<and> r k < r e))"

definition probe_inv :: "nat \<Rightarrow> (nat \<Rightarrow> bool) \<Rightarrow> (nat \<Rightarrow> nat) \<Rightarrow> bool" where
  "probe_inv N act hh \<longleftrightarrow> (\<exists>r. probe_rank N act hh r)"

text \<open>
  The invariant of the re-insertion loop after removing the entry of slot \<open>idx\<close>, about
  to look at the slot \<open>n\<close> steps further: \<open>g\<close> is the hole.
\<close>

definition hole_inv ::
  "nat \<Rightarrow> (nat \<Rightarrow> bool) \<Rightarrow> (nat \<Rightarrow> nat) \<Rightarrow> (nat \<Rightarrow> nat) \<Rightarrow> nat \<Rightarrow> nat \<Rightarrow> nat \<Rightarrow> bool" where
  "hole_inv N act hh r idx n g \<longleftrightarrow>
     g < N \<and> \<not> act g \<and> dist N idx g < n \<and>
     (\<forall>e<N. act e \<longrightarrow>
        (\<forall>k<N. before N (hh e) e k \<longrightarrow> (k = g \<or> act k) \<and> r k < r e) \<and>
        (dist N idx e < n \<longrightarrow>
           \<not> before N (hh e) e g \<and>
           (\<forall>k<N. before N (hh e) e k \<longrightarrow> n \<le> dist N idx k \<longrightarrow> r e \<le> r g)))"

section \<open>Facts about the distance\<close>

lemma dist_less: "a < N \<Longrightarrow> b < N \<Longrightarrow> dist N a b < N"
  by (auto simp: dist_def)

lemma dist_self [simp]: "dist N a a = 0"
  by (simp add: dist_def)

lemma dist_eq_0: "a < N \<Longrightarrow> b < N \<Longrightarrow> dist N a b = 0 \<longleftrightarrow> a = b"
  by (auto simp: dist_def)

lemma dist_inj: "a < N \<Longrightarrow> b < N \<Longrightarrow> c < N \<Longrightarrow> dist N a b = dist N a c \<longleftrightarrow> b = c"
  by (auto simp: dist_def split: if_splits)

lemma probe_slot_mod: "(a::nat) < N \<Longrightarrow> i < N \<Longrightarrow> (a + i) mod N = (if a + i < N then a + i else a + i - N)"
  by (simp add: le_mod_geq)

lemma dist_probe: "a < N \<Longrightarrow> i < N \<Longrightarrow> dist N a ((a + i) mod N) = i"
  by (auto simp: probe_slot_mod dist_def)

lemma probe_dist: "a < N \<Longrightarrow> b < N \<Longrightarrow> (a + dist N a b) mod N = b"
  by (auto simp: dist_def)

lemma before_self [simp]: "\<not> before N h e e"
  by (simp add: before_def)

lemma before_irrefl: "before N h e k \<Longrightarrow> k \<noteq> e"
  by auto

lemma before_trans: "before N h e k \<Longrightarrow> before N h k m \<Longrightarrow> before N h e m"
  by (simp add: before_def)

lemma before_linear: "h < N \<Longrightarrow> e < N \<Longrightarrow> k < N \<Longrightarrow> k \<noteq> e \<Longrightarrow> before N h e k \<or> before N h k e"
  by (metis before_def dist_inj linorder_neqE_nat)

text \<open>A probe run that contains \<open>g\<close> and ends at \<open>e\<close> contains all slots between them.\<close>

lemma before_between:
  assumes "before N h e g" "dist N idx g < dist N idx k" "dist N idx k < dist N idx e"
    and "h < N" "e < N" "g < N" "k < N" "idx < N"
  shows "before N h e k"
  using assms by (auto simp: before_def dist_def split: if_splits)

text \<open>A probe run that contains a slot past its end contains everything from \<open>idx\<close> to its end.\<close>

lemma before_wraps:
  assumes "before N h e k" "dist N idx e < dist N idx k" "dist N idx m < dist N idx e"
    and "h < N" "e < N" "m < N" "k < N" "idx < N"
  shows "before N h e m"
  using assms by (auto simp: before_def dist_def split: if_splits)

section \<open>Insertion\<close>

lemma probe_inv_empty: "(\<And>e. e < N \<Longrightarrow> \<not> act e) \<Longrightarrow> probe_inv N act hh"
  by (auto simp: probe_inv_def probe_rank_def)

lemma probe_invD: "probe_inv N act hh \<Longrightarrow> e < N \<Longrightarrow> act e \<Longrightarrow> k < N \<Longrightarrow> before N (hh e) e k \<Longrightarrow> act k"
  by (auto simp: probe_inv_def probe_rank_def)

lemma bounded_rank:
  obtains m where "\<And>k. k < N \<Longrightarrow> (r :: nat \<Rightarrow> nat) k < m"
proof
  show "\<And>k. k < N \<Longrightarrow> r k < Suc (\<Sum>i<N. r i)"
    by (metis finite_lessThan le_imp_less_Suc lessThan_iff member_le_sum zero_le)
qed

lemma probe_inv_insert:
  assumes inv: "probe_inv N act hh" and j: "j < N" "\<not> act j"
    and path: "\<And>k. k < N \<Longrightarrow> before N h j k \<Longrightarrow> act k"
  shows "probe_inv N (act(j := True)) (hh(j := h))"
proof -
  obtain r where r: "probe_rank N act hh r"
    using inv by (auto simp: probe_inv_def)
  obtain m where m: "\<And>k. k < N \<Longrightarrow> r k < m"
    using bounded_rank by blast
  have "probe_rank N (act(j := True)) (hh(j := h)) (r(j := m))"
    unfolding probe_rank_def
  proof (intro allI impI)
    fix e k assume e: "e < N" "(act(j := True)) e" and k: "k < N" "before N ((hh(j := h)) e) e k"
    show "(act(j := True)) k \<and> (r(j := m)) k < (r(j := m)) e"
    proof (cases "e = j")
      case True
      with k have "act k" "k \<noteq> j" using path by auto
      with True k m show ?thesis by simp
    next
      case False
      with e k have "act e" "before N (hh e) e k" by simp_all
      with e(1) k(1) r have "act k \<and> r k < r e" unfolding probe_rank_def by blast
      moreover from this j have "k \<noteq> j" by auto
      ultimately show ?thesis using False by simp
    qed
  qed
  then show ?thesis by (auto simp: probe_inv_def)
qed

section \<open>Deletion with re-insertion of the cluster\<close>

lemma hole_start:
  assumes "probe_inv N act hh" "idx < N"
  obtains r where "hole_inv N (act(idx := False)) hh r idx 1 idx"
proof -
  obtain r where r: "probe_rank N act hh r"
    using assms by (auto simp: probe_inv_def)
  have at0: "dist N idx e < 1 \<longleftrightarrow> e = idx" if "e < N" for e
    using that assms(2) by (auto simp: dist_eq_0)
  have "hole_inv N (act(idx := False)) hh r idx 1 idx"
    unfolding hole_inv_def
  proof (intro conjI allI impI)
    fix e k assume e: "e < N" "(act(idx := False)) e" and k: "k < N" "before N (hh e) e k"
    then have "act k \<and> r k < r e" using r unfolding probe_rank_def by (metis fun_upd_apply)
    then show "k = idx \<or> (act(idx := False)) k" "r k < r e" by auto
  qed (use assms(2) at0 in auto)
  then show ?thesis by (rule that)
qed

lemma hole_stay:
  assumes inv: "hole_inv N act hh r idx n g" and j: "j < N" "dist N idx j = n" "idx < N" "act j"
    and h: "hh j < N" and out: "\<not> before N (hh j) j g"
  shows "hole_inv N act hh r idx (Suc n) g"
proof -
  have g: "g < N" "dist N idx g < n" using inv by (auto simp: hole_inv_def)
  have *: "\<not> n < dist N idx k" if "k < N" "before N (hh j) j k" for k
    using before_wraps[of N "hh j" j k idx g] that j g h out by auto
  have jj: "e = j" if "e < N" "dist N idx e = n" for e
    using that j dist_inj[of idx N e j] by simp
  show ?thesis
    unfolding hole_inv_def
  proof (intro conjI allI impI)
    show "g < N" "\<not> act g" "dist N idx g < Suc n"
      using inv by (auto simp: hole_inv_def)
  next
    fix e k assume "e < N" "act e" "k < N" "before N (hh e) e k"
    then show "k = g \<or> act k" "r k < r e"
      using inv by (auto simp: hole_inv_def)
  next
    fix e assume e: "e < N" "act e" "dist N idx e < Suc n"
    then have "e = j \<or> dist N idx e < n" using jj by (auto simp: less_Suc_eq)
    then show "\<not> before N (hh e) e g"
      using inv e out by (auto simp: hole_inv_def)
  next
    fix e k assume e: "e < N" "act e" "dist N idx e < Suc n"
      and k: "k < N" "before N (hh e) e k" "Suc n \<le> dist N idx k"
    have "e \<noteq> j" using *[of k] k by auto
    with e jj have "dist N idx e < n" by (auto simp: less_Suc_eq)
    with inv e k show "r e \<le> r g" by (simp add: hole_inv_def)
  qed
qed

lemma hole_move:
  assumes inv: "hole_inv N act hh r idx n g" and j: "j < N" "dist N idx j = n" "idx < N" "act j"
    and h: "\<And>e. e < N \<Longrightarrow> act e \<Longrightarrow> hh e < N" and into: "before N (hh j) j g"
  shows "hole_inv N (act(j := False, g := True)) (hh(g := hh j)) (r(g := r j)) idx (Suc n) j"
    (is "hole_inv N ?act ?hh ?r idx (Suc n) j")
proof -
  have g: "g < N" "\<not> act g" "dist N idx g < n" "g \<noteq> j"
    using inv j by (auto simp: hole_inv_def)
  have paths: "\<And>e k. e < N \<Longrightarrow> act e \<Longrightarrow> k < N \<Longrightarrow> before N (hh e) e k \<Longrightarrow> (k = g \<or> act k) \<and> r k < r e"
    and clean: "\<And>e. e < N \<Longrightarrow> act e \<Longrightarrow> dist N idx e < n \<Longrightarrow> \<not> before N (hh e) e g"
    and wrap: "\<And>e k. e < N \<Longrightarrow> act e \<Longrightarrow> dist N idx e < n \<Longrightarrow> k < N \<Longrightarrow> before N (hh e) e k \<Longrightarrow>
                 n \<le> dist N idx k \<Longrightarrow> r e \<le> r g"
    using inv by (auto simp: hole_inv_def)
  have rg: "r g < r j" using paths[OF j(1) j(4) g(1) into] by simp
  have off: "dist N idx e = n \<longleftrightarrow> e = j" if "e < N" for e
    using that j dist_inj[of idx N e j] by simp
  have nj: "\<not> before N (hh e) e j" if "e < N" "act e" "dist N idx e < n" for e
    using wrap[OF that, of j] paths[OF that(1,2), of j] rg that j by force
  have cross: "r j < r e" if "e < N" "act e" "e \<noteq> j" "before N (hh e) e g" for e
  proof -
    have "\<not> dist N idx e < n" using clean that by blast
    with that off have "n < dist N idx e" by force
    then have "before N (hh e) e j"
      using before_between[of N "hh e" e g idx j] that g j h by simp
    then show ?thesis using paths that j by blast
  qed
  have old: "(k = j \<or> ?act k) \<and> ?r k < ?r e"
    if "e < N" "act e" "e \<noteq> j" "e \<noteq> g" "k < N" "before N (hh e) e k" for e k
    using paths[OF that(1,2,5,6)] cross[OF that(1-3)] that by auto
  have moved: "?act k \<and> ?r k < ?r g \<and> k \<noteq> j" if "k < N" "before N (hh j) g k" for k
    using before_trans[OF into that(2)] paths[OF j(1,4) that(1)] that by auto
  have nojg: "\<not> before N (hh j) g j" using into by (auto simp: before_def)
  show ?thesis
    unfolding hole_inv_def
  proof (intro conjI allI impI)
    show "j < N" "\<not> ?act j" "dist N idx j < Suc n" using j g by auto
  next
    fix e k assume e: "e < N" "?act e" and k: "k < N" "before N (?hh e) e k"
    show "k = j \<or> ?act k" "?r k < ?r e"
      using e k old[of e k] moved[of k] by (auto split: if_splits)
  next
    fix e assume e: "e < N" "?act e" "dist N idx e < Suc n"
    show "\<not> before N (?hh e) e j"
      using e nj[of e] nojg off[of e] by (auto simp: less_Suc_eq split: if_splits)
  next
    fix e k assume e: "e < N" "?act e" "dist N idx e < Suc n"
      and k: "k < N" "before N (?hh e) e k" "Suc n \<le> dist N idx k"
    show "?r e \<le> ?r j"
      using e k wrap[of e k] rg g off[of e] by (auto simp: less_Suc_eq split: if_splits)
  qed
qed

lemma hole_stop:
  assumes inv: "hole_inv N act hh r idx n g" and j: "j < N" "dist N idx j = n" "idx < N" "\<not> act j"
    and h: "\<And>e. e < N \<Longrightarrow> act e \<Longrightarrow> hh e < N"
  shows "probe_inv N act hh"
proof -
  have g: "g < N" "dist N idx g < n" "j \<noteq> g" using inv j by (auto simp: hole_inv_def)
  have paths: "\<And>e k. e < N \<Longrightarrow> act e \<Longrightarrow> k < N \<Longrightarrow> before N (hh e) e k \<Longrightarrow> (k = g \<or> act k) \<and> r k < r e"
    and clean: "\<And>e. e < N \<Longrightarrow> act e \<Longrightarrow> dist N idx e < n \<Longrightarrow> \<not> before N (hh e) e g"
    using inv by (auto simp: hole_inv_def)
  have "\<not> before N (hh e) e g" if "e < N" "act e" for e
  proof
    assume b: "before N (hh e) e g"
    with clean that have "n \<le> dist N idx e" by force
    moreover have "e \<noteq> j" using that j by auto
    ultimately have "n < dist N idx e" using that j dist_inj[of idx N e j] by force
    then have "before N (hh e) e j"
      using before_between[of N "hh e" e g idx j] b that g j h by simp
    then show False using paths[OF that j(1)] g j by simp
  qed
  then have "probe_rank N act hh r"
    using paths unfolding probe_rank_def by blast
  then show ?thesis by (auto simp: probe_inv_def)
qed

lemma hole_done:
  assumes inv: "hole_inv N act hh r idx N g" and "idx < N"
  shows "probe_inv N act hh"
proof -
  have "probe_rank N act hh r"
    using inv dist_less[OF assms(2)] unfolding hole_inv_def probe_rank_def by blast
  then show ?thesis by (auto simp: probe_inv_def)
qed

end
