(* ===== verification/Bounded_Map.thy ===== *)
theory Bounded_Map
  imports Prelude
begin

text \<open>
  The contract of a finite map of bounded capacity: what the tracers expect of the userspace
  PID table and of the kernel's hash maps. \<open>spec_run\<close> is the abstract machine, \<open>run_ops\<close> the
  same sequence of operations on an implementation; an implementation that satisfies the
  locale's laws refines the abstract machine step by step.
\<close>

datatype ('k, 'v) map_op = Add 'k 'v | Remove 'k

text \<open>Adding keeps the value of a key that is already there and fails silently when full.\<close>

fun spec_step :: "nat \<Rightarrow> ('k \<rightharpoonup> 'v) \<Rightarrow> ('k, 'v) map_op \<Rightarrow> ('k \<rightharpoonup> 'v)" where
  "spec_step cap m (Add k v) = (if k \<in> dom m \<or> cap \<le> card (dom m) then m else m(k \<mapsto> v))"
| "spec_step cap m (Remove k) = m(k := None)"

fun spec_run :: "nat \<Rightarrow> ('k \<rightharpoonup> 'v) \<Rightarrow> ('k, 'v) map_op list \<Rightarrow> ('k \<rightharpoonup> 'v)" where
  "spec_run cap m [] = m"
| "spec_run cap m (x # xs) = spec_run cap (spec_step cap m x) xs"

fun run_ops :: "('t \<Rightarrow> 'k \<Rightarrow> 'v \<Rightarrow> bool \<times> 't) \<Rightarrow> ('t \<Rightarrow> 'k \<Rightarrow> 't) \<Rightarrow> 't \<Rightarrow> ('k, 'v) map_op list \<Rightarrow> 't" where
  "run_ops add remove t [] = t"
| "run_ops add remove t (Add k v # xs) = run_ops add remove (snd (add t k v)) xs"
| "run_ops add remove t (Remove k # xs) = run_ops add remove (remove t k) xs"

text \<open>The same bounded insertion on a set of keys.\<close>

definition bounded_insert :: "nat \<Rightarrow> 'k \<Rightarrow> 'k set \<Rightarrow> 'k set" where
  "bounded_insert cap k S = (if k \<in> S \<or> cap \<le> card S then S else insert k S)"

locale bounded_map =
  fixes lookup :: "'t \<Rightarrow> 'k \<Rightarrow> 'v option"
    and add :: "'t \<Rightarrow> 'k \<Rightarrow> 'v \<Rightarrow> bool \<times> 't"
    and remove :: "'t \<Rightarrow> 'k \<Rightarrow> 't"
    and invar :: "'t \<Rightarrow> bool"
    and cap :: nat
  assumes finite_dom: "invar t \<Longrightarrow> finite (dom (lookup t))"
    and add_invar: "invar t \<Longrightarrow> invar (snd (add t k v))"
    and add_result: "invar t \<Longrightarrow> fst (add t k v) \<longleftrightarrow> k \<in> dom (lookup t) \<or> card (dom (lookup t)) < cap"
    and add_lookup: "invar t \<Longrightarrow> lookup (snd (add t k v)) =
       (if k \<in> dom (lookup t) \<or> \<not> fst (add t k v) then lookup t else (lookup t)(k \<mapsto> v))"
    and remove_invar: "invar t \<Longrightarrow> invar (remove t k)"
    and remove_lookup: "invar t \<Longrightarrow> lookup (remove t k) = (lookup t)(k := None)"
begin

lemma add_step: "invar t \<Longrightarrow> lookup (snd (add t k v)) = spec_step cap (lookup t) (Add k v)"
  by (auto simp: add_lookup add_result)

lemma run_refines:
  "invar t \<Longrightarrow> invar (run_ops add remove t xs) \<and>
     lookup (run_ops add remove t xs) = spec_run cap (lookup t) xs"
proof (induction xs arbitrary: t)
  case (Cons x xs)
  then show ?case
    by (cases x) (simp_all add: add_invar remove_invar add_step remove_lookup fun_upd_def)
qed simp

lemma dom_add: "invar t \<Longrightarrow> dom (lookup (snd (add t k v))) = bounded_insert cap k (dom (lookup t))"
  by (auto simp: add_lookup add_result bounded_insert_def)

lemma dom_remove: "invar t \<Longrightarrow> dom (lookup (remove t k)) = dom (lookup t) - {k}"
  by (auto simp: remove_lookup)

lemma add_present: "invar t \<Longrightarrow> fst (add t k v) \<longleftrightarrow> k \<in> dom (lookup (snd (add t k v)))"
  by (auto simp: add_lookup add_result)

lemma add_card:
  "invar t \<Longrightarrow> card (dom (lookup t)) \<le> cap \<Longrightarrow> card (dom (lookup (snd (add t k v)))) \<le> cap"
  using finite_dom[of t] by (auto simp: dom_add bounded_insert_def card_insert_if)

end

lemma spec_run_append: "spec_run cap m (xs @ ys) = spec_run cap (spec_run cap m xs) ys"
  by (induction xs arbitrary: m) auto

end
