(* ===== verification/Process_Filter.thy ===== *)
theory Process_Filter
  imports Linear_Probing Bounded_Map
begin

text \<open>
  The userspace PID tracker of the process tracer (\<open>bpf/process_filter.h\<close>, with the enums of
  \<open>bpf/process.h\<close>): an open-addressing hash table of 4096 slots with linear probing, and the
  filtering decisions that consult it. The loops of the code are recursions over the list of
  their index values. The abstract view of a tracker is \<open>tracker_map\<close>, a finite map from
  tracked PIDs to parent PIDs; \<open>tracker_ok\<close> is the invariant every operation keeps.
\<close>

unbundle bit_operations_syntax

section \<open>The code\<close>

datatype filter_mode = FILTER_MODE_ALL | FILTER_MODE_PROC | FILTER_MODE_FILTER

record tracked_pid_entry =
  te_pid :: pid_t
  te_ppid :: pid_t
  te_is_tracked :: bool
  te_is_active :: bool

record pid_tracker =
  entries :: "tracked_pid_entry list"
  command_filters :: "bytes list"
  command_filter_count :: nat
  filter_mode :: filter_mode
  target_pid :: pid_t

definition TRACKED_PIDS_HASH_SIZE :: nat where
  "TRACKED_PIDS_HASH_SIZE = 4096"

definition TRACKED_PIDS_HASH_MASK :: u32 where
  "TRACKED_PIDS_HASH_MASK = of_nat (TRACKED_PIDS_HASH_SIZE - 1)"

definition pid_hash :: "pid_t \<Rightarrow> u32" where
  "pid_hash pid = pid AND TRACKED_PIDS_HASH_MASK"

text \<open>The index computed in every probing loop: \<open>(hash + i) & TRACKED_PIDS_HASH_MASK\<close>.\<close>

definition probe_index :: "u32 \<Rightarrow> nat \<Rightarrow> nat" where
  "probe_index hash i = unat ((hash + of_nat i) AND TRACKED_PIDS_HASH_MASK)"

definition zero_entry :: tracked_pid_entry where
  "zero_entry = \<lparr>te_pid = 0, te_ppid = 0, te_is_tracked = False, te_is_active = False\<rparr>"

definition pid_tracker_init ::
  "bytes list \<Rightarrow> nat \<Rightarrow> filter_mode \<Rightarrow> pid_t \<Rightarrow> pid_tracker" where
  "pid_tracker_init filters count mode target =
     \<lparr>entries = replicate TRACKED_PIDS_HASH_SIZE zero_entry,
      command_filters = filters, command_filter_count = count,
      filter_mode = mode, target_pid = target\<rparr>"

fun find_probe :: "pid_tracker \<Rightarrow> pid_t \<Rightarrow> u32 \<Rightarrow> nat list \<Rightarrow> nat option" where
  "find_probe t pid hash [] = None"
| "find_probe t pid hash (i # js) =
     (let idx = probe_index hash i; entry = entries t ! idx in
      if \<not> te_is_active entry then None
      else if te_pid entry = pid then Some idx
      else find_probe t pid hash js)"

definition pid_tracker_find :: "pid_tracker \<Rightarrow> pid_t \<Rightarrow> nat option" where
  "pid_tracker_find t pid = find_probe t pid (pid_hash pid) [0..<TRACKED_PIDS_HASH_SIZE]"

text \<open>Filling slot \<open>idx\<close>, and clearing its \<open>is_active\<close> flag.\<close>

definition put_entry :: "pid_tracker \<Rightarrow> nat \<Rightarrow> pid_t \<Rightarrow> pid_t \<Rightarrow> pid_tracker" where
  "put_entry t idx pid ppid =
     t\<lparr>entries := (entries t)[idx :=
        \<lparr>te_pid = pid, te_ppid = ppid, te_is_tracked = True, te_is_active = True\<rparr>]\<rparr>"

definition clear_entry :: "pid_tracker \<Rightarrow> nat \<Rightarrow> pid_tracker" where
  "clear_entry t idx = t\<lparr>entries := (entries t)[idx := (entries t ! idx)\<lparr>te_is_active := False\<rparr>]\<rparr>"

fun add_probe :: "pid_tracker \<Rightarrow> pid_t \<Rightarrow> pid_t \<Rightarrow> u32 \<Rightarrow> nat list \<Rightarrow> bool \<times> pid_tracker" where
  "add_probe t pid ppid hash [] = (False, t)"
| "add_probe t pid ppid hash (i # js) =
     (let idx = probe_index hash i in
      if \<not> te_is_active (entries t ! idx) then (True, put_entry t idx pid ppid)
      else add_probe t pid ppid hash js)"

definition pid_tracker_add :: "pid_tracker \<Rightarrow> pid_t \<Rightarrow> pid_t \<Rightarrow> bool \<times> pid_tracker" where
  "pid_tracker_add t pid ppid =
     (case pid_tracker_find t pid of
        Some _ \<Rightarrow> (True, t)
      | None \<Rightarrow> add_probe t pid ppid (pid_hash pid) [0..<TRACKED_PIDS_HASH_SIZE])"

fun rehash_probe :: "pid_tracker \<Rightarrow> nat \<Rightarrow> nat list \<Rightarrow> pid_tracker" where
  "rehash_probe t idx [] = t"
| "rehash_probe t idx (n # ns) =
     (let j = probe_index (of_nat idx) n; moved = entries t ! j in
      if \<not> te_is_active moved then t
      else
        let t1 = clear_entry t j;
            t2 = (if te_is_tracked moved
                  then snd (pid_tracker_add t1 (te_pid moved) (te_ppid moved)) else t1)
        in rehash_probe t2 idx ns)"

fun remove_probe :: "pid_tracker \<Rightarrow> pid_t \<Rightarrow> u32 \<Rightarrow> nat list \<Rightarrow> pid_tracker" where
  "remove_probe t pid hash [] = t"
| "remove_probe t pid hash (i # js) =
     (let idx = probe_index hash i; entry = entries t ! idx in
      if \<not> te_is_active entry then t
      else if te_pid entry \<noteq> pid then remove_probe t pid hash js
      else rehash_probe (clear_entry t idx) idx [1..<TRACKED_PIDS_HASH_SIZE])"

definition pid_tracker_remove :: "pid_tracker \<Rightarrow> pid_t \<Rightarrow> pid_tracker" where
  "pid_tracker_remove t pid =
     remove_probe t pid (pid_hash pid) [0..<TRACKED_PIDS_HASH_SIZE]"

definition pid_tracker_is_tracked :: "pid_tracker \<Rightarrow> pid_t \<Rightarrow> bool" where
  "pid_tracker_is_tracked t pid =
     (case pid_tracker_find t pid of None \<Rightarrow> False | Some idx \<Rightarrow> te_is_tracked (entries t ! idx))"

text \<open>\<open>strcmp(comm, command_filters[i]) == 0\<close> for some \<open>i < command_filter_count\<close>.\<close>

fun command_matches_any_filter :: "bytes \<Rightarrow> bytes list \<Rightarrow> nat \<Rightarrow> bool" where
  "command_matches_any_filter comm filters 0 = False"
| "command_matches_any_filter comm [] (Suc n) = False"
| "command_matches_any_filter comm (f # fs) (Suc n) =
     (if c_str comm = c_str f then True else command_matches_any_filter comm fs n)"

definition should_track_process :: "pid_tracker \<Rightarrow> bytes \<Rightarrow> pid_t \<Rightarrow> pid_t \<Rightarrow> bool" where
  "should_track_process t comm pid ppid =
     (if filter_mode t = FILTER_MODE_ALL then True
      else if filter_mode t = FILTER_MODE_PROC then True
      else if filter_mode t = FILTER_MODE_FILTER then
        (if 0 < sint (target_pid t) \<and> pid = target_pid t then True
         else if pid_tracker_is_tracked t ppid then True
         else if 0 < command_filter_count t \<and>
           command_matches_any_filter comm (command_filters t) (command_filter_count t) then True
         else False)
      else False)"

definition should_report_file_ops :: "pid_tracker \<Rightarrow> pid_t \<Rightarrow> bool" where
  "should_report_file_ops t pid =
     (if filter_mode t = FILTER_MODE_ALL then True else pid_tracker_is_tracked t pid)"

definition should_report_bash_readline :: "pid_tracker \<Rightarrow> pid_t \<Rightarrow> bool" where
  "should_report_bash_readline t pid =
     (if filter_mode t = FILTER_MODE_FILTER then pid_tracker_is_tracked t pid else True)"

definition pid_tracker_foreach :: "pid_tracker \<Rightarrow> (pid_t \<Rightarrow> pid_t \<Rightarrow> 'c \<Rightarrow> 'c) \<Rightarrow> 'c \<Rightarrow> 'c" where
  "pid_tracker_foreach t fn ctx =
     fold (\<lambda>e c. if te_is_active e then fn (te_pid e) (te_ppid e) c else c) (entries t) ctx"

section \<open>Abstraction and invariant\<close>

abbreviation "tsize \<equiv> TRACKED_PIDS_HASH_SIZE"

definition home :: "pid_t \<Rightarrow> nat" where
  "home pid = unat (pid_hash pid)"

definition slot_act :: "pid_tracker \<Rightarrow> nat \<Rightarrow> bool" where
  "slot_act t = (\<lambda>j. te_is_active (entries t ! j))"

definition slot_pid :: "pid_tracker \<Rightarrow> nat \<Rightarrow> pid_t" where
  "slot_pid t = (\<lambda>j. te_pid (entries t ! j))"

definition slot_ppid :: "pid_tracker \<Rightarrow> nat \<Rightarrow> pid_t" where
  "slot_ppid t = (\<lambda>j. te_ppid (entries t ! j))"

definition slot_home :: "pid_tracker \<Rightarrow> nat \<Rightarrow> nat" where
  "slot_home t = (\<lambda>j. home (slot_pid t j))"

text \<open>The pairs stored in the table, and the map they form.\<close>

definition tracked_pairs :: "pid_tracker \<Rightarrow> (pid_t \<times> pid_t) list" where
  "tracked_pairs t = map (\<lambda>e. (te_pid e, te_ppid e)) (filter te_is_active (entries t))"

definition tracker_map :: "pid_tracker \<Rightarrow> pid_t \<Rightarrow> pid_t option" where
  "tracker_map t = map_of (tracked_pairs t)"

definition slots_wf :: "pid_tracker \<Rightarrow> bool" where
  "slots_wf t \<longleftrightarrow> length (entries t) = tsize \<and>
     (\<forall>j<tsize. slot_act t j \<longrightarrow> te_is_tracked (entries t ! j)) \<and>
     (\<forall>i<tsize. \<forall>j<tsize. slot_act t i \<longrightarrow> slot_act t j \<longrightarrow> slot_pid t i = slot_pid t j \<longrightarrow> i = j)"

definition tracker_ok :: "pid_tracker \<Rightarrow> bool" where
  "tracker_ok t \<longleftrightarrow> slots_wf t \<and> probe_inv tsize (slot_act t) (slot_home t)"

section \<open>Index arithmetic\<close>

lemma mask_is_mask: "TRACKED_PIDS_HASH_MASK = mask 12"
  by (simp add: TRACKED_PIDS_HASH_MASK_def TRACKED_PIDS_HASH_SIZE_def mask_eq_exp_minus_1)

lemma unat_and_mask: "unat (w AND TRACKED_PIDS_HASH_MASK) = unat w mod tsize"
proof -
  have "w AND TRACKED_PIDS_HASH_MASK = take_bit 12 w"
    by (simp add: mask_is_mask take_bit_eq_mask)
  then have "unat (w AND TRACKED_PIDS_HASH_MASK) = take_bit 12 (unat w)"
    by (simp only: unsigned_take_bit_eq)
  also have "\<dots> = unat w mod tsize"
    by (simp add: take_bit_eq_mod TRACKED_PIDS_HASH_SIZE_def)
  finally show ?thesis .
qed

lemma probe_index_mod: "probe_index hash i = (unat hash + i) mod tsize"
proof -
  have "(unat hash + i) mod 4294967296 mod 4096 = (unat hash + i) mod 4096"
    by (rule mod_mod_cancel) simp
  then show ?thesis
    by (simp add: probe_index_def unat_and_mask unat_word_ariths unat_of_nat
        TRACKED_PIDS_HASH_SIZE_def mod_add_right_eq)
qed

lemma tsize_pos [simp]: "0 < tsize"
  by (simp add: TRACKED_PIDS_HASH_SIZE_def)

lemma home_less [simp]: "home p < tsize"
  by (simp add: home_def pid_hash_def unat_and_mask)

lemma probe_index_home: "probe_index (pid_hash p) i = (home p + i) mod tsize"
  by (simp add: probe_index_mod home_def)

lemma probe_index_less [simp]: "probe_index hash i < tsize"
  by (simp add: probe_index_mod)

lemma probe_index_idx: "idx < tsize \<Longrightarrow> probe_index (of_nat idx) n = (idx + n) mod tsize"
  by (simp add: probe_index_mod unat_of_nat TRACKED_PIDS_HASH_SIZE_def)

section \<open>The probing loops as searches\<close>

lemma find_probe_find:
  "find_probe t p h js =
     (case find (\<lambda>i. \<not> slot_act t (probe_index h i) \<or> slot_pid t (probe_index h i) = p) js of
        None \<Rightarrow> None
      | Some i \<Rightarrow> if slot_act t (probe_index h i) then Some (probe_index h i) else None)"
  by (induction js) (auto simp: slot_act_def slot_pid_def Let_def)

lemma remove_probe_find:
  "remove_probe t p h js =
     (case find_probe t p h js of None \<Rightarrow> t | Some idx \<Rightarrow> rehash_probe (clear_entry t idx) idx [1..<tsize])"
  by (induction js) (auto simp: Let_def simp del: rehash_probe.simps)

lemma add_probe_find:
  "add_probe t p q h js =
     (case find (\<lambda>i. \<not> slot_act t (probe_index h i)) js of
        None \<Rightarrow> (False, t) | Some i \<Rightarrow> (True, put_entry t (probe_index h i) p q))"
  by (induction js) (auto simp: slot_act_def Let_def)

text \<open>A slot whose probe predecessors do not stop the loop is the one the loop stops at.\<close>

lemma before_probe:
  assumes "d < dist tsize (home p) j" "j < tsize"
  shows "before tsize (home p) j (probe_index (pid_hash p) d)" "probe_index (pid_hash p) d < tsize"
  using assms dist_less[OF home_less assms(2), of p] dist_probe[of "home p" tsize d]
  by (auto simp: before_def probe_index_home)

lemma probe_index_dist: "j < tsize \<Longrightarrow> probe_index (pid_hash p) (dist tsize (home p) j) = j"
  by (simp add: probe_index_home probe_dist)

lemma dist_probe_index: "i < tsize \<Longrightarrow> dist tsize (home p) (probe_index (pid_hash p) i) = i"
  by (simp add: probe_index_home dist_probe)

text \<open>What a successful search means needs no invariant; completeness does.\<close>

lemma pid_tracker_find_sound:
  "pid_tracker_find t p = Some j \<Longrightarrow> j < tsize \<and> slot_act t j \<and> slot_pid t j = p"
  by (auto simp: pid_tracker_find_def find_probe_find find_Some_iff
      split: option.splits if_splits) (metis probe_index_less)

lemma pid_tracker_find_complete:
  assumes ok: "tracker_ok t" and j: "j < tsize" "slot_act t j" "slot_pid t j = p"
  shows "pid_tracker_find t p = Some j"
proof -
  let ?stop = "\<lambda>i. \<not> slot_act t (probe_index (pid_hash p) i) \<or> slot_pid t (probe_index (pid_hash p) i) = p"
  let ?d = "dist tsize (home p) j"
  have "\<not> ?stop d" if d: "d < ?d" for d
  proof -
    let ?k = "probe_index (pid_hash p) d"
    note k = before_probe[OF d j(1)]
    have "slot_act t ?k"
      using ok j k probe_invD[of tsize "slot_act t" "slot_home t" j ?k]
      by (simp add: tracker_ok_def slot_home_def)
    moreover have "?k \<noteq> j" using k before_irrefl by blast
    ultimately show ?thesis
      using ok j k unfolding tracker_ok_def slots_wf_def by blast
  qed
  then have "find ?stop [0..<tsize] = Some ?d"
    using j probe_index_dist[OF j(1), of p] dist_less[OF home_less j(1)]
    by (intro find_upt_eqI) auto
  then show ?thesis
    using j probe_index_dist[OF j(1), of p] by (simp add: pid_tracker_find_def find_probe_find)
qed

lemma pid_tracker_find_None:
  "tracker_ok t \<Longrightarrow> pid_tracker_find t p = None \<longleftrightarrow> (\<forall>j<tsize. slot_act t j \<longrightarrow> slot_pid t j \<noteq> p)"
  by (metis not_Some_eq pid_tracker_find_complete pid_tracker_find_sound)

lemma add_probe_at:
  assumes "e < tsize" "\<not> slot_act t e" "\<And>k. k < tsize \<Longrightarrow> before tsize (home p) e k \<Longrightarrow> slot_act t k"
  shows "add_probe t p q (pid_hash p) [0..<tsize] = (True, put_entry t e p q)"
proof -
  have "find (\<lambda>i. \<not> slot_act t (probe_index (pid_hash p) i)) [0..<tsize] = Some (dist tsize (home p) e)"
    using assms before_probe[OF _ assms(1)] probe_index_dist[OF assms(1), of p]
      dist_less[OF home_less assms(1)]
    by (intro find_upt_eqI) auto
  then show ?thesis
    using probe_index_dist[OF assms(1), of p] by (simp add: add_probe_find)
qed

lemma add_probe_cases:
  obtains (full) "add_probe t p q (pid_hash p) [0..<tsize] = (False, t)" "\<And>j. j < tsize \<Longrightarrow> slot_act t j"
  | (room) e where "e < tsize" "\<not> slot_act t e" "\<And>k. k < tsize \<Longrightarrow> before tsize (home p) e k \<Longrightarrow> slot_act t k"
      "add_probe t p q (pid_hash p) [0..<tsize] = (True, put_entry t e p q)"
proof (cases "find (\<lambda>i. \<not> slot_act t (probe_index (pid_hash p) i)) [0..<tsize]")
  case None
  have "slot_act t j" if "j < tsize" for j
    using find_upt_NoneD[OF None, of "dist tsize (home p) j"] that
      probe_index_dist[OF that] dist_less[OF home_less that] by simp
  with None show ?thesis by (intro full) (simp_all add: add_probe_find)
next
  case (Some i)
  note i = find_upt_SomeD[OF Some]
  let ?e = "probe_index (pid_hash p) i"
  have "slot_act t k" if "k < tsize" "before tsize (home p) ?e k" for k
    using i(3)[of "dist tsize (home p) k"] that probe_index_dist[OF that(1), of p]
      dist_probe_index[OF i(1), of p] by (simp add: before_def)
  with Some i show ?thesis by (intro room[of ?e]) (simp_all add: add_probe_find)
qed

section \<open>Effect of filling and clearing a slot\<close>

text \<open>The pairs of the active slots.\<close>

definition pairs :: "pid_tracker \<Rightarrow> (pid_t \<times> pid_t) set" where
  "pairs t = {(slot_pid t j, slot_ppid t j) | j. j < tsize \<and> slot_act t j}"

lemmas slot_defs = slot_act_def slot_pid_def slot_ppid_def slot_home_def

lemma put_entry_slots:
  assumes "length (entries t) = tsize" "e < tsize"
  shows "slot_act (put_entry t e p q) = (slot_act t)(e := True)"
    and "slot_pid (put_entry t e p q) = (slot_pid t)(e := p)"
    and "slot_ppid (put_entry t e p q) = (slot_ppid t)(e := q)"
    and "slot_home (put_entry t e p q) = (slot_home t)(e := home p)"
    and "length (entries (put_entry t e p q)) = tsize"
  using assms by (auto simp: put_entry_def slot_defs fun_eq_iff nth_list_update)

lemma clear_entry_slots:
  assumes "length (entries t) = tsize" "e < tsize"
  shows "slot_act (clear_entry t e) = (slot_act t)(e := False)"
    and "slot_pid (clear_entry t e) = slot_pid t"
    and "slot_ppid (clear_entry t e) = slot_ppid t"
    and "slot_home (clear_entry t e) = slot_home t"
    and "length (entries (clear_entry t e)) = tsize"
  using assms by (auto simp: clear_entry_def slot_defs fun_eq_iff nth_list_update)

lemma entry_tracked:
  "length (entries t) = tsize \<Longrightarrow> e < tsize \<Longrightarrow>
     te_is_tracked (entries (put_entry t e p q) ! j) = (j = e \<or> te_is_tracked (entries t ! j))"
  "length (entries t) = tsize \<Longrightarrow> e < tsize \<Longrightarrow>
     te_is_tracked (entries (clear_entry t e) ! j) = te_is_tracked (entries t ! j)"
  by (auto simp: put_entry_def clear_entry_def nth_list_update)

lemma slots_wf_clear: "slots_wf t \<Longrightarrow> e < tsize \<Longrightarrow> slots_wf (clear_entry t e)"
  unfolding slots_wf_def by (simp add: clear_entry_slots entry_tracked)

lemma slots_wf_put:
  assumes "slots_wf t" "e < tsize" "\<And>j. j < tsize \<Longrightarrow> slot_act t j \<Longrightarrow> slot_pid t j \<noteq> p"
  shows "slots_wf (put_entry t e p q)"
proof -
  note w = assms(1)[unfolded slots_wf_def]
  have "i = j" if "i < tsize" "j < tsize" "((slot_act t)(e := True)) i" "((slot_act t)(e := True)) j"
      "((slot_pid t)(e := p)) i = ((slot_pid t)(e := p)) j" for i j
    using that w assms(3)[of i] assms(3)[of j] by (cases "i = e"; cases "j = e") simp_all
  moreover have "te_is_tracked (entries (put_entry t e p q) ! j)"
    if "j < tsize" "((slot_act t)(e := True)) j" for j
    using that w assms(2) by (auto simp: entry_tracked split: if_splits)
  ultimately show ?thesis
    using w assms(2) put_entry_slots[of t e p q] unfolding slots_wf_def by presburger
qed

lemma pairs_put:
  assumes "slots_wf t" "e < tsize" "\<not> slot_act t e"
  shows "pairs (put_entry t e p q) = insert (p, q) (pairs t)"
  using assms unfolding slots_wf_def pairs_def by (auto simp: put_entry_slots)

lemma pairs_clear:
  assumes "slots_wf t" "e < tsize" "slot_act t e"
  shows "pairs t = insert (slot_pid t e, slot_ppid t e) (pairs (clear_entry t e))"
  using assms unfolding slots_wf_def pairs_def by (auto simp: clear_entry_slots)

lemma pairs_clear_notin:
  assumes "slots_wf t" "e < tsize" "slot_act t e"
  shows "(slot_pid t e, q) \<notin> pairs (clear_entry t e)"
  using assms unfolding slots_wf_def pairs_def by (auto simp: clear_entry_slots)

text \<open>On well-formed tables the abstract map is the relation \<open>pairs\<close>.\<close>

lemma set_tracked_pairs: "length (entries t) = tsize \<Longrightarrow> set (tracked_pairs t) = pairs t"
  by (auto simp: tracked_pairs_def pairs_def slot_defs in_set_conv_nth image_iff)

lemma pairs_functional: "slots_wf t \<Longrightarrow> (p, q) \<in> pairs t \<Longrightarrow> (p, q') \<in> pairs t \<Longrightarrow> q = q'"
  unfolding slots_wf_def pairs_def by auto

lemma tracker_map_iff:
  assumes "slots_wf t"
  shows "tracker_map t p = Some q \<longleftrightarrow> (p, q) \<in> pairs t"
proof
  assume "tracker_map t p = Some q"
  then show "(p, q) \<in> pairs t"
    using assms set_tracked_pairs[of t] by (auto simp: tracker_map_def slots_wf_def dest: map_of_SomeD)
next
  assume pq: "(p, q) \<in> pairs t"
  then have "p \<in> fst ` set (tracked_pairs t)"
    using assms set_tracked_pairs[of t] by (force simp: slots_wf_def)
  then obtain q' where q': "tracker_map t p = Some q'"
    by (auto simp: tracker_map_def map_of_eq_None_iff dest: weak_map_of_SomeI)
  then have "(p, q') \<in> pairs t"
    using assms set_tracked_pairs[of t] by (auto simp: tracker_map_def slots_wf_def dest: map_of_SomeD)
  with pq q' assms pairs_functional show "tracker_map t p = Some q" by blast
qed

lemma dom_tracker_map: "slots_wf t \<Longrightarrow> dom (tracker_map t) = fst ` pairs t"
  by (force simp: tracker_map_iff dom_def)

lemma in_dom_tracker_map:
  "slots_wf t \<Longrightarrow> p \<in> dom (tracker_map t) \<longleftrightarrow> (\<exists>j<tsize. slot_act t j \<and> slot_pid t j = p)"
  by (force simp: dom_tracker_map pairs_def)

lemma tracker_map_eqI:
  assumes "slots_wf t" "\<And>p q. m p = Some q \<longleftrightarrow> (p, q) \<in> pairs t"
  shows "tracker_map t = m"
proof
  fix p show "tracker_map t p = m p"
    using assms(2)[of p] tracker_map_iff[OF assms(1), of p] by (metis option.exhaust)
qed

section \<open>The operations on a table that satisfies the invariant\<close>

lemma tracker_ok_put:
  assumes ok: "tracker_ok t" and e: "e < tsize" "\<not> slot_act t e"
    and path: "\<And>k. k < tsize \<Longrightarrow> before tsize (home p) e k \<Longrightarrow> slot_act t k"
    and new: "\<And>j. j < tsize \<Longrightarrow> slot_act t j \<Longrightarrow> slot_pid t j \<noteq> p"
  shows "tracker_ok (put_entry t e p q)"
proof -
  have l: "length (entries t) = tsize" using ok by (simp add: tracker_ok_def slots_wf_def)
  have "probe_inv tsize ((slot_act t)(e := True)) ((slot_home t)(e := home p))"
    using ok e path by (intro probe_inv_insert) (simp_all add: tracker_ok_def)
  then show ?thesis
    using ok e new slots_wf_put[of t e p q] by (simp add: tracker_ok_def put_entry_slots[OF l e(1)])
qed

lemma tracker_map_put:
  assumes ok: "slots_wf t" and e: "e < tsize" "\<not> slot_act t e"
    and new: "\<And>j. j < tsize \<Longrightarrow> slot_act t j \<Longrightarrow> slot_pid t j \<noteq> p"
  shows "tracker_map (put_entry t e p q) = (tracker_map t)(p \<mapsto> q)"
proof (rule tracker_map_eqI)
  show "slots_wf (put_entry t e p q)" using ok e(1) new by (rule slots_wf_put)
  have "p \<notin> dom (tracker_map t)" using in_dom_tracker_map[OF ok] new by blast
  then show "((tracker_map t)(p \<mapsto> q)) x = Some y \<longleftrightarrow> (x, y) \<in> pairs (put_entry t e p q)" for x y
    using pairs_put[OF ok e, of p q] tracker_map_iff[OF ok, of x y] by auto
qed

text \<open>One step of the re-insertion loop.\<close>

lemma rehash_step:
  assumes inv: "hole_inv tsize (slot_act t) (slot_home t) r idx n g" and wf: "slots_wf t"
    and j: "j < tsize" "dist tsize idx j = n" "idx < tsize" "slot_act t j"
  obtains r' g' t' where
    "pid_tracker_add (clear_entry t j) (slot_pid t j) (slot_ppid t j) = (True, t')"
    "hole_inv tsize (slot_act t') (slot_home t') r' idx (Suc n) g'" "slots_wf t'" "pairs t' = pairs t"
proof -
  note result = that
  let ?t1 = "clear_entry t j" and ?p = "slot_pid t j" and ?q = "slot_ppid t j"
  have len: "length (entries t) = tsize" using wf by (simp add: slots_wf_def)
  note c = clear_entry_slots[OF len j(1)]
  have wf1: "slots_wf ?t1" using wf j(1) by (rule slots_wf_clear)
  have new: "slot_pid ?t1 k \<noteq> ?p" if "k < tsize" "slot_act ?t1 k" for k
    using that wf j unfolding slots_wf_def by (auto simp: c split: if_splits)
  have nf: "pid_tracker_find ?t1 ?p = None"
    using new pid_tracker_find_sound[of ?t1 ?p] by (cases "pid_tracker_find ?t1 ?p") auto
  have g: "g < tsize" "\<not> slot_act t g" using inv by (auto simp: hole_inv_def)
  have sh: "slot_home t j = home ?p" by (simp add: slot_home_def)
  have path: "k = g \<or> slot_act t k" if "k < tsize" "before tsize (home ?p) j k" for k
    using inv j that by (auto simp: hole_inv_def slot_home_def)
  have fin: thesis
    if e: "e < tsize" "\<not> slot_act ?t1 e" "\<And>k. k < tsize \<Longrightarrow> before tsize (home ?p) e k \<Longrightarrow> slot_act ?t1 k"
      and h: "hole_inv tsize (slot_act (put_entry ?t1 e ?p ?q)) (slot_home (put_entry ?t1 e ?p ?q)) r' idx (Suc n) g'"
    for e r' g'
  proof (rule result[OF _ h])
    show "pid_tracker_add ?t1 ?p ?q = (True, put_entry ?t1 e ?p ?q)"
      using nf add_probe_at[OF e] by (simp add: pid_tracker_add_def)
    show "slots_wf (put_entry ?t1 e ?p ?q)" using wf1 e(1) new by (rule slots_wf_put)
    show "pairs (put_entry ?t1 e ?p ?q) = pairs t"
      using pairs_put[OF wf1 e(1,2)] pairs_clear[OF wf j(1,4)] by simp
  qed
  show thesis
  proof (cases "before tsize (home ?p) j g")
    case True
    have hm: "hole_inv tsize ((slot_act t)(j := False, g := True)) ((slot_home t)(g := slot_home t j))
        (r(g := r j)) idx (Suc n) j"
      using inv j True by (intro hole_move) (simp_all add: slot_home_def)
    have asym: "\<not> before tsize (home ?p) g j" using True by (simp add: before_def)
    show thesis
    proof (rule fin[of g])
      show "slot_act ?t1 k" if "k < tsize" "before tsize (home ?p) g k" for k
        using path[OF that(1) before_trans[OF True that(2)]] that asym by (auto simp: c)
      show "hole_inv tsize (slot_act (put_entry ?t1 g ?p ?q)) (slot_home (put_entry ?t1 g ?p ?q))
          (r(g := r j)) idx (Suc n) j"
        using hm g by (simp add: put_entry_slots[OF c(5)] c sh)
    qed (use g in \<open>simp_all add: c\<close>)
  next
    case False
    have hs: "hole_inv tsize (slot_act t) (slot_home t) r idx (Suc n) g"
      using inv j False by (intro hole_stay) (simp_all add: slot_home_def)
    have same: "(slot_act t)(j := True) = slot_act t" "(slot_home t)(j := home ?p) = slot_home t"
      using j by (auto simp: slot_home_def fun_eq_iff)
    show thesis
    proof (rule fin[of j])
      show "slot_act ?t1 k" if "k < tsize" "before tsize (home ?p) j k" for k
        using path[OF that] that False by (auto simp: c)
      show "hole_inv tsize (slot_act (put_entry ?t1 j ?p ?q)) (slot_home (put_entry ?t1 j ?p ?q))
          r idx (Suc n) g"
        using hs j by (simp add: put_entry_slots[OF c(5)] c same)
    qed (use j in \<open>simp_all add: c\<close>)
  qed
qed

lemma rehash_loop:
  assumes "hole_inv tsize (slot_act t) (slot_home t) r idx n g" "slots_wf t" "idx < tsize" "n \<le> tsize"
  shows "tracker_ok (rehash_probe t idx [n..<tsize]) \<and> pairs (rehash_probe t idx [n..<tsize]) = pairs t"
  using assms
proof (induction "tsize - n" arbitrary: n t r g)
  case 0
  then have "n = tsize" by simp
  then show ?case
    using "0.prems" hole_done[of tsize "slot_act t" "slot_home t" r idx g] by (simp add: tracker_ok_def)
next
  case (Suc m)
  then have n: "n < tsize" by simp
  let ?j = "probe_index (of_nat idx) n"
  have j: "?j < tsize" "dist tsize idx ?j = n"
    using Suc.prems(3) n by (simp_all add: probe_index_idx dist_probe)
  have upt: "[n..<tsize] = n # [Suc n..<tsize]" using n by (rule upt_conv_Cons)
  show ?case
  proof (cases "slot_act t ?j")
    case False
    then have "tracker_ok t"
      using Suc.prems j hole_stop[of tsize "slot_act t" "slot_home t" r idx n g ?j]
      by (simp add: tracker_ok_def slot_home_def)
    with False show ?thesis by (simp add: upt slot_act_def Let_def)
  next
    case True
    obtain r' g' t' where s:
      "pid_tracker_add (clear_entry t ?j) (slot_pid t ?j) (slot_ppid t ?j) = (True, t')"
      "hole_inv tsize (slot_act t') (slot_home t') r' idx (Suc n) g'" "slots_wf t'" "pairs t' = pairs t"
      by (rule rehash_step[OF Suc.prems(1,2) j Suc.prems(3) True])
    have "te_is_tracked (entries t ! ?j)" using Suc.prems(2) True j by (simp add: slots_wf_def)
    with True s(1) have eq: "rehash_probe t idx [n..<tsize] = rehash_probe t' idx [Suc n..<tsize]"
      by (simp add: upt slot_defs Let_def)
    show ?thesis
      using Suc.hyps(1)[of "Suc n" t' r' g'] Suc.hyps(2) s Suc.prems(3) n by (simp add: eq)
  qed
qed

lemma pid_tracker_init_ok: "tracker_ok (pid_tracker_init fs n m tp)"
proof -
  have "\<not> slot_act (pid_tracker_init fs n m tp) e" if "e < tsize" for e
    using that by (simp add: slot_act_def pid_tracker_init_def zero_entry_def)
  then show ?thesis
    by (auto simp: tracker_ok_def slots_wf_def intro: probe_inv_empty) (simp add: pid_tracker_init_def)
qed

lemma pid_tracker_init_map: "tracker_map (pid_tracker_init fs n m tp) = Map.empty"
  by (simp add: tracker_map_def tracked_pairs_def pid_tracker_init_def zero_entry_def)

lemma pid_tracker_remove_correct:
  assumes ok: "tracker_ok t"
  shows "tracker_ok (pid_tracker_remove t p) \<and> tracker_map (pid_tracker_remove t p) = (tracker_map t)(p := None)"
proof (cases "pid_tracker_find t p")
  case None
  have wf: "slots_wf t" using ok by (simp add: tracker_ok_def)
  have "p \<notin> dom (tracker_map t)"
    using None pid_tracker_find_None[OF ok] in_dom_tracker_map[OF wf] by auto
  moreover from None have "pid_tracker_remove t p = t"
    by (simp add: pid_tracker_remove_def remove_probe_find pid_tracker_find_def)
  ultimately show ?thesis using ok by (simp add: domIff fun_upd_idem)
next
  case (Some idx)
  note idx = pid_tracker_find_sound[OF Some]
  have wf: "slots_wf t" using ok by (simp add: tracker_ok_def)
  let ?t1 = "clear_entry t idx"
  let ?t2 = "rehash_probe ?t1 idx [1..<tsize]"
  have eq: "pid_tracker_remove t p = ?t2"
    using Some by (simp add: pid_tracker_remove_def remove_probe_find pid_tracker_find_def)
  have c: "slot_act ?t1 = (slot_act t)(idx := False)" "slot_home ?t1 = slot_home t"
    using clear_entry_slots[of t idx] wf idx by (auto simp: slots_wf_def)
  have wf1: "slots_wf ?t1" using wf idx by (simp add: slots_wf_clear)
  obtain r where "hole_inv tsize (slot_act ?t1) (slot_home ?t1) r idx 1 idx"
    using hole_start[of tsize "slot_act t" "slot_home t" idx] ok idx unfolding tracker_ok_def c by blast
  then have t2: "tracker_ok ?t2" "pairs ?t2 = pairs ?t1"
    using rehash_loop[of ?t1 r idx 1 idx] wf1 idx TRACKED_PIDS_HASH_SIZE_def by auto
  have "tracker_map ?t2 = (tracker_map t)(p := None)"
  proof (rule tracker_map_eqI)
    show "slots_wf ?t2" using t2 by (simp add: tracker_ok_def)
    have "(x, y) \<in> pairs t \<longleftrightarrow> (x, y) = (p, slot_ppid t idx) \<or> (x, y) \<in> pairs ?t1" for x y
      using pairs_clear[OF wf, of idx] idx by simp
    moreover have "(p, y) \<notin> pairs ?t1" for y
      using pairs_clear_notin[OF wf, of idx y] idx by simp
    ultimately show "((tracker_map t)(p := None)) x = Some y \<longleftrightarrow> (x, y) \<in> pairs ?t2" for x y
      unfolding t2(2) using tracker_map_iff[OF wf, of x y] by (cases "x = p") simp_all
  qed
  with t2 eq show ?thesis by simp
qed

lemma full_iff_card:
  assumes wf: "slots_wf t"
  shows "(\<forall>j<tsize. slot_act t j) \<longleftrightarrow> tsize \<le> card (dom (tracker_map t))"
proof -
  let ?A = "{j. j < tsize \<and> slot_act t j}"
  have "dom (tracker_map t) = slot_pid t ` ?A"
    using in_dom_tracker_map[OF wf] by (auto simp: set_eq_iff image_iff)
  moreover have "inj_on (slot_pid t) ?A"
    using wf by (auto simp: inj_on_def slots_wf_def)
  ultimately have card: "card (dom (tracker_map t)) = card ?A" by (simp add: card_image)
  have "?A \<subseteq> {..<tsize}" by auto
  then have "tsize \<le> card ?A \<longleftrightarrow> ?A = {..<tsize}"
    using card_subset_eq[of "{..<tsize}" ?A] card_mono[of "{..<tsize}" ?A] by fastforce
  then show ?thesis using card by (auto simp: set_eq_iff)
qed

lemma pid_tracker_add_correct:
  assumes ok: "tracker_ok t"
  shows "tracker_ok (snd (pid_tracker_add t p q))"
    and "fst (pid_tracker_add t p q) \<longleftrightarrow> p \<in> dom (tracker_map t) \<or> card (dom (tracker_map t)) < tsize"
    and "tracker_map (snd (pid_tracker_add t p q)) =
      (if p \<in> dom (tracker_map t) \<or> \<not> fst (pid_tracker_add t p q) then tracker_map t else (tracker_map t)(p \<mapsto> q))"
proof -
  have wf: "slots_wf t" using ok by (simp add: tracker_ok_def)
  have "tracker_ok (snd (pid_tracker_add t p q)) \<and>
    (fst (pid_tracker_add t p q) \<longleftrightarrow> p \<in> dom (tracker_map t) \<or> card (dom (tracker_map t)) < tsize) \<and>
    tracker_map (snd (pid_tracker_add t p q)) =
      (if p \<in> dom (tracker_map t) \<or> \<not> fst (pid_tracker_add t p q) then tracker_map t else (tracker_map t)(p \<mapsto> q))"
  proof (cases "pid_tracker_find t p")
    case (Some j)
    then have "p \<in> dom (tracker_map t)"
      using pid_tracker_find_sound in_dom_tracker_map[OF wf] by blast
    with Some ok show ?thesis by (simp add: pid_tracker_add_def)
  next
    case None
    then have new: "\<And>j. j < tsize \<Longrightarrow> slot_act t j \<Longrightarrow> slot_pid t j \<noteq> p"
      using pid_tracker_find_None[OF ok] by blast
    then have nd: "p \<notin> dom (tracker_map t)" using in_dom_tracker_map[OF wf] by blast
    have add: "pid_tracker_add t p q = add_probe t p q (pid_hash p) [0..<tsize]"
      using None by (simp add: pid_tracker_add_def)
    show ?thesis
    proof (cases rule: add_probe_cases[of t p q])
      case full
      then have "tsize \<le> card (dom (tracker_map t))" using full_iff_card[OF wf] by blast
      with full ok nd add show ?thesis by simp
    next
      case (room e)
      then have "card (dom (tracker_map t)) < tsize" using full_iff_card[OF wf] by fastforce
      with room tracker_ok_put[OF ok room(1-3) new, of q] tracker_map_put[OF wf room(1,2) new, of q] nd add
      show ?thesis by simp
    qed
  qed
  then show "tracker_ok (snd (pid_tracker_add t p q))"
    and "fst (pid_tracker_add t p q) \<longleftrightarrow> p \<in> dom (tracker_map t) \<or> card (dom (tracker_map t)) < tsize"
    and "tracker_map (snd (pid_tracker_add t p q)) =
      (if p \<in> dom (tracker_map t) \<or> \<not> fst (pid_tracker_add t p q) then tracker_map t else (tracker_map t)(p \<mapsto> q))"
    by blast+
qed

section \<open>The tracker implements the bounded map contract\<close>

interpretation tracker: bounded_map tracker_map pid_tracker_add pid_tracker_remove tracker_ok TRACKED_PIDS_HASH_SIZE
proof unfold_locales
  show "finite (dom (tracker_map t))" for t
    by (simp add: tracker_map_def finite_dom_map_of)
qed (use pid_tracker_add_correct pid_tracker_remove_correct in auto)

lemma is_tracked_iff:
  assumes ok: "tracker_ok t"
  shows "pid_tracker_is_tracked t p \<longleftrightarrow> p \<in> dom (tracker_map t)"
proof -
  have wf: "slots_wf t" using ok by (simp add: tracker_ok_def)
  show ?thesis
  proof (cases "pid_tracker_find t p")
    case None
    then show ?thesis
      using pid_tracker_find_None[OF ok, of p] in_dom_tracker_map[OF wf, of p]
      by (simp add: pid_tracker_is_tracked_def)
  next
    case (Some j)
    then show ?thesis
      using pid_tracker_find_sound[OF Some] in_dom_tracker_map[OF wf, of p] wf
      by (auto simp: pid_tracker_is_tracked_def slots_wf_def)
  qed
qed

lemma command_matches_iff:
  "command_matches_any_filter comm fs n \<longleftrightarrow> c_str comm \<in> c_str ` set (take n fs)"
  by (induction comm fs n rule: command_matches_any_filter.induct) auto

lemma should_track_iff:
  assumes "tracker_ok t"
  shows "should_track_process t comm pid ppid \<longleftrightarrow>
    filter_mode t \<noteq> FILTER_MODE_FILTER \<or>
    (0 < sint (target_pid t) \<and> pid = target_pid t) \<or> ppid \<in> dom (tracker_map t) \<or>
    c_str comm \<in> c_str ` set (take (command_filter_count t) (command_filters t))"
  using is_tracked_iff[OF assms, of ppid]
  by (cases "filter_mode t"; cases "command_filter_count t")
    (simp_all add: should_track_process_def command_matches_iff)

text \<open>The operations change the entries only.\<close>

definition tracker_config :: "pid_tracker \<Rightarrow> bytes list \<times> nat \<times> filter_mode \<times> pid_t" where
  "tracker_config t = (command_filters t, command_filter_count t, filter_mode t, target_pid t)"

lemma put_clear_config [simp]:
  "tracker_config (put_entry t i p q) = tracker_config t" "tracker_config (clear_entry t i) = tracker_config t"
  by (simp_all add: tracker_config_def put_entry_def clear_entry_def)

lemma pid_tracker_add_config [simp]: "tracker_config (snd (pid_tracker_add t p q)) = tracker_config t"
  by (auto simp: pid_tracker_add_def add_probe_find split: option.splits)

lemma rehash_probe_config: "tracker_config (rehash_probe t i ns) = tracker_config t"
  by (induction ns arbitrary: t) (simp_all add: Let_def)

lemma pid_tracker_remove_config [simp]: "tracker_config (pid_tracker_remove t p) = tracker_config t"
  by (auto simp: pid_tracker_remove_def remove_probe_find rehash_probe_config split: option.splits)

lemma tracked_pairs_distinct:
  assumes "slots_wf t"
  shows "distinct (map fst (tracked_pairs t))"
proof -
  have "distinct (map te_pid (filter te_is_active (entries t)))"
    using assms unfolding slots_wf_def slot_defs by (intro distinct_map_filterI) simp
  then show ?thesis by (simp add: tracked_pairs_def comp_def)
qed

section \<open>Properties\<close>

text \<open>
  C4: Every sequence of \<open>pid_tracker_add\<close> and \<open>pid_tracker_remove\<close> calls on a freshly initialised
  tracker leaves exactly the pairs that a map of capacity 4096 would hold: no tracked process is
  lost or resurrected by collisions, by deletions inside a cluster or by a full table.
\<close>

theorem tracker_refines_bounded_map:
  "tracker_map (run_ops pid_tracker_add pid_tracker_remove (pid_tracker_init fs n m tp) xs) =
     spec_run TRACKED_PIDS_HASH_SIZE Map.empty xs"
  using tracker.run_refines[OF pid_tracker_init_ok] by (simp add: pid_tracker_init_map)

text \<open>
  \<open>pid_tracker_remove\<close> forgets the given PID and nothing else, and keeps the table invariant.
\<close>

theorem pid_tracker_remove_exact:
  assumes "tracker_ok t"
  shows "tracker_ok (pid_tracker_remove t p) \<and>
    (\<forall>q. pid_tracker_is_tracked (pid_tracker_remove t p) q \<longleftrightarrow> q \<noteq> p \<and> pid_tracker_is_tracked t q)"
  using assms tracker.remove_invar[of t p] tracker.dom_remove[of t p] by (auto simp: is_tracked_iff)

theorem pid_tracker_remove_exact_witness:
  "tracker_ok (pid_tracker_init [] 0 FILTER_MODE_ALL 0) \<and>
   \<not> pid_tracker_is_tracked (pid_tracker_remove (pid_tracker_init [] 0 FILTER_MODE_ALL 0) 7) 7"
  using pid_tracker_remove_exact[OF pid_tracker_init_ok[of "[]" 0 FILTER_MODE_ALL 0], of 7]
    pid_tracker_init_ok[of "[]" 0 FILTER_MODE_ALL 0] by blast

text \<open>
  \<open>pid_tracker_add\<close> returns true exactly when the PID is tracked afterwards, that is when it was
  already tracked or the table holds fewer than 4096 PIDs; it never changes the status of another PID.
\<close>

theorem pid_tracker_add_exact:
  assumes "tracker_ok t" "pid_tracker_add t p q = (b, t')"
  shows "tracker_ok t' \<and> b = pid_tracker_is_tracked t' p \<and>
    (b \<longleftrightarrow> pid_tracker_is_tracked t p \<or> card (dom (tracker_map t)) < TRACKED_PIDS_HASH_SIZE) \<and>
    (\<forall>x. x \<noteq> p \<longrightarrow> pid_tracker_is_tracked t' x = pid_tracker_is_tracked t x)"
  using assms tracker.add_invar[of t p q] tracker.add_result[of t p q] tracker.add_present[of t p q]
    tracker.add_lookup[of t p q]
  by (auto simp: is_tracked_iff split: if_splits)

theorem pid_tracker_add_exact_witness:
  "fst (pid_tracker_add (pid_tracker_init [] 0 FILTER_MODE_ALL 0) 7 1)"
proof -
  let ?t = "pid_tracker_init [] 0 FILTER_MODE_ALL 0"
  have "fst (pid_tracker_add ?t 7 1) \<longleftrightarrow>
      pid_tracker_is_tracked ?t 7 \<or> card (dom (tracker_map ?t)) < TRACKED_PIDS_HASH_SIZE"
    using pid_tracker_add_exact[OF pid_tracker_init_ok surjective_pairing, of "[]" 0 FILTER_MODE_ALL 0 7 1]
    by blast
  then show ?thesis by (simp add: pid_tracker_init_map TRACKED_PIDS_HASH_SIZE_def)
qed

text \<open>
  Looking a PID up returns the one active slot that holds it, whatever other entries share
  its probe sequence, and reports absence only when no active slot holds it.
\<close>

theorem pid_tracker_find_exact:
  assumes "tracker_ok t"
  shows "pid_tracker_find t p = Some j \<longleftrightarrow>
    j < TRACKED_PIDS_HASH_SIZE \<and> te_is_active (entries t ! j) \<and> te_pid (entries t ! j) = p"
  using pid_tracker_find_sound[of t p j] pid_tracker_find_complete[OF assms, of j p]
  by (auto simp: slot_act_def slot_pid_def)

theorem pid_tracker_find_exact_witness:
  "pid_tracker_find (pid_tracker_init [] 0 FILTER_MODE_ALL 0) 7 \<noteq> Some 7"
  using pid_tracker_find_exact[OF pid_tracker_init_ok[of "[]" 0 FILTER_MODE_ALL 0], of 7 7]
  by (simp add: pid_tracker_init_def zero_entry_def TRACKED_PIDS_HASH_SIZE_def)

text \<open>
  In filter mode a process is selected exactly when it is the requested PID, its parent is
  tracked, or its command name equals one of the first \<open>command_filter_count\<close> filters; in the two
  other modes every process is selected.
\<close>

theorem should_track_process_exact:
  assumes "tracker_ok t"
  shows "should_track_process t comm pid ppid \<longleftrightarrow>
    filter_mode t \<noteq> FILTER_MODE_FILTER \<or>
    (0 < sint (target_pid t) \<and> pid = target_pid t) \<or> ppid \<in> dom (tracker_map t) \<or>
    c_str comm \<in> c_str ` set (take (command_filter_count t) (command_filters t))"
  by (rule should_track_iff[OF assms])

theorem should_track_process_exact_witness:
  "should_track_process (pid_tracker_init [''claude''] 1 FILTER_MODE_FILTER 0) ''claude'' 7 1 \<and>
   \<not> should_track_process (pid_tracker_init [''claude''] 1 FILTER_MODE_FILTER 0) ''bash'' 7 1"
  using should_track_process_exact[OF pid_tracker_init_ok[of "[''claude'']" 1 FILTER_MODE_FILTER 0]]
  by (simp add: pid_tracker_init_map) (simp add: pid_tracker_init_def)

text \<open>
  \<open>pid_tracker_foreach\<close> visits every tracked PID exactly once, with its recorded parent.
\<close>

theorem pid_tracker_foreach_exact:
  assumes "tracker_ok t"
  shows "distinct (map fst (pid_tracker_foreach t (\<lambda>p q ps. (p, q) # ps) [])) \<and>
    (\<forall>p q. (p, q) \<in> set (pid_tracker_foreach t (\<lambda>p q ps. (p, q) # ps) []) \<longleftrightarrow> tracker_map t p = Some q)"
proof -
  have wf: "slots_wf t" using assms by (simp add: tracker_ok_def)
  have *: "fold (\<lambda>e c. if te_is_active e then (te_pid e, te_ppid e) # c else c) es ps =
      rev (map (\<lambda>e. (te_pid e, te_ppid e)) (filter te_is_active es)) @ ps" for es ps
    by (induction es arbitrary: ps) auto
  have eq: "pid_tracker_foreach t (\<lambda>p q ps. (p, q) # ps) [] = rev (tracked_pairs t)"
    by (simp add: pid_tracker_foreach_def * tracked_pairs_def)
  have "set (tracked_pairs t) = pairs t"
    using wf set_tracked_pairs by (simp add: slots_wf_def)
  then show ?thesis
    using tracked_pairs_distinct[OF wf] tracker_map_iff[OF wf] by (simp add: eq rev_map[symmetric])
qed

theorem pid_tracker_foreach_exact_witness:
  "distinct (map fst (pid_tracker_foreach (pid_tracker_init [] 0 FILTER_MODE_ALL 0) (\<lambda>p q ps. (p, q) # ps) []))"
  using pid_tracker_foreach_exact[OF pid_tracker_init_ok[of "[]" 0 FILTER_MODE_ALL 0]] by blast

end
