(* ===== verification/Process_Options.thy ===== *)
theory Process_Options
  imports Process_Filter Proc_Info
begin

text \<open>
  The command line of the process tracer (\<open>bpf/process.c\<close>, \<open>parse_seed_pid_arg\<close> and \<open>parse_arg\<close>).
  \<open>argp_usage\<close> prints the usage and exits, so it is the error value \<open>Usage\<close>; memory allocation is
  assumed to succeed.
\<close>

section \<open>The code\<close>

definition MAX_COMMAND_LIST :: nat where
  "MAX_COMMAND_LIST = 256"

definition MAX_SEED_PIDS :: nat where
  "MAX_SEED_PIDS = 4096"

record seed_pid =
  sp_pid :: pid_t
  sp_ppid :: pid_t

record options =
  opt_verbose :: bool
  opt_min_duration_ms :: int
  opt_command_list :: "bytes list"
  opt_seed_pids :: "seed_pid list"
  opt_filter_mode :: filter_mode
  opt_pid :: pid_t
  opt_session_id :: pid_t
  opt_trace_fs :: bool
  opt_trace_net :: bool
  opt_trace_signals :: bool
  opt_trace_mem :: bool
  opt_trace_cow :: bool
  opt_cgroup_filter_path :: bytes
  opt_cgroup_filter_enabled :: bool
  opt_cgroup_filter_children :: bool

definition default_options :: options where
  "default_options = \<lparr>opt_verbose = False, opt_min_duration_ms = 0, opt_command_list = [], opt_seed_pids = [],
     opt_filter_mode = FILTER_MODE_PROC, opt_pid = 0, opt_session_id = 0, opt_trace_fs = False, opt_trace_net = False,
     opt_trace_signals = False, opt_trace_mem = False, opt_trace_cow = False, opt_cgroup_filter_path = [],
     opt_cgroup_filter_enabled = False, opt_cgroup_filter_children = False\<rparr>"

definition parse_seed_pid_arg :: "bytes \<Rightarrow> seed_pid option" where
  "parse_seed_pid_arg arg =
     (case strtol arg of (pid, end1) \<Rightarrow>
        if strtol_range arg \<or> pid \<le> 0 then None
        else if end1 \<noteq> [] \<and> hd end1 = CHR '':'' then
          (case strtol (tl end1) of (ppid, end2) \<Rightarrow>
             if strtol_range (tl end1) \<or> length end2 = length (tl end1) \<or> ppid < 0 then None
             else if end2 \<noteq> [] then None
             else Some \<lparr>sp_pid = word_of_int pid, sp_ppid = word_of_int ppid\<rparr>)
        else if end1 \<noteq> [] then None
        else Some \<lparr>sp_pid = word_of_int pid, sp_ppid = 0\<rparr>)"

text \<open>The option keys with their arguments.\<close>

datatype opt_arg =
    Opt_v | Opt_d bytes | Opt_p bytes | Opt_session bytes | Opt_a | Opt_m bytes | Opt_c bytes
  | OPT_TRACE_FS | OPT_TRACE_NET | OPT_TRACE_SIGNALS | OPT_TRACE_MEM | OPT_TRACE_COW | OPT_TRACE_ALL
  | OPT_CGROUP_FILTER bytes | OPT_CGROUP_FILTER_CHILDREN | OPT_SEED_PID bytes | ARGP_KEY_ARG bytes | Opt_unknown

datatype opt_error = Usage | ARGP_ERR_UNKNOWN

text \<open>The tokens \<open>strtok_r\<close> returns: the non-empty pieces between the separators.\<close>

function split_commas :: "bytes \<Rightarrow> bytes list" where
  "split_commas s =
     (if s = [] then [] else
        let t = takeWhile (\<lambda>c. c \<noteq> CHR '','') s in
        (if t = [] then [] else [t]) @ split_commas (drop (length t + 1) s))"
  by pat_completeness auto
termination
  by (relation "measure length") auto

declare split_commas.simps [simp del]

definition is_blank :: "char \<Rightarrow> bool" where
  "is_blank c \<longleftrightarrow> c = CHR '' '' \<or> c = CHR 0x09"

text \<open>Dropping blanks on both ends; the trailing loop stops at the first character.\<close>

definition trim_token :: "bytes \<Rightarrow> bytes" where
  "trim_token token =
     (let t = dropWhile is_blank token in
      if t = [] then [] else hd t # rev (dropWhile is_blank (rev (tl t))))"

fun add_commands :: "bytes list \<Rightarrow> bytes list \<Rightarrow> bytes list" where
  "add_commands [] cmds = cmds"
| "add_commands (token # tokens) cmds =
     (if length cmds < MAX_COMMAND_LIST then
        add_commands tokens (if 0 < length (trim_token token) then cmds @ [trim_token token] else cmds)
      else cmds)"

definition mode_of :: "int \<Rightarrow> filter_mode" where
  "mode_of n = (if n = 0 then FILTER_MODE_ALL else if n = 1 then FILTER_MODE_PROC else FILTER_MODE_FILTER)"

fun parse_arg :: "opt_arg \<Rightarrow> options \<Rightarrow> opt_error + options" where
  "parse_arg Opt_v env = Inr (env\<lparr>opt_verbose := True\<rparr>)"
| "parse_arg (Opt_d arg) env =
     (let n = fst (strtol arg) in
      if strtol_range arg \<or> n \<le> 0 then Inl Usage else Inr (env\<lparr>opt_min_duration_ms := n\<rparr>))"
| "parse_arg (Opt_p arg) env =
     (let n = word_of_int (fst (strtol arg)) :: pid_t in
      if strtol_range arg \<or> sint n \<le> 0 then Inl Usage
      else Inr (env\<lparr>opt_pid := n, opt_filter_mode := FILTER_MODE_FILTER\<rparr>))"
| "parse_arg (Opt_session arg) env =
     (let n = word_of_int (fst (strtol arg)) :: pid_t in
      if strtol_range arg \<or> sint n \<le> 0 then Inl Usage
      else Inr (env\<lparr>opt_session_id := n, opt_filter_mode := FILTER_MODE_FILTER\<rparr>))"
| "parse_arg Opt_a env = Inr (env\<lparr>opt_filter_mode := FILTER_MODE_ALL\<rparr>)"
| "parse_arg (Opt_m arg) env =
     (let mode = sint (word_of_int (fst (strtol arg)) :: i32) in
      if strtol_range arg \<or> mode < 0 \<or> 2 < mode then Inl Usage
      else Inr (env\<lparr>opt_filter_mode := mode_of mode\<rparr>))"
| "parse_arg (Opt_c arg) env =
     Inr (env\<lparr>opt_filter_mode := FILTER_MODE_FILTER,
              opt_command_list := add_commands (split_commas arg) (opt_command_list env)\<rparr>)"
| "parse_arg OPT_TRACE_FS env = Inr (env\<lparr>opt_trace_fs := True\<rparr>)"
| "parse_arg OPT_TRACE_NET env = Inr (env\<lparr>opt_trace_net := True\<rparr>)"
| "parse_arg OPT_TRACE_SIGNALS env = Inr (env\<lparr>opt_trace_signals := True\<rparr>)"
| "parse_arg OPT_TRACE_MEM env = Inr (env\<lparr>opt_trace_mem := True\<rparr>)"
| "parse_arg OPT_TRACE_COW env = Inr (env\<lparr>opt_trace_cow := True\<rparr>)"
| "parse_arg OPT_TRACE_ALL env =
     Inr (env\<lparr>opt_trace_fs := True, opt_trace_net := True, opt_trace_signals := True, opt_trace_mem := True\<rparr>)"
| "parse_arg (OPT_CGROUP_FILTER arg) env =
     Inr (env\<lparr>opt_cgroup_filter_path := take 255 arg, opt_cgroup_filter_enabled := True\<rparr>)"
| "parse_arg OPT_CGROUP_FILTER_CHILDREN env = Inr (env\<lparr>opt_cgroup_filter_children := True\<rparr>)"
| "parse_arg (OPT_SEED_PID arg) env =
     (if MAX_SEED_PIDS \<le> length (opt_seed_pids env) then Inl Usage
      else case parse_seed_pid_arg arg of
          None \<Rightarrow> Inl Usage
        | Some seed \<Rightarrow> Inr (env\<lparr>opt_seed_pids := opt_seed_pids env @ [seed]\<rparr>))"
| "parse_arg (ARGP_KEY_ARG arg) env = Inl Usage"
| "parse_arg Opt_unknown env = Inl ARGP_ERR_UNKNOWN"

fun argp_parse :: "opt_arg list \<Rightarrow> options \<Rightarrow> opt_error + options" where
  "argp_parse [] env = Inr env"
| "argp_parse (a # as) env = (case parse_arg a env of Inl e \<Rightarrow> Inl e | Inr env' \<Rightarrow> argp_parse as env')"

section \<open>Invariant\<close>

text \<open>What the rest of the program relies on after parsing.\<close>

definition cmd_ok :: "bytes \<Rightarrow> bool" where
  "cmd_ok c \<longleftrightarrow> c \<noteq> [] \<and> \<not> is_blank (hd c)"

definition options_ok :: "options \<Rightarrow> bool" where
  "options_ok env \<longleftrightarrow> 0 \<le> opt_min_duration_ms env \<and> 0 \<le> sint (opt_pid env) \<and> 0 \<le> sint (opt_session_id env) \<and>
     length (opt_command_list env) \<le> MAX_COMMAND_LIST \<and> length (opt_seed_pids env) \<le> MAX_SEED_PIDS \<and>
     length (opt_cgroup_filter_path env) < 256 \<and> list_all cmd_ok (opt_command_list env)"

lemma trim_token_ok: "0 < length (trim_token t) \<Longrightarrow> cmd_ok (trim_token t)"
proof -
  assume "0 < length (trim_token t)"
  then have "dropWhile is_blank t \<noteq> []" unfolding trim_token_def Let_def by (metis length_greater_0_conv)
  from hd_dropWhile[OF this] this show ?thesis by (simp add: trim_token_def cmd_ok_def Let_def)
qed

lemma add_commands_ok:
  "length cmds \<le> MAX_COMMAND_LIST \<Longrightarrow> list_all cmd_ok cmds \<Longrightarrow>
     length (add_commands ts cmds) \<le> MAX_COMMAND_LIST \<and> list_all cmd_ok (add_commands ts cmds)"
proof (induction ts cmds rule: add_commands.induct)
  case (2 t ts cmds)
  show ?case
  proof (cases "length cmds < MAX_COMMAND_LIST")
    case True
    let ?cmds = "if 0 < length (trim_token t) then cmds @ [trim_token t] else cmds"
    have "length ?cmds \<le> MAX_COMMAND_LIST" "list_all cmd_ok ?cmds"
      using True 2(3) trim_token_ok[of t] by auto
    from "2.IH"[OF True this] show ?thesis using True by (simp only: add_commands.simps if_True)
  next
    case False
    then show ?thesis using 2(2,3) by (simp only: add_commands.simps if_False)
  qed
qed simp

lemma parse_arg_ok:
  assumes ok: "options_ok env" and parse: "parse_arg a env = Inr env'"
  shows "options_ok env'"
proof (cases a)
  case (Opt_c arg)
  then show ?thesis
    using ok parse add_commands_ok[of "opt_command_list env" "split_commas arg"] by (simp add: options_ok_def) force
next
  case (Opt_d arg)
  then show ?thesis using ok parse by (simp add: options_ok_def Let_def split: if_splits) force
next
  case (Opt_p arg)
  let ?n = "word_of_int (fst (strtol arg)) :: pid_t"
  have p: "(if strtol_range arg \<or> sint ?n \<le> 0 then Inl Usage
      else Inr (env\<lparr>opt_pid := ?n, opt_filter_mode := FILTER_MODE_FILTER\<rparr>)) = Inr env'"
    using parse by (simp only: Opt_p parse_arg.simps Let_def)
  then have n: "\<not> sint ?n \<le> 0" by (metis Inl_Inr_False)
  from p have "env\<lparr>opt_pid := ?n, opt_filter_mode := FILTER_MODE_FILTER\<rparr> = env'"
    by (cases "strtol_range arg \<or> sint ?n \<le> 0") (simp_all only: if_True if_False sum.inject Inl_Inr_False)
  from this[symmetric] show ?thesis using ok n by (simp add: options_ok_def)
next
  case (Opt_session arg)
  let ?n = "word_of_int (fst (strtol arg)) :: pid_t"
  have p: "(if strtol_range arg \<or> sint ?n \<le> 0 then Inl Usage
      else Inr (env\<lparr>opt_session_id := ?n, opt_filter_mode := FILTER_MODE_FILTER\<rparr>)) = Inr env'"
    using parse by (simp only: Opt_session parse_arg.simps Let_def)
  then have n: "\<not> sint ?n \<le> 0" by (metis Inl_Inr_False)
  from p have "env\<lparr>opt_session_id := ?n, opt_filter_mode := FILTER_MODE_FILTER\<rparr> = env'"
    by (cases "strtol_range arg \<or> sint ?n \<le> 0") (simp_all only: if_True if_False sum.inject Inl_Inr_False)
  from this[symmetric] show ?thesis using ok n by (simp add: options_ok_def)
next
  case (Opt_m arg)
  let ?m = "sint (word_of_int (fst (strtol arg)) :: i32)"
  have "(if strtol_range arg \<or> ?m < 0 \<or> 2 < ?m then Inl Usage else Inr (env\<lparr>opt_filter_mode := mode_of ?m\<rparr>)) = Inr env'"
    using parse by (simp only: Opt_m parse_arg.simps Let_def)
  then have "env\<lparr>opt_filter_mode := mode_of ?m\<rparr> = env'"
    by (cases "strtol_range arg \<or> ?m < 0 \<or> 2 < ?m") (simp_all only: if_True if_False sum.inject Inl_Inr_False)
  from this[symmetric] show ?thesis using ok by (simp add: options_ok_def)
next
  case (OPT_SEED_PID arg)
  then obtain seed where "length (opt_seed_pids env) < MAX_SEED_PIDS" "env' = env\<lparr>opt_seed_pids := opt_seed_pids env @ [seed]\<rparr>"
    using parse by (auto split: if_splits option.splits)
  then show ?thesis using ok by (simp add: options_ok_def)
qed (use ok parse in \<open>auto simp: options_ok_def\<close>)

section \<open>Properties\<close>

text \<open>
  C39: Every command line that is accepted leaves the options within their bounds: the arrays of
  commands and seeds do not overflow, PIDs and the session are non-negative, the cgroup path fits
  its buffer and every command to match is a non-empty word that does not start with a blank.
\<close>

theorem accepted_options_ok:
  "argp_parse as default_options = Inr env \<Longrightarrow> options_ok env"
proof -
  have "options_ok e \<Longrightarrow> argp_parse as e = Inr env \<Longrightarrow> options_ok env" for e
    by (induction as arbitrary: e) (auto split: sum.splits intro: parse_arg_ok)
  moreover have "options_ok default_options"
    by (simp add: options_ok_def default_options_def)
  ultimately show "argp_parse as default_options = Inr env \<Longrightarrow> options_ok env" by blast
qed

theorem accepted_options_ok_witness:
  "options_ok (default_options\<lparr>opt_verbose := True, opt_trace_fs := True\<rparr>)"
  using accepted_options_ok[of "[Opt_v, OPT_TRACE_FS]"] by simp

text \<open>
  A seed written as \<open>pid:ppid\<close> in decimal is read back exactly when both are below \<open>2 ^ 31\<close>. A PID of
  \<open>2 ^ 32\<close> or more that still fits a \<open>long\<close> is accepted too and cut down to 32 bits, so that for
  example \<open>4294967296\<close> seeds PID 0.
\<close>

theorem parse_seed_pid_roundtrip:
  assumes "0 < pid" "pid < 2 ^ 63" "ppid < 2 ^ 63"
  shows "parse_seed_pid_arg (dec_nat pid @ '':'' @ dec_nat ppid) = Some \<lparr>sp_pid = of_nat pid, sp_ppid = of_nat ppid\<rparr>"
proof -
  have c: "\<not> is_digit (CHR '':'')" by (simp add: is_digit_def)
  note p = strtol_dec_nat_rest[OF assms(2), of "'':'' @ dec_nat ppid"]
  note q = strtol_dec_nat_rest[OF assms(3), of "[]"]
  have "dec_nat ppid \<noteq> []" using dec_nat_digits by blast
  then show ?thesis using p q assms(1) c by (simp add: parse_seed_pid_arg_def)
qed

theorem parse_seed_pid_roundtrip_witness:
  "parse_seed_pid_arg (dec_nat 4294967296 @ '':'' @ dec_nat 1) = Some \<lparr>sp_pid = 0, sp_ppid = 1\<rparr>"
  using parse_seed_pid_roundtrip[of 4294967296 1] by simp

end
