(* ===== verification/File_Opens.thy ===== *)
theory File_Opens
  imports Process_Bpf Jsonl "HOL-Library.Multiset"
begin

text \<open>
  Rate limiting, deduplication and printing of file-open events in the process tracer's user space
  (\<open>bpf/process.c\<close>). The two static tables are lists whose length is the C counter. \<open>sweep\<close> is the
  loop that removes entries by moving the last one into the gap. \<open>procfs\<close> gives the contents of a
  process's status and cgroup files.
\<close>

unbundle bit_operations_syntax

section \<open>The code\<close>

definition FILE_DEDUP_WINDOW_NS :: u64 where
  "FILE_DEDUP_WINDOW_NS = 60000000000"

definition MAX_FILE_HASHES :: nat where
  "MAX_FILE_HASHES = 1024"

definition MAX_PID_LIMITS :: nat where
  "MAX_PID_LIMITS = 256"

definition MAX_DISTINCT_FILES_PER_SEC :: nat where
  "MAX_DISTINCT_FILES_PER_SEC = 30"

record per_second_limit =
  pl_pid :: pid_t
  pl_current_second :: u64
  pl_distinct_file_count :: u32
  pl_should_warn_next :: bool

record file_hash_entry =
  fh_hash :: u64
  fh_timestamp_ns :: u64
  fh_count :: u32
  fh_pid :: pid_t
  fh_comm :: bytes
  fh_filepath :: bytes
  fh_flags :: i32

record opens_state =
  file_hashes :: "file_hash_entry list"
  pid_limits :: "per_second_limit list"

type_synonym procfs = "pid_t \<Rightarrow> bytes option \<times> bytes option"

text \<open>The members of the union; the kernel side sets the type and the member together.\<close>

definition file_op_of :: "event \<Rightarrow> file_op" where
  "file_op_of e = (case e_payload e of FileOp f \<Rightarrow> f
     | Filename b \<Rightarrow> \<lparr>fo_filepath = b, fo_fd = 0, fo_flags = 0, fo_is_open = False\<rparr>
     | Command b \<Rightarrow> \<lparr>fo_filepath = take MAX_FILENAME_LEN b, fo_fd = 0, fo_flags = 0, fo_is_open = False\<rparr>)"

text \<open>The rest of \<open>should_rate_limit_file\<close> once the entry of the PID is at index \<open>i\<close>.\<close>

definition charge_limit :: "per_second_limit list \<Rightarrow> nat \<Rightarrow> u64 \<Rightarrow> bool \<times> bool \<times> per_second_limit list" where
  "charge_limit limits i current_second =
     (let limit = limits ! i;
          new_second = (pl_current_second limit \<noteq> current_second);
          add_warning = (new_second \<and> pl_should_warn_next limit);
          limit1 = (if new_second then
                      limit\<lparr>pl_should_warn_next := (if pl_should_warn_next limit then False else pl_should_warn_next limit),
                            pl_current_second := current_second, pl_distinct_file_count := 0\<rparr>
                    else limit);
          limit2 = limit1\<lparr>pl_distinct_file_count := pl_distinct_file_count limit1 + 1\<rparr>
      in if of_nat MAX_DISTINCT_FILES_PER_SEC < pl_distinct_file_count limit2
         then (True, add_warning, limits[i := limit2\<lparr>pl_should_warn_next := True\<rparr>])
         else (False, add_warning, limits[i := limit2]))"

definition should_rate_limit_file ::
  "pid_t \<Rightarrow> u64 \<Rightarrow> per_second_limit list \<Rightarrow> bool \<times> bool \<times> per_second_limit list" where
  "should_rate_limit_file pid timestamp_ns limits =
     (let current_second = timestamp_ns div 1000000000 in
      case List.find (\<lambda>i. pl_pid (limits ! i) = pid) [0..<length limits] of
        Some i \<Rightarrow> charge_limit limits i current_second
      | None \<Rightarrow>
          if length limits < MAX_PID_LIMITS then
            charge_limit (limits @ [\<lparr>pl_pid = pid, pl_current_second = current_second,
              pl_distinct_file_count = 0, pl_should_warn_next = False\<rparr>]) (length limits) current_second
          else (False, False, limits))"

definition print_file_open_event :: "procfs \<Rightarrow> event \<Rightarrow> u64 \<Rightarrow> u32 \<Rightarrow> bytes option \<Rightarrow> bytes" where
  "print_file_open_event procs e timestamp_ns cnt extra_fields =
     (let comm_esc = json_escape (e_comm e) (TASK_COMM_LEN * 2 + 1);
          filepath_esc = json_escape (fo_filepath (file_op_of e)) (MAX_FILENAME_LEN * 2 + 1)
      in ''{\"timestamp\":'' @ dec_nat (unat timestamp_ns) @ '',\"event\":\"FILE_OPEN\",'' @
         ''\"comm\":\"'' @ comm_esc @ ''\",\"pid\":'' @ dec_int (sint (e_pid e)) @
         '',\"count\":'' @ dec_nat (unat cnt) @ '',\"filepath\":\"'' @ filepath_esc @
         ''\",\"flags\":'' @ dec_int (sint (fo_flags (file_op_of e))) @
         (case extra_fields of Some x \<Rightarrow> if 0 < length x then CHR '','' # x else [] | None \<Rightarrow> []) @
         (case procs (e_pid e) of (status, cgroup) \<Rightarrow> print_container_fields status cgroup) @
         ''}'' @ [CHR 0x0A])"

text \<open>A \<open>char\<close> is signed, so a byte above 0x7F adds a negative value.\<close>

definition char_val :: "char \<Rightarrow> u64" where
  "char_val c = word_of_int (if ord c < 128 then int (ord c) else int (ord c) - 256)"

definition hash_step :: "u64 \<Rightarrow> u64 \<Rightarrow> u64" where
  "hash_step hash x = (push_bit 5 hash + hash) + x"

definition hash_file_open :: "event \<Rightarrow> u64" where
  "hash_file_open e =
     foldl (\<lambda>hash c. hash_step hash (char_val c)) (hash_step 5381 (scast (e_pid e))) (c_str (fo_filepath (file_op_of e)))"

text \<open>The event built to print an aggregated entry.\<close>

definition fake_event :: "file_hash_entry \<Rightarrow> event" where
  "fake_event h =
     \<lparr>e_type = EVENT_TYPE_FILE_OPERATION, e_pid = fh_pid h, e_ppid = 0, e_exit_code = 0, e_duration_ns = 0,
      e_timestamp_ns = 0, e_comm = take (TASK_COMM_LEN - 1) (c_str (fh_comm h)), e_full_command = [],
      e_payload = FileOp \<lparr>fo_filepath = take (MAX_FILENAME_LEN - 1) (c_str (fh_filepath h)), fo_fd = -1,
                          fo_flags = fh_flags h, fo_is_open = True\<rparr>,
      e_exit_event = False\<rparr>"

text \<open>
  Removing the entries that satisfy \<open>P\<close>: each is replaced by the last one, which is then examined in
  its place. \<open>f\<close> is what is printed for a removed entry.
\<close>

function sweep :: "('a \<Rightarrow> bool) \<Rightarrow> ('a \<Rightarrow> bytes) \<Rightarrow> 'a list \<Rightarrow> nat \<Rightarrow> bytes \<Rightarrow> 'a list \<times> bytes" where
  "sweep P f xs i out =
     (if i < length xs then
        (if P (xs ! i) then sweep P f (butlast (xs[i := xs ! (length xs - 1)])) i (out @ f (xs ! i))
         else sweep P f xs (i + 1) out)
      else (xs, out))"
  by pat_completeness auto
termination
  by (relation "measure (\<lambda>(P, f, xs, i, out). length xs - i)") auto

declare sweep.simps [simp del]

definition expired :: "u64 \<Rightarrow> file_hash_entry \<Rightarrow> bool" where
  "expired timestamp_ns h \<longleftrightarrow> FILE_DEDUP_WINDOW_NS < timestamp_ns - fh_timestamp_ns h"

definition print_expired :: "procfs \<Rightarrow> u64 \<Rightarrow> file_hash_entry \<Rightarrow> bytes" where
  "print_expired procs timestamp_ns h =
     (if 1 < fh_count h
      then print_file_open_event procs (fake_event h) timestamp_ns (fh_count h) (Some ''\"window_expired\":true'')
      else [])"

definition warning_text :: bytes where
  "warning_text = ''\"rate_limit_warning\":\"Previous second exceeded '' @ dec_nat MAX_DISTINCT_FILES_PER_SEC @ '' file limit\"''"

text \<open>
  The result is the count, the warning message, the new tables and the lines printed. \<open>verbose\<close> is
  \<open>env.verbose\<close>; the debug messages go to the error stream.
\<close>

definition get_file_open_count ::
  "bool \<Rightarrow> procfs \<Rightarrow> event \<Rightarrow> u64 \<Rightarrow> opens_state \<Rightarrow> u32 \<times> bytes \<times> opens_state \<times> bytes" where
  "get_file_open_count verbose procs e timestamp_ns st =
     (if e_type e \<noteq> EVENT_TYPE_FILE_OPERATION \<or> \<not> fo_is_open (file_op_of e) then (1, [], st, [])
      else
        (case should_rate_limit_file (e_pid e) timestamp_ns (pid_limits st) of (dropped, add_warning, limits) \<Rightarrow>
           if dropped then (0, [], st\<lparr>pid_limits := limits\<rparr>, [])
           else
             let warning_msg = (if add_warning then take 127 warning_text else []);
                 hash = hash_file_open e;
                 (hs, out) = sweep (expired timestamp_ns) (print_expired procs timestamp_ns) (file_hashes st) 0 []
             in case List.find (\<lambda>i. fh_hash (hs ! i) = hash) [0..<length hs] of
                  Some i \<Rightarrow>
                    (0, warning_msg,
                     st\<lparr>pid_limits := limits,
                        file_hashes := hs[i := (hs ! i)\<lparr>fh_count := fh_count (hs ! i) + 1, fh_timestamp_ns := timestamp_ns\<rparr>]\<rparr>,
                     out)
                | None \<Rightarrow>
                    if length hs < MAX_FILE_HASHES then
                      (1, warning_msg,
                       st\<lparr>pid_limits := limits,
                          file_hashes := hs @ [\<lparr>fh_hash = hash, fh_timestamp_ns = timestamp_ns, fh_count = 1, fh_pid = e_pid e,
                            fh_comm = take (TASK_COMM_LEN - 1) (c_str (e_comm e)),
                            fh_filepath = take (MAX_FILENAME_LEN - 1) (c_str (fo_filepath (file_op_of e))),
                            fh_flags = fo_flags (file_op_of e)\<rparr>]\<rparr>,
                       out)
                    else
                      (1, warning_msg, st\<lparr>pid_limits := limits, file_hashes := hs\<rparr>,
                       out @ (if verbose then print_file_open_event procs e timestamp_ns 1 None else []))))"

definition print_pid_exit :: "procfs \<Rightarrow> pid_t \<Rightarrow> u64 \<Rightarrow> file_hash_entry \<Rightarrow> bytes" where
  "print_pid_exit procs pid timestamp_ns h =
     (if fh_pid h = pid \<and> 1 < fh_count h
      then print_file_open_event procs (fake_event h) timestamp_ns (fh_count h) (Some ''\"reason\":\"process_exit\"'')
      else [])"

text \<open>One pass prints, a second pass removes.\<close>

definition flush_pid_file_opens :: "procfs \<Rightarrow> pid_t \<Rightarrow> u64 \<Rightarrow> opens_state \<Rightarrow> opens_state \<times> bytes" where
  "flush_pid_file_opens procs pid timestamp_ns st =
     (let out = concat (map (print_pid_exit procs pid timestamp_ns) (file_hashes st));
          (hs, _) = sweep (\<lambda>h. fh_pid h = pid) (\<lambda>_. []) (file_hashes st) 0 []
      in (st\<lparr>file_hashes := hs\<rparr>, out))"

section \<open>Removing by moving the last entry\<close>

lemma swap_remove_mset:
  assumes "i < length xs"
  shows "mset (butlast (xs[i := xs ! (length xs - 1)])) = mset xs - {# xs ! i #}"
proof (cases "i = length xs - 1")
  case True
  then have "xs = butlast xs @ [xs ! i]" using assms by (metis append_butlast_last_id last_conv_nth less_nat_zero_code list.size(3))
  then have "mset xs = mset (butlast xs) + {# xs ! i #}" by (metis mset_append mset_single_iff_right mset.simps)
  with True assms show ?thesis by simp
next
  case False
  let ?ys = "butlast xs" and ?l = "xs ! (length xs - 1)"
  have xs: "xs = ?ys @ [?l]" using assms by (metis append_butlast_last_id last_conv_nth less_nat_zero_code list.size(3))
  have i: "i < length ?ys" using assms False by simp
  have "xs[i := ?l] = ?ys[i := ?l] @ [?l]" using xs i by (metis list_update_append1)
  then have "butlast (xs[i := ?l]) = ?ys[i := ?l]" by simp
  moreover have "mset (?ys[i := ?l]) = add_mset ?l (mset ?ys - {# ?ys ! i #})" using i by (rule mset_update)
  moreover have "?ys ! i = xs ! i" using i by (simp add: nth_butlast)
  moreover have "mset xs = add_mset ?l (mset ?ys)" by (subst xs) simp
  moreover have "xs ! i \<in># mset ?ys" using i by (metis nth_butlast nth_mem set_mset_mset)
  ultimately show ?thesis by simp
qed

lemma sweep_mset:
  assumes "i \<le> length xs" "\<forall>j<i. \<not> P (xs ! j)"
  shows "mset (fst (sweep P f xs i out)) = filter_mset (\<lambda>x. \<not> P x) (mset xs)"
  using assms
proof (induction P f xs i out rule: sweep.induct)
  case (1 P f xs i out)
  show ?case
  proof (cases "i < length xs")
    case False
    then have "\<forall>x\<in>set xs. \<not> P x" using "1.prems" by (auto simp: in_set_conv_nth)
    with False show ?thesis by (subst sweep.simps) (simp add: filter_True flip: mset_filter)
  next
    case i: True
    show ?thesis
    proof (cases "P (xs ! i)")
      case True
      let ?ys = "butlast (xs[i := xs ! (length xs - 1)])"
      have "\<forall>j<i. \<not> P (?ys ! j)" using "1.prems"(2) i by (auto simp: nth_butlast)
      then have "mset (fst (sweep P f ?ys i (out @ f (xs ! i)))) = filter_mset (\<lambda>x. \<not> P x) (mset ?ys)"
        using i True by (intro "1.IH"(1)) auto
      moreover have "filter_mset (\<lambda>x. \<not> P x) (mset ?ys) = filter_mset (\<lambda>x. \<not> P x) (mset xs)"
        unfolding swap_remove_mset[OF i] filter_diff_mset using True by simp
      moreover have "sweep P f xs i out = sweep P f ?ys i (out @ f (xs ! i))"
        using True i by (subst sweep.simps) simp
      ultimately show ?thesis by simp
    next
      case False
      then have "mset (fst (sweep P f xs (i + 1) out)) = filter_mset (\<lambda>x. \<not> P x) (mset xs)"
        using i "1.prems"(2) by (intro "1.IH"(2)) (auto simp: less_Suc_eq)
      with False i show ?thesis by (subst sweep.simps) simp
    qed
  qed
qed

lemma sweep_filter: "mset (fst (sweep P f xs 0 out)) = mset (filter (\<lambda>x. \<not> P x) xs)"
  using sweep_mset[of 0 xs P f out] by simp

lemma sweep_set: "set (fst (sweep P f xs 0 out)) = {x\<in>set xs. \<not> P x}"
  using sweep_filter[of P f xs out] by (metis mset_eq_setD set_filter)

lemma sweep_length: "length (fst (sweep P f xs 0 out)) \<le> length xs"
  using sweep_filter[of P f xs out] by (metis length_filter_le size_mset)

lemma sweep_distinct: "distinct (map g xs) \<Longrightarrow> distinct (map g (fst (sweep P f xs 0 out)))"
proof -
  assume "distinct (map g xs)"
  then have "distinct (map g (filter (\<lambda>x. \<not> P x) xs))" by (rule distinct_map_filter)
  moreover have "mset (map g (fst (sweep P f xs 0 out))) = mset (map g (filter (\<lambda>x. \<not> P x) xs))"
    using sweep_filter[of P f xs out] by simp
  ultimately show ?thesis using mset_eq_imp_distinct_iff by blast
qed

section \<open>The rate limiter\<close>

text \<open>The entry of a PID after one more event in the given second.\<close>

definition charged :: "u64 \<Rightarrow> per_second_limit \<Rightarrow> u32" where
  "charged s l = (if pl_current_second l = s then pl_distinct_file_count l else 0) + 1"

lemma charge_limit_entry:
  assumes "i < length limits"
  shows "\<exists>l'. snd (snd (charge_limit limits i s)) = limits[i := l'] \<and> pl_pid l' = pl_pid (limits ! i) \<and>
    pl_current_second l' = s \<and> pl_distinct_file_count l' = charged s (limits ! i) \<and>
    (fst (charge_limit limits i s) \<longleftrightarrow> 30 < charged s (limits ! i))"
  by (auto simp: charge_limit_def charged_def Let_def MAX_DISTINCT_FILES_PER_SEC_def)

definition limits_ok :: "per_second_limit list \<Rightarrow> bool" where
  "limits_ok limits \<longleftrightarrow> distinct (map pl_pid limits) \<and> length limits \<le> MAX_PID_LIMITS"

lemma limits_update:
  assumes "limits_ok limits" "i < length limits" "pl_pid l' = pl_pid (limits ! i)"
  shows "limits_ok (limits[i := l'])" "l \<in> set limits \<Longrightarrow> pl_pid l \<noteq> pl_pid l' \<Longrightarrow> l \<in> set (limits[i := l'])"
proof -
  have "map pl_pid (limits[i := l']) = map pl_pid limits"
    using assms by (simp add: map_update list_update_same_conv)
  then show "limits_ok (limits[i := l'])" using assms(1) by (simp add: limits_ok_def)
  show "l \<in> set limits \<Longrightarrow> pl_pid l \<noteq> pl_pid l' \<Longrightarrow> l \<in> set (limits[i := l'])"
    using assms by (auto simp: in_set_conv_nth nth_list_update)
qed

lemma rate_limit_step:
  assumes ok: "limits_ok limits" and step: "should_rate_limit_file q ts limits = (d, w, limits')"
  shows "limits_ok limits'"
    and "l \<in> set limits \<Longrightarrow> pl_pid l \<noteq> q \<Longrightarrow> l \<in> set limits'"
    and "l \<in> set limits \<Longrightarrow> pl_pid l = q \<Longrightarrow> \<exists>l'\<in>set limits'. pl_pid l' = q \<and>
      pl_current_second l' = ts div 1000000000 \<and> pl_distinct_file_count l' = charged (ts div 1000000000) l \<and>
      (d \<longleftrightarrow> 30 < charged (ts div 1000000000) l)"
proof -
  let ?s = "ts div 1000000000"
  have "limits_ok limits' \<and> (l \<in> set limits \<longrightarrow> pl_pid l \<noteq> q \<longrightarrow> l \<in> set limits') \<and>
    (l \<in> set limits \<longrightarrow> pl_pid l = q \<longrightarrow> (\<exists>l'\<in>set limits'. pl_pid l' = q \<and> pl_current_second l' = ?s \<and>
      pl_distinct_file_count l' = charged ?s l \<and> (d \<longleftrightarrow> 30 < charged ?s l)))"
  proof (cases "List.find (\<lambda>i. pl_pid (limits ! i) = q) [0..<length limits]")
    case (Some i)
    note i = find_upt_SomeD[OF Some]
    obtain l' where l': "limits' = limits[i := l']" "pl_pid l' = q" "pl_current_second l' = ?s"
      "pl_distinct_file_count l' = charged ?s (limits ! i)" "d \<longleftrightarrow> 30 < charged ?s (limits ! i)"
      using charge_limit_entry[OF i(1), of ?s] step Some i(2) by (auto simp: should_rate_limit_file_def Let_def)
    have eq: "l = limits ! i" if "l \<in> set limits" "pl_pid l = q"
      using that i ok by (auto simp: limits_ok_def in_set_conv_nth distinct_conv_nth)
    have "l' \<in> set limits'" using l'(1) i(1) by (simp add: set_update_memI)
    then show ?thesis
      using limits_update(1)[OF ok i(1), of l'] limits_update(2)[OF ok i(1), of l' l] l' i(2) eq by auto
  next
    case None
    then have no: "\<forall>x\<in>set limits. pl_pid x \<noteq> q"
      using find_upt_NoneD[OF None] by (metis in_set_conv_nth)
    show ?thesis
    proof (cases "length limits < MAX_PID_LIMITS")
      case True
      let ?new = "limits @ [\<lparr>pl_pid = q, pl_current_second = ?s, pl_distinct_file_count = 0, pl_should_warn_next = False\<rparr>]"
      have ok': "limits_ok ?new" using ok no True by (auto simp: limits_ok_def)
      have n: "length limits < length ?new" by simp
      obtain l' where l': "limits' = ?new[length limits := l']" "pl_pid l' = q"
        using charge_limit_entry[OF n, of ?s] step None True by (auto simp: should_rate_limit_file_def Let_def)
      show ?thesis
        using limits_update(1)[OF ok' n, of l'] limits_update(2)[OF ok' n, of l' l] l' no by auto
    next
      case False
      then show ?thesis using step None ok no by (auto simp: should_rate_limit_file_def Let_def)
    qed
  qed
  then show "limits_ok limits'"
    and "l \<in> set limits \<Longrightarrow> pl_pid l \<noteq> q \<Longrightarrow> l \<in> set limits'"
    and "l \<in> set limits \<Longrightarrow> pl_pid l = q \<Longrightarrow> \<exists>l'\<in>set limits'. pl_pid l' = q \<and>
      pl_current_second l' = ?s \<and> pl_distinct_file_count l' = charged ?s l \<and> (d \<longleftrightarrow> 30 < charged ?s l)" by blast+
qed

text \<open>How many events of a PID pass the limiter in a sequence of events of any processes.\<close>

fun passed :: "pid_t \<Rightarrow> (pid_t \<times> u64) list \<Rightarrow> per_second_limit list \<Rightarrow> nat" where
  "passed p [] limits = 0"
| "passed p ((q, ts) # evs) limits =
     (case should_rate_limit_file q ts limits of (dropped, _, limits') \<Rightarrow>
        (if q = p \<and> \<not> dropped then 1 else 0) + passed p evs limits')"

lemma passed_exact:
  assumes "limits_ok limits" "l \<in> set limits" "pl_pid l = p"
    and "\<forall>(q, ts)\<in>set evs. q = p \<longrightarrow> ts div 1000000000 = s"
    and "c = (if pl_current_second l = s then unat (pl_distinct_file_count l) else 0)"
    and "c + length evs < 2 ^ 32"
  shows "passed p evs limits = min (length (filter (\<lambda>ev. fst ev = p) evs)) (30 - c)"
  using assms
proof (induction evs arbitrary: limits l c)
  case (Cons ev evs)
  obtain q ts where ev: "ev = (q, ts)" by (cases ev)
  obtain d w limits' where st: "should_rate_limit_file q ts limits = (d, w, limits')" by (cases "should_rate_limit_file q ts limits")
  note step = rate_limit_step[OF Cons.prems(1) st]
  show ?case
  proof (cases "q = p")
    case False
    then have "passed p evs limits' = min (length (filter (\<lambda>ev. fst ev = p) evs)) (30 - c)"
      using Cons.prems step(1) step(2)[of l] by (intro Cons.IH) auto
    with False show ?thesis by (simp add: ev st)
  next
    case True
    then have s: "ts div 1000000000 = s" using Cons.prems(4) by (simp add: ev)
    obtain l' where l': "l' \<in> set limits'" "pl_pid l' = p" "pl_current_second l' = s"
      "pl_distinct_file_count l' = charged s l" "d \<longleftrightarrow> 30 < charged s l"
      using step(3)[OF Cons.prems(2)] Cons.prems(3) True s by auto
    have "c + 1 < 2 ^ 32" using Cons.prems(6) by simp
    then have u: "unat (charged s l) = c + 1"
      using Cons.prems(5) by (cases "pl_current_second l = s") (simp_all add: charged_def unat_word_ariths)
    then have d: "d \<longleftrightarrow> 30 < c + 1" using l'(5) by (simp add: word_less_nat_alt)
    have "passed p evs limits' = min (length (filter (\<lambda>ev. fst ev = p) evs)) (30 - (c + 1))"
      using Cons.prems(4,6) step(1) l' u by (intro Cons.IH[of limits' l']) auto
    moreover have "passed p (ev # evs) limits = (if d then 0 else 1) + passed p evs limits'"
      using True st by (simp add: ev)
    ultimately show ?thesis using True d by (simp add: ev) linarith
  qed
qed simp

section \<open>The deduplication table\<close>

definition opens_ok :: "opens_state \<Rightarrow> bool" where
  "opens_ok st \<longleftrightarrow> distinct (map fh_hash (file_hashes st)) \<and> length (file_hashes st) \<le> MAX_FILE_HASHES \<and>
     limits_ok (pid_limits st)"

lemma map_fh_hash_update:
  "fh_hash (hs ! i) = fh_hash x \<Longrightarrow> map fh_hash (hs[i := x]) = map fh_hash hs"
  by (cases "i < length hs") (simp_all add: map_update list_update_same_conv list_update_beyond)

lemma get_file_open_count_ok:
  assumes ok: "opens_ok st" and r: "get_file_open_count verbose procs e ts st = (n, w, st', out)"
  shows "opens_ok st'"
proof -
  obtain d aw limits where rl: "should_rate_limit_file (e_pid e) ts (pid_limits st) = (d, aw, limits)"
    by (cases "should_rate_limit_file (e_pid e) ts (pid_limits st)")
  have lim: "limits_ok limits" using ok rate_limit_step(1)[OF _ rl] by (simp add: opens_ok_def)
  obtain hs o1 where sw: "sweep (expired ts) (print_expired procs ts) (file_hashes st) 0 [] = (hs, o1)"
    by (cases "sweep (expired ts) (print_expired procs ts) (file_hashes st) 0 []")
  have hs: "distinct (map fh_hash hs)" "length hs \<le> MAX_FILE_HASHES"
    using ok sweep_distinct[of fh_hash "file_hashes st" "expired ts" "print_expired procs ts" "[]"]
      sweep_length[of "expired ts" "print_expired procs ts" "file_hashes st" "[]"]
    by (simp_all add: opens_ok_def sw)
  show ?thesis
  proof (cases "List.find (\<lambda>i. fh_hash (hs ! i) = hash_file_open e) [0..<length hs]")
    case (Some i)
    then show ?thesis
      using r ok lim hs
      by (auto simp: get_file_open_count_def rl sw Let_def opens_ok_def map_fh_hash_update split: if_splits)
  next
    case None
    have "hash_file_open e \<notin> fh_hash ` set hs"
      using find_upt_NoneD[OF None] by (fastforce simp: in_set_conv_nth)
    then show ?thesis
      using r ok lim hs None
      by (auto simp: get_file_open_count_def rl sw Let_def opens_ok_def split: if_splits)
  qed
qed

lemma flush_pid_file_opens_ok:
  "opens_ok st \<Longrightarrow> opens_ok (fst (flush_pid_file_opens procs pid ts st))"
  using sweep_distinct[of fh_hash "file_hashes st" "\<lambda>h. fh_pid h = pid" "\<lambda>_. []" "[]"]
    sweep_length[of "\<lambda>h. fh_pid h = pid" "\<lambda>_. []" "file_hashes st" "[]"]
  by (auto simp: opens_ok_def flush_pid_file_opens_def Let_def case_prod_beta)

lemma flush_pid_file_opens_pids: "h \<in> set (file_hashes (fst (flush_pid_file_opens procs pid ts st))) \<Longrightarrow> fh_pid h \<noteq> pid"
  using sweep_set[of "\<lambda>h. fh_pid h = pid" "\<lambda>_. []" "file_hashes st" "[]"]
  by (simp add: flush_pid_file_opens_def Let_def case_prod_beta)

lemma limits_ok_remove:
  assumes "limits_ok limits" "i < length limits"
  shows "limits_ok (butlast (limits[i := limits ! (length limits - 1)]))"
proof -
  let ?l = "butlast (limits[i := limits ! (length limits - 1)])"
  have "mset ?l = mset (remove1 (limits ! i) limits)" using swap_remove_mset[OF assms(2)] by simp
  then have "mset (map pl_pid ?l) = mset (map pl_pid (remove1 (limits ! i) limits))" by (simp only: mset_map)
  moreover have "distinct (map pl_pid (remove1 (limits ! i) limits))"
    using assms(1) set_remove1_subset[of "limits ! i" limits] by (auto simp: limits_ok_def distinct_map intro: inj_on_subset)
  ultimately have "distinct (map pl_pid ?l)" using mset_eq_imp_distinct_iff by blast
  then show ?thesis using assms(1) by (auto simp: limits_ok_def)
qed

section \<open>Properties\<close>

definition sample_open :: "pid_t \<Rightarrow> bytes \<Rightarrow> event" where
  "sample_open pid path = \<lparr>e_type = EVENT_TYPE_FILE_OPERATION, e_pid = pid, e_ppid = 0, e_exit_code = 0, e_duration_ns = 0,
     e_timestamp_ns = 0, e_comm = ''sh'', e_full_command = [],
     e_payload = FileOp \<lparr>fo_filepath = path, fo_fd = -1, fo_flags = 0, fo_is_open = True\<rparr>, e_exit_event = False\<rparr>"

text \<open>
  C40: The limiter lets exactly 30 file opens of a process pass in a second. Whatever events of other
  processes come in between, of the events of a process that has an entry, all in one second, as
  many pass as are left of the 30 after those counted so far.
\<close>

theorem rate_limit_exact:
  assumes "limits_ok limits" "l \<in> set limits"
    and "\<forall>(q, ts)\<in>set evs. q = pl_pid l \<longrightarrow> ts div 1000000000 = s" "length evs < 2 ^ 31"
    and "used = (if pl_current_second l = s then unat (pl_distinct_file_count l) else 0)" "used < 2 ^ 31"
  shows "passed (pl_pid l) evs limits = min (length (filter (\<lambda>ev. fst ev = pl_pid l) evs)) (30 - used)"
  using assms by (intro passed_exact[of limits l "pl_pid l" evs s used]) auto

theorem rate_limit_exact_witness:
  "passed 7 [(7, 5000000000), (9, 1), (7, 5000000001)]
     [\<lparr>pl_pid = 7, pl_current_second = 5, pl_distinct_file_count = 29, pl_should_warn_next = False\<rparr>] = 1"
proof -
  let ?l = "\<lparr>pl_pid = 7, pl_current_second = 5, pl_distinct_file_count = 29, pl_should_warn_next = False\<rparr>"
  have "limits_ok [?l]" "?l \<in> set [?l]" by (simp_all add: limits_ok_def MAX_PID_LIMITS_def)
  from rate_limit_exact[OF this, of "[(7, 5000000000), (9, 1), (7, 5000000001)]" 5 29] show ?thesis by simp
qed

text \<open>
  The tables stay within their bounds and hold no duplicates: after any file open event the
  deduplication table has at most 1024 entries with pairwise different hashes, and the limiter at
  most 256 entries with pairwise different PIDs.
\<close>

theorem file_open_tables_ok:
  assumes "opens_ok st"
  shows "opens_ok (fst (snd (snd (get_file_open_count verbose procs e ts st)))) \<and>
    opens_ok (fst (flush_pid_file_opens procs pid ts st))"
proof
  show "opens_ok (fst (snd (snd (get_file_open_count verbose procs e ts st))))"
    using get_file_open_count_ok[OF assms] by (cases "get_file_open_count verbose procs e ts st") auto
  show "opens_ok (fst (flush_pid_file_opens procs pid ts st))"
    by (rule flush_pid_file_opens_ok[OF assms])
qed

theorem file_open_tables_ok_witness:
  "opens_ok (fst (flush_pid_file_opens (\<lambda>_. (None, None)) 7 0 \<lparr>file_hashes = [], pid_limits = []\<rparr>))"
proof -
  have "opens_ok \<lparr>file_hashes = [], pid_limits = []\<rparr>" by (simp add: opens_ok_def limits_ok_def)
  from file_open_tables_ok[OF this, of False "\<lambda>_. (None, None)" "sample_open 7 []" 0 7] show ?thesis by blast
qed

text \<open>
  When a process exits its pending file opens are all removed and those of other processes are
  all kept, and one line is printed for each entry of the process that counts more than one open.
\<close>

theorem flush_pid_file_opens_exact:
  "mset (file_hashes (fst (flush_pid_file_opens procs pid ts st))) = mset (filter (\<lambda>h. fh_pid h \<noteq> pid) (file_hashes st)) \<and>
   pid_limits (fst (flush_pid_file_opens procs pid ts st)) = pid_limits st \<and>
   snd (flush_pid_file_opens procs pid ts st) =
     concat (map (\<lambda>h. print_file_open_event procs (fake_event h) ts (fh_count h) (Some ''\"reason\":\"process_exit\"''))
       (filter (\<lambda>h. fh_pid h = pid \<and> 1 < fh_count h) (file_hashes st)))"
proof -
  have "concat (map (print_pid_exit procs pid ts) hs) =
      concat (map (\<lambda>h. print_file_open_event procs (fake_event h) ts (fh_count h) (Some ''\"reason\":\"process_exit\"''))
        (filter (\<lambda>h. fh_pid h = pid \<and> 1 < fh_count h) hs))" for hs
    by (induction hs) (auto simp: print_pid_exit_def)
  then show ?thesis
    using sweep_filter[of "\<lambda>h. fh_pid h = pid" "\<lambda>_. []" "file_hashes st" "[]"]
    by (simp add: flush_pid_file_opens_def Let_def case_prod_beta)
qed

text \<open>
  Deduplication compares hashes only. Two different paths of the same process with the same hash
  are taken for repetitions of one file: after \<open>/tmp/Ab\<close> has been opened, the first open of \<open>/tmp/BA\<close>
  is counted as a second open of \<open>/tmp/Ab\<close> and not reported.
\<close>

theorem dedup_merges_different_files:
  "hash_file_open (sample_open pid (''/tmp/'' @ ''Ab'')) = hash_file_open (sample_open pid (''/tmp/'' @ ''BA'')) \<and>
   (case get_file_open_count False procs (sample_open pid ''/tmp/Ab'') 5 \<lparr>file_hashes = [], pid_limits = []\<rparr> of (n1, _, st1, _) \<Rightarrow>
      n1 = 1 \<and> fst (get_file_open_count False procs (sample_open pid ''/tmp/BA'') 6 st1) = 0)"
proof -
  have step: "hash_step h x = h * 33 + x" for h x
    by (simp add: hash_step_def push_bit_eq_mult)
  have h: "hash_file_open (sample_open pid ''/tmp/Ab'') = hash_file_open (sample_open pid ''/tmp/BA'')"
    by (simp add: hash_file_open_def sample_open_def file_op_of_def step char_val_def)
  then show ?thesis
    by (simp add: get_file_open_count_def sample_open_def file_op_of_def should_rate_limit_file_def charge_limit_def
        MAX_PID_LIMITS_def MAX_FILE_HASHES_def MAX_DISTINCT_FILES_PER_SEC_def sweep.simps expired_def FILE_DEDUP_WINDOW_NS_def Let_def)
qed

end
