(* ===== verification/Process_Main.thy ===== *)
theory Process_Main
  imports Map_Flush Process_Options File_Opens "HOL-Library.Monad_Syntax"
begin

text \<open>
  The userspace side of the process tracer (\<open>bpf/process.c\<close>): reporting of events, the event
  handler, the seeding of the tracker and the main loop. The state joins the userspace tables
  with the kernel's maps, which the handler reads and changes; \<open>world\<close> holds what the program
  asks of its surroundings. One turn of the main loop is described by what happens around it: the
  kernel programs that ran before, the result of \<open>ring_buffer__poll\<close> (the number of records it
  handed to the handler, or a negative error) and the clock.
\<close>

section \<open>The code: reporting\<close>

record world =
  w_getsid :: "pid_t \<Rightarrow> pid_t"
  w_procs :: procfs
  w_links :: link_table
  w_next :: "agg_key iter"
  w_room :: "(u32 \<rightharpoonup> u8) \<Rightarrow> bool"
  w_pagesize :: int
  w_fs :: cgroup_fs
  w_cg_next :: "(u64 \<rightharpoonup> u8) \<Rightarrow> u64 \<Rightarrow> u64 option"
  w_cg_first :: "(u64 \<rightharpoonup> u8) \<Rightarrow> u64 option"
  w_cg_room :: "(u64 \<rightharpoonup> u8) \<Rightarrow> bool"
  w_num_cpus :: int
  w_alloc_ok :: bool
  w_overflow_lookup_ok :: bool
  w_mono :: "(u64 \<times> u64) option"
  w_real :: "(u64 \<times> u64) option"
  w_wall_prefix :: "bytes option"
  g_agg_map_ok :: bool
  g_tracked_pids_ok :: bool
  g_tracked_cgroups_ok :: bool
  g_overflow_ok :: bool
  g_exit_mem_ok :: bool

record tracer =
  tr_pids :: pid_tracker
  tr_kern :: bpf_state
  tr_opens :: opens_state

text \<open>\<open>sysconf(_SC_PAGESIZE) / 1024\<close>, or 4 when that is not positive.\<close>

definition page_size_kb :: "world \<Rightarrow> u64" where
  "page_size_kb w = (if w_pagesize w div 1024 \<le> 0 then 4 else word_of_int (w_pagesize w div 1024))"

definition process_in_target_session :: "world \<Rightarrow> options \<Rightarrow> pid_t \<Rightarrow> bool" where
  "process_in_target_session w env pid =
     (if sint (opt_session_id env) \<le> 0 then False else w_getsid w pid = opt_session_id env)"

definition should_track_event_process ::
  "world \<Rightarrow> options \<Rightarrow> pid_tracker \<Rightarrow> bytes \<Rightarrow> pid_t \<Rightarrow> pid_t \<Rightarrow> bool" where
  "should_track_event_process w env tracker comm pid ppid =
     (if process_in_target_session w env pid then True
      else if 0 < sint (opt_session_id env) then False
      else should_track_process tracker comm pid ppid)"

definition add_tracked_pid_to_bpf :: "world \<Rightarrow> pid_t \<Rightarrow> bpf_state \<Rightarrow> bpf_state" where
  "add_tracked_pid_to_bpf w pid k =
     (if \<not> g_tracked_pids_ok w \<or> sint pid \<le> 0 then k
      else k\<lparr>tracked_pids := snd (map_update (w_room w (tracked_pids k)) (tracked_pids k) pid 1 BPF_ANY)\<rparr>)"

definition remove_tracked_pid_from_bpf :: "world \<Rightarrow> pid_t \<Rightarrow> bpf_state \<Rightarrow> bpf_state" where
  "remove_tracked_pid_from_bpf w pid k =
     (if \<not> g_tracked_pids_ok w \<or> sint pid \<le> 0 then k
      else k\<lparr>tracked_pids := map_delete (tracked_pids k) pid\<rparr>)"

definition json_escape_field :: "bytes option \<Rightarrow> nat \<Rightarrow> bytes" where
  "json_escape_field src dst_size = json_escape (case src of Some s \<Rightarrow> s | None \<Rightarrow> []) dst_size"

text \<open>The members of the union, and the container fields of a process.\<close>

definition filename_of :: "event \<Rightarrow> bytes" where
  "filename_of e = (case e_payload e of Filename b \<Rightarrow> b | Command b \<Rightarrow> take MAX_FILENAME_LEN b | FileOp f \<Rightarrow> fo_filepath f)"

definition command_of :: "event \<Rightarrow> bytes" where
  "command_of e = (case e_payload e of Filename b \<Rightarrow> b | Command b \<Rightarrow> b | FileOp f \<Rightarrow> fo_filepath f)"

definition container_fields :: "world \<Rightarrow> pid_t \<Rightarrow> bytes" where
  "container_fields w pid = (case w_procs w pid of (status, cgroup) \<Rightarrow> print_container_fields status cgroup)"

definition print_exec_event :: "world \<Rightarrow> event \<Rightarrow> bytes" where
  "print_exec_event w e =
     (let full_command = postprocess_full_command (e_full_command e) (of_nat MAX_COMMAND_LEN) (e_exit_code e);
          comm_esc = json_escape_field (Some (e_comm e)) (TASK_COMM_LEN * 2 + 1);
          filename_esc = json_escape_field (Some (filename_of e)) (MAX_FILENAME_LEN * 2 + 1);
          command_esc = json_escape_field (Some full_command) (MAX_COMMAND_LEN * 2 + 1)
      in ''{\"timestamp\":'' @ dec_nat (unat (e_timestamp_ns e)) @ '',\"event\":\"EXEC\",'' @
         ''\"comm\":\"'' @ comm_esc @ ''\",\"pid\":'' @ dec_int (sint (e_pid e)) @
         '',\"ppid\":'' @ dec_int (sint (e_ppid e)) @
         '',\"filename\":\"'' @ filename_esc @ ''\",\"full_command\":\"'' @ command_esc @ ''\"'' @
         container_fields w (e_pid e) @ ''}'' @ [CHR 0x0A])"

definition print_exit_event :: "world \<Rightarrow> event \<Rightarrow> bpf_state \<Rightarrow> bpf_state \<times> bytes" where
  "print_exit_event w e k =
     (let comm_esc = json_escape_field (Some (e_comm e)) (TASK_COMM_LEN * 2 + 1);
          (k', hwm) =
            (if g_exit_mem_ok w then
               (case exit_mem k (e_pid e) of
                  Some emem \<Rightarrow>
                    (k\<lparr>exit_mem := map_delete (exit_mem k) (e_pid e)\<rparr>,
                     '',\"vm_hwm_kb\":'' @ dec_nat (unat (hiwater_rss emem * page_size_kb w)))
                | None \<Rightarrow> (k, []))
             else (k, []))
      in (k', ''{\"timestamp\":'' @ dec_nat (unat (e_timestamp_ns e)) @ '',\"event\":\"EXIT\",'' @
         ''\"comm\":\"'' @ comm_esc @ ''\",\"pid\":'' @ dec_int (sint (e_pid e)) @
         '',\"ppid\":'' @ dec_int (sint (e_ppid e)) @ '',\"exit_code\":'' @ dec_nat (unat (e_exit_code e)) @
         (if e_duration_ns e \<noteq> 0 then '',\"duration_ms\":'' @ dec_nat (unat (e_duration_ns e div 1000000)) else []) @
         hwm @ container_fields w (e_pid e) @ ''}'' @ [CHR 0x0A]))"

definition print_bash_readline_event :: "world \<Rightarrow> event \<Rightarrow> bytes" where
  "print_bash_readline_event w e =
     (let comm_esc = json_escape_field (Some (e_comm e)) (TASK_COMM_LEN * 2 + 1);
          command_esc = json_escape_field (Some (command_of e)) (MAX_COMMAND_LEN * 2 + 1)
      in ''{\"timestamp\":'' @ dec_nat (unat (e_timestamp_ns e)) @ '',\"event\":\"BASH_READLINE\",'' @
         ''\"comm\":\"'' @ comm_esc @ ''\",\"pid\":'' @ dec_int (sint (e_pid e)) @
         '',\"command\":\"'' @ command_esc @ ''\"'' @ container_fields w (e_pid e) @ ''}'' @ [CHR 0x0A])"

section \<open>The code: the event handler\<close>

text \<open>The loop of \<open>seed_initial_pids\<close>; the number is \<open>tracked_count\<close>.\<close>

fun seed_loop :: "world \<Rightarrow> seed_pid list \<Rightarrow> nat \<Rightarrow> pid_tracker \<times> bpf_state \<Rightarrow> nat \<times> pid_tracker \<times> bpf_state" where
  "seed_loop w [] n (t, k) = (n, t, k)"
| "seed_loop w (s # ss) n (t, k) =
     (let already_tracked = pid_tracker_is_tracked t (sp_pid s);
          (ok, t') = pid_tracker_add t (sp_pid s) (sp_ppid s)
      in if ok \<and> \<not> already_tracked then seed_loop w ss (n + 1) (t', add_tracked_pid_to_bpf w (sp_pid s) k)
         else seed_loop w ss n (t', k))"

definition seed_initial_pids :: "world \<Rightarrow> options \<Rightarrow> pid_tracker \<times> bpf_state \<Rightarrow> nat \<times> pid_tracker \<times> bpf_state" where
  "seed_initial_pids w env tk = seed_loop w (opt_seed_pids env) 0 tk"

text \<open>The entry of a PID with a pending warning is removed by moving the last entry into its place.\<close>

definition take_warning :: "pid_t \<Rightarrow> per_second_limit list \<Rightarrow> bool \<times> per_second_limit list" where
  "take_warning pid limits =
     (case List.find (\<lambda>i. pl_pid (limits ! i) = pid \<and> pl_should_warn_next (limits ! i)) [0..<length limits] of
        Some i \<Rightarrow> (True, butlast (limits[i := limits ! (length limits - 1)]))
      | None \<Rightarrow> (False, limits))"

definition exit_warning :: "event \<Rightarrow> bytes" where
  "exit_warning e =
     ''{\"timestamp\":'' @ dec_nat (unat (e_timestamp_ns e)) @ '',\"event\":\"WARNING\",\"comm\":\"\",\"pid\":'' @
     dec_int (sint (e_pid e)) @ '',\"type\":\"FILE_RATE_LIMIT\",\"message\":\"Process had '' @
     dec_nat MAX_DISTINCT_FILES_PER_SEC @ ''+ file ops per second\"}'' @ [CHR 0x0A]"

definition handle_exit_event :: "world \<Rightarrow> event \<Rightarrow> tracer \<Rightarrow> (tracer \<times> bytes) option" where
  "handle_exit_event w e tr =
     (let is_tracked = pid_tracker_is_tracked (tr_pids tr) (e_pid e);
          t1 = pid_tracker_remove (tr_pids tr) (e_pid e);
          k1 = remove_tracked_pid_from_bpf w (e_pid e) (tr_kern tr);
          tr1 = tr\<lparr>tr_pids := t1, tr_kern := k1\<rparr>
      in if \<not> is_tracked \<and> filter_mode t1 = FILTER_MODE_FILTER then Some (tr1, [])
         else
           let (add_warning, limits) = take_warning (e_pid e) (pid_limits (tr_opens tr));
               (k2, out1) = print_exit_event w e k1;
               out2 = (if add_warning then exit_warning e else []);
               (opens, out3) = flush_pid_file_opens (w_procs w) (e_pid e) (e_timestamp_ns e)
                 ((tr_opens tr)\<lparr>pid_limits := limits\<rparr>);
               tr2 = tr1\<lparr>tr_kern := k2, tr_opens := opens\<rparr>
           in if g_agg_map_ok w then
                (case flush_pid_from_agg_map (w_next w) (w_links w) (e_pid e) (event_agg_map k2) of
                   None \<Rightarrow> None
                 | Some (m, out4) \<Rightarrow> Some (tr2\<lparr>tr_kern := k2\<lparr>event_agg_map := m\<rparr>\<rparr>, out1 @ out2 @ out3 @ out4))
              else Some (tr2, out1 @ out2 @ out3))"

definition track :: "world \<Rightarrow> event \<Rightarrow> tracer \<Rightarrow> tracer" where
  "track w e tr =
     tr\<lparr>tr_pids := snd (pid_tracker_add (tr_pids tr) (e_pid e) (e_ppid e)),
        tr_kern := add_tracked_pid_to_bpf w (e_pid e) (tr_kern tr)\<rparr>"

definition handle_exec_event :: "world \<Rightarrow> options \<Rightarrow> event \<Rightarrow> tracer \<Rightarrow> tracer \<times> bytes" where
  "handle_exec_event w env e tr =
     (if should_track_event_process w env (tr_pids tr) (e_comm e) (e_pid e) (e_ppid e)
      then (track w e tr, print_exec_event w e)
      else if filter_mode (tr_pids tr) = FILTER_MODE_FILTER then (tr, [])
      else if filter_mode (tr_pids tr) = FILTER_MODE_PROC then (track w e tr, print_exec_event w e)
      else (tr, print_exec_event w e))"

definition handle_file_event :: "world \<Rightarrow> options \<Rightarrow> event \<Rightarrow> tracer \<Rightarrow> tracer \<times> bytes" where
  "handle_file_event w env e tr =
     (if \<not> fo_is_open (file_op_of e) then (tr, [])
      else if \<not> should_report_file_ops (tr_pids tr) (e_pid e) then (tr, [])
      else (case get_file_open_count (opt_verbose env) (w_procs w) e (e_timestamp_ns e) (tr_opens tr) of
          (cnt, warning_msg, opens, out) \<Rightarrow>
            (tr\<lparr>tr_opens := opens\<rparr>,
             if cnt = 0 then out
             else out @ print_file_open_event (w_procs w) e (e_timestamp_ns e) cnt
                    (if 0 < length warning_msg then Some warning_msg else None))))"

definition handle_event :: "world \<Rightarrow> options \<Rightarrow> event \<Rightarrow> tracer \<Rightarrow> (tracer \<times> bytes) option" where
  "handle_event w env e tr =
     (case e_type e of
        EVENT_TYPE_PROCESS \<Rightarrow>
          if e_exit_event e then handle_exit_event w e tr else Some (handle_exec_event w env e tr)
      | EVENT_TYPE_BASH_READLINE \<Rightarrow>
          if \<not> should_report_bash_readline (tr_pids tr) (e_pid e) then Some (tr, [])
          else Some (tr, print_bash_readline_event w e)
      | EVENT_TYPE_FILE_OPERATION \<Rightarrow> Some (handle_file_event w env e tr)
      | EVENT_TYPE_OTHER n \<Rightarrow>
          Some (tr, ''{\"timestamp\":'' @ dec_nat (unat (e_timestamp_ns e)) @ '',\"event\":\"UNKNOWN\",\"event_type\":'' @
                    dec_int (sint n) @ ''}'' @ [CHR 0x0A]))"

text \<open>The events of one poll, each with the state of the surroundings when it is handled.\<close>

fun handle_events :: "options \<Rightarrow> (world \<times> event) list \<Rightarrow> tracer \<Rightarrow> (tracer \<times> bytes) option" where
  "handle_events env [] tr = Some (tr, [])"
| "handle_events env ((w, e) # es) tr =
     (case handle_event w env e tr of
        None \<Rightarrow> None
      | Some (tr1, out1) \<Rightarrow>
          (case handle_events env es tr1 of None \<Rightarrow> None | Some (tr2, out2) \<Rightarrow> Some (tr2, out1 @ out2)))"

section \<open>The code: main\<close>

text \<open>\<open>configure_optional_programs\<close>: which programs are loaded at all.\<close>

fun configure_optional_programs :: "options \<Rightarrow> ext_prog \<Rightarrow> bool" where
  "configure_optional_programs env P_unlinkat = opt_trace_fs env"
| "configure_optional_programs env P_unlink = opt_trace_fs env"
| "configure_optional_programs env P_renameat2 = opt_trace_fs env"
| "configure_optional_programs env P_renameat = opt_trace_fs env"
| "configure_optional_programs env P_rename = opt_trace_fs env"
| "configure_optional_programs env P_mkdirat = opt_trace_fs env"
| "configure_optional_programs env P_mkdir = opt_trace_fs env"
| "configure_optional_programs env P_ftruncate = opt_trace_fs env"
| "configure_optional_programs env P_chdir = opt_trace_fs env"
| "configure_optional_programs env P_write_enter = opt_trace_fs env"
| "configure_optional_programs env (P_write_exit _) = opt_trace_fs env"
| "configure_optional_programs env P_pwrite64_enter = opt_trace_fs env"
| "configure_optional_programs env (P_pwrite64_exit _) = opt_trace_fs env"
| "configure_optional_programs env P_writev_enter = opt_trace_fs env"
| "configure_optional_programs env (P_writev_exit _) = opt_trace_fs env"
| "configure_optional_programs env P_bind = opt_trace_net env"
| "configure_optional_programs env P_listen = opt_trace_net env"
| "configure_optional_programs env P_connect = opt_trace_net env"
| "configure_optional_programs env P_setpgid = opt_trace_signals env"
| "configure_optional_programs env P_setsid = opt_trace_signals env"
| "configure_optional_programs env P_kill = opt_trace_signals env"
| "configure_optional_programs env P_fork = opt_trace_signals env"
| "configure_optional_programs env P_mmap = opt_trace_mem env"
| "configure_optional_programs env P_cow_fault = opt_trace_cow env"

definition loaded :: "options \<Rightarrow> bpf_prog \<Rightarrow> bool" where
  "loaded env prog = (case prog of B_ext p \<Rightarrow> configure_optional_programs env p | _ \<Rightarrow> True)"

text \<open>The constants \<open>main\<close> writes into the read-only data of the BPF object before it is loaded.\<close>

definition rodata :: "options \<Rightarrow> u64 \<Rightarrow> bpf_config" where
  "rodata env cgroup_filter_id =
     \<lparr>ext_cfg = \<lparr>filter_pids = (opt_filter_mode env = FILTER_MODE_FILTER), filter_cgroup = opt_cgroup_filter_enabled env,
        filter_cgroup_children = opt_cgroup_filter_children env, target_cgroup_id = cgroup_filter_id,
        trace_fs_mutations = opt_trace_fs env, trace_network = opt_trace_net env, trace_signals = opt_trace_signals env,
        trace_memory = opt_trace_mem env, trace_cow = opt_trace_cow env\<rparr>,
      min_duration_ns = word_of_int (opt_min_duration_ms env) * 1000000\<rparr>"

definition empty_bpf :: bpf_state where
  "empty_bpf = \<lparr>event_agg_map = Map.empty, tracked_pids = Map.empty, tracked_cgroups = Map.empty,
     agg_overflow_count = (\<lambda>_. 0), exit_mem = Map.empty, write_ctx_map = Map.empty, exec_start = Map.empty, rb = []\<rparr>"

type_synonym bpf_call = "bpf_prog \<times> bpf_env \<times> event option"

text \<open>The loaded programs among those that were triggered, in order.\<close>

fun run_kernel :: "options \<Rightarrow> bpf_config \<Rightarrow> bpf_call list \<Rightarrow> bpf_state \<Rightarrow> bpf_state" where
  "run_kernel env cfg [] k = k"
| "run_kernel env cfg ((prog, e, slot) # cs) k =
     run_kernel env cfg cs (if loaded env prog then run_bpf prog cfg e slot k else k)"

record turn =
  tn_calls :: "bpf_call list"
  tn_poll :: int
  tn_worlds :: "nat \<Rightarrow> world"
  tn_after :: world
  tn_now :: u64

definition FLUSH_INTERVAL_S :: u64 where
  "FLUSH_INTERVAL_S = 5"

definition EINTR :: int where
  "EINTR = 4"

definition refresh_cgroups :: "world \<Rightarrow> options \<Rightarrow> bpf_state \<Rightarrow> (int \<times> bpf_state) option" where
  "refresh_cgroups w env k =
     do { (rc, m) \<leftarrow> populate_cgroup_filter_map (w_fs w) (w_cg_next w) (w_cg_first w) (w_cg_room w)
            (Some (opt_cgroup_filter_path env)) True (g_tracked_cgroups_ok w) (tracked_cgroups k);
          Some (rc, k\<lparr>tracked_cgroups := m\<rparr>) }"

definition flush_if_open :: "world \<Rightarrow> bpf_state \<Rightarrow> (bpf_state \<times> bytes) option" where
  "flush_if_open w k =
     (if g_agg_map_ok w then
        do { (m, out) \<leftarrow> flush_agg_map (w_next w) (w_links w) (event_agg_map k); Some (k\<lparr>event_agg_map := m\<rparr>, out) }
      else Some (k, []))"

definition report_overflow :: "world \<Rightarrow> bpf_state \<Rightarrow> bpf_state \<times> bytes" where
  "report_overflow w k =
     (if g_overflow_ok w then
        (case check_overflow (w_num_cpus w) (w_alloc_ok w) (w_overflow_lookup_ok w) (agg_overflow_count k) of
           (_, out, counts) \<Rightarrow> (k\<lparr>agg_overflow_count := counts\<rparr>, out))
      else (k, []))"

text \<open>
  The body of the loop after a successful poll: the records handed to the handler, the refresh of
  the cgroup filter and the periodic flush. The pair of times is \<open>last_cgroup_refresh_time\<close> and
  \<open>last_flush_time\<close>.
\<close>

definition loop_body :: "options \<Rightarrow> turn \<Rightarrow> tracer \<Rightarrow> u64 \<times> u64 \<Rightarrow> (tracer \<times> (u64 \<times> u64) \<times> bytes) option" where
  "loop_body env t tr stamps =
     do { let n = nat (tn_poll t);
          let evs = take n (rb (tr_kern tr));
          let tr0 = tr\<lparr>tr_kern := (tr_kern tr)\<lparr>rb := drop n (rb (tr_kern tr))\<rparr>\<rparr>;
          (tr1, out1) \<leftarrow> handle_events env (zip (map (tn_worlds t) [0..<length evs]) evs) tr0;
          let now = tn_now t;
          (k2, refreshed) \<leftarrow>
            (if opt_cgroup_filter_enabled env \<and> opt_cgroup_filter_children env \<and> 2 \<le> now - fst stamps
             then do { (_, k) \<leftarrow> refresh_cgroups (tn_after t) env (tr_kern tr1); Some (k, now) }
             else Some (tr_kern tr1, fst stamps));
          (k4, flushed, out2) \<leftarrow>
            (if FLUSH_INTERVAL_S \<le> now - snd stamps
             then do { (k3, o1) \<leftarrow> flush_if_open (tn_after t) k2;
                       let (k4, o2) = report_overflow (tn_after t) k3;
                       Some (k4, now, o1 @ o2) }
             else Some (k2, snd stamps, []));
          Some (tr1\<lparr>tr_kern := k4\<rparr>, (refreshed, flushed), out1 @ out2) }"

text \<open>The loop ends when \<open>exiting\<close> is set, here at the end of the list, or when the poll fails.\<close>

fun main_loop :: "options \<Rightarrow> bpf_config \<Rightarrow> turn list \<Rightarrow> tracer \<Rightarrow> u64 \<times> u64 \<Rightarrow> (int \<times> tracer \<times> bytes) option" where
  "main_loop env cfg [] tr stamps = Some (0, tr, [])"
| "main_loop env cfg (t # ts) tr stamps =
     (let tr0 = tr\<lparr>tr_kern := run_kernel env cfg (tn_calls t) (tr_kern tr)\<rparr> in
      if tn_poll t = - EINTR then Some (0, tr0, [])
      else if tn_poll t < 0 then Some (tn_poll t, tr0, [])
      else (case loop_body env t tr0 stamps of
          None \<Rightarrow> None
        | Some (tr1, stamps1, out1) \<Rightarrow>
            (case main_loop env cfg ts tr1 stamps1 of
               None \<Rightarrow> None
             | Some (err, tr2, out2) \<Rightarrow> Some (err, tr2, out1 @ out2))))"

text \<open>The results of the calls that open, load and attach the BPF object and create the ring buffer.\<close>

record libbpf_results =
  lb_open :: bool
  lb_load :: int
  lb_attach :: int
  lb_ring :: bool

datatype main_result = Usage_exit opt_error | Returned int "tracer option" bytes

definition exit_status :: "int \<Rightarrow> int" where
  "exit_status err = (if err < 0 then - err else 0)"

definition print_anchor :: "world \<Rightarrow> bytes \<Rightarrow> bytes" where
  "print_anchor w phase = print_clock_sync_anchor (Some phase) (w_mono w) (w_real w) (w_wall_prefix w)"

definition init_tracer :: "options \<Rightarrow> pid_tracker" where
  "init_tracer env =
     pid_tracker_init (opt_command_list env) (length (opt_command_list env)) (opt_filter_mode env) (opt_pid env)"

text \<open>Everything after the BPF object is loaded: \<open>w0\<close> and \<open>w1\<close> are the surroundings before and after the loop.\<close>

definition run_loaded ::
  "libbpf_results \<Rightarrow> world \<Rightarrow> world \<Rightarrow> options \<Rightarrow> u64 \<Rightarrow> turn list \<Rightarrow> main_result option" where
  "run_loaded lb w0 w1 env cgroup_filter_id turns =
     do { (rc, k0) \<leftarrow> (if opt_cgroup_filter_enabled env \<and> opt_cgroup_filter_children env
                       then refresh_cgroups w0 env empty_bpf else Some (0, empty_bpf));
          if rc < 0 then Some (Returned (exit_status rc) None [])
          else
            let (_, t1, k1) = seed_initial_pids w0 env (init_tracer env, k0) in
            if lb_attach lb \<noteq> 0 then Some (Returned (exit_status (lb_attach lb)) None [])
            else if \<not> lb_ring lb then Some (Returned (exit_status (-1)) None [])
            else
              do { (err, tr, out) \<leftarrow> main_loop env (rodata env cgroup_filter_id) turns
                     \<lparr>tr_pids = t1, tr_kern = k1, tr_opens = \<lparr>file_hashes = [], pid_limits = []\<rparr>\<rparr> (0, 0);
                   (k2, out2) \<leftarrow> flush_if_open w1 (tr_kern tr);
                   Some (Returned (exit_status err) (Some (tr\<lparr>tr_kern := k2\<rparr>))
                     (print_anchor w0 ''start'' @ out @ out2 @ print_anchor w1 ''end'')) } }"

definition main :: "libbpf_results \<Rightarrow> world \<Rightarrow> world \<Rightarrow> opt_arg list \<Rightarrow> turn list \<Rightarrow> main_result option" where
  "main lb w0 w1 argv turns =
     (case argp_parse argv default_options of
        Inl e \<Rightarrow> Some (Usage_exit e)
      | Inr env \<Rightarrow>
          if opt_cgroup_filter_children env \<and> \<not> opt_cgroup_filter_enabled env then Some (Returned 1 None [])
          else if \<not> lb_open lb then Some (Returned 1 None [])
          else
            (case (if opt_cgroup_filter_enabled env
                   then resolve_cgroup_id_from_path (w_fs w0) (Some (opt_cgroup_filter_path env)) else Some 0) of
               None \<Rightarrow> Some (Returned (exit_status (-22)) None [])
             | Some cgroup_filter_id \<Rightarrow>
                 if lb_load lb \<noteq> 0 then Some (Returned (exit_status (lb_load lb)) None [])
                 else run_loaded lb w0 w1 env cgroup_filter_id turns))"

section \<open>What the program relies on\<close>

definition MAX_TRACKED_PIDS :: nat where
  "MAX_TRACKED_PIDS = 4096"

text \<open>
  The maps are open, the kernel accepts a new element of \<open>tracked_pids\<close> as long as it has fewer than
  \<open>MAX_TRACKED_PIDS\<close>, and the keys of the two maps that are walked are enumerated in some order.
\<close>

definition world_ok :: "world \<Rightarrow> bool" where
  "world_ok w \<longleftrightarrow> g_agg_map_ok w \<and> g_tracked_pids_ok w \<and>
     (\<forall>m. finite (dom m) \<longrightarrow> (w_room w m \<longleftrightarrow> card (dom m) < MAX_TRACKED_PIDS)) \<and>
     (\<exists>keys. map_iter (w_next w) keys) \<and>
     (\<exists>keys. map_iter (w_cg_next w) keys \<and> (\<forall>m. w_cg_first w m = (case keys m of [] \<Rightarrow> None | x # _ \<Rightarrow> Some x)))"

text \<open>The invariant of the kernel's maps: they are finite and no key, and no event, has PID 0 or a negative one.\<close>

definition kern_ok :: "bpf_state \<Rightarrow> bool" where
  "kern_ok k \<longleftrightarrow> finite (dom (event_agg_map k)) \<and> (\<forall>key\<in>dom (event_agg_map k). 0 < sint (ak_pid key)) \<and>
     finite (dom (tracked_cgroups k)) \<and> (\<forall>e\<in>set (rb k). 0 < sint (e_pid e))"

lemma kern_ok_zero_key:
  assumes "kern_ok k"
  shows "event_agg_map k zero_key = None"
proof (rule ccontr)
  assume "event_agg_map k zero_key \<noteq> None"
  then have "0 < sint (ak_pid zero_key)" using assms unfolding kern_ok_def by blast
  then show False by (simp add: zero_key_def)
qed

lemma recorded_kern_ok:
  assumes "kern_ok k" "recorded env key n k k'" "0 < sint (ak_pid key)"
  shows "kern_ok k'"
proof (cases "event_agg_map k key = None \<and> \<not> room env")
  case True
  then have "k' = bump_overflow env k" using assms(2) by (simp add: recorded_def)
  with assms(1) show ?thesis by (simp add: kern_ok_def bump_overflow_def)
next
  case False
  then obtain v where "k' = k\<lparr>event_agg_map := (event_agg_map k)(key \<mapsto> v)\<rparr>" using assms(2) by (auto simp: recorded_def)
  with assms show ?thesis by (auto simp: kern_ok_def)
qed

lemma run_prog_kern_ok:
  assumes "kern_ok k" "0 < sint (cur_tgid env)"
  shows "kern_ok (run_prog p cfg env k)"
proof -
  have ctx: "kern_ok (k\<lparr>write_ctx_map := w\<rparr>)" for w using assms(1) by (simp add: kern_ok_def)
  show ?thesis
    using run_prog_effect[of cfg env k p] assms ctx recorded_kern_ok[OF ctx, of env _ _ _ "run_prog p cfg env k"]
    by (auto simp: ext_effect_def)
qed

lemma run_bpf_kern_ok:
  assumes "kern_ok k" "0 < sint (cur_tgid env)"
  shows "kern_ok (run_bpf prog cfg env slot k)"
proof (cases prog)
  case (B_ext p)
  then show ?thesis using run_prog_kern_ok[OF assms] by simp
qed (use assms in \<open>auto simp: kern_ok_def core_defs open_event_def Let_def split: option.splits prod.splits\<close>)

lemma run_kernel_ok:
  "kern_ok k \<Longrightarrow> list_all (\<lambda>(_, e, _). 0 < sint (cur_tgid e)) cs \<Longrightarrow>
     kern_ok (run_kernel env cfg cs k) \<and> tracked_pids (run_kernel env cfg cs k) = tracked_pids k"
  by (induction env cfg cs k rule: run_kernel.induct) (auto simp: run_bpf_kern_ok run_bpf_filters)

section \<open>Tracking as a set of processes\<close>

text \<open>
  The specification of what is tracked: which execs select a process, and how a process event
  changes the set of tracked processes.
\<close>

definition selected :: "world \<Rightarrow> options \<Rightarrow> pid_t set \<Rightarrow> event \<Rightarrow> bool" where
  "selected w env S e \<longleftrightarrow>
     (if 0 < sint (opt_session_id env) then w_getsid w (e_pid e) = opt_session_id env
      else opt_filter_mode env \<noteq> FILTER_MODE_FILTER \<or> (0 < sint (opt_pid env) \<and> e_pid e = opt_pid env) \<or>
        e_ppid e \<in> S \<or> c_str (e_comm e) \<in> c_str ` set (opt_command_list env))"

definition spec_track :: "world \<Rightarrow> options \<Rightarrow> event \<Rightarrow> pid_t set \<Rightarrow> pid_t set" where
  "spec_track w env e S =
     (if e_type e \<noteq> EVENT_TYPE_PROCESS then S
      else if e_exit_event e then S - {e_pid e}
      else if selected w env S e \<or> opt_filter_mode env = FILTER_MODE_PROC then bounded_insert MAX_TRACKED_PIDS (e_pid e) S
      else S)"

text \<open>
  The tracker was set up from the options and holds \<open>T\<close>, the kernel's filter holds \<open>K\<close>.
\<close>

definition tracks :: "options \<Rightarrow> pid_tracker \<times> bpf_state \<Rightarrow> pid_t set \<Rightarrow> pid_t set \<Rightarrow> bool" where
  "tracks env tk T K \<longleftrightarrow> tracker_ok (fst tk) \<and> tracker_config (fst tk) = tracker_config (init_tracer env) \<and>
     dom (tracker_map (fst tk)) = T \<and> dom (tracked_pids (snd tk)) = K \<and> finite K"

text \<open>What a process event does to the kernel's set: as for the tracker, with the decision taken on the tracker.\<close>

definition spec_kern :: "world \<Rightarrow> options \<Rightarrow> event \<Rightarrow> pid_t set \<Rightarrow> pid_t set \<Rightarrow> pid_t set" where
  "spec_kern w env e T K =
     (if e_type e \<noteq> EVENT_TYPE_PROCESS then K
      else if e_exit_event e then K - {e_pid e}
      else if selected w env T e \<or> opt_filter_mode env = FILTER_MODE_PROC then bounded_insert MAX_TRACKED_PIDS (e_pid e) K
      else K)"

lemma spec_kern_same [simp]: "spec_kern w env e S S = spec_track w env e S"
  by (simp add: spec_kern_def spec_track_def)

lemma config_init:
  "tracker_config t = tracker_config (init_tracer env) \<Longrightarrow>
     command_filters t = opt_command_list env \<and> command_filter_count t = length (opt_command_list env) \<and>
     filter_mode t = opt_filter_mode env \<and> target_pid t = opt_pid env"
  by (simp add: tracker_config_def init_tracer_def pid_tracker_init_def)

lemma tracks_selected:
  assumes "tracks env (t, k) T K"
  shows "should_track_event_process w env t (e_comm e) (e_pid e) (e_ppid e) \<longleftrightarrow> selected w env T e"
  using assms config_init[of t env] should_track_iff[of t "e_comm e" "e_pid e" "e_ppid e"]
  by (auto simp: tracks_def should_track_event_process_def process_in_target_session_def selected_def)

lemma tracker_insert:
  assumes "tracks env (t, k) T K"
  shows "tracks env (snd (pid_tracker_add t pid ppid), k) (bounded_insert MAX_TRACKED_PIDS pid T) K"
proof -
  have "tracker_ok t" using assms by (simp add: tracks_def)
  note tracker.dom_add[OF this, of pid ppid] tracker.add_invar[OF this, of pid ppid]
  then show ?thesis using assms by (simp add: tracks_def MAX_TRACKED_PIDS_def TRACKED_PIDS_HASH_SIZE_def)
qed

lemma kernel_insert:
  assumes "tracks env (t, k) T K" "world_ok w" "0 < sint pid"
  shows "tracks env (t, add_tracked_pid_to_bpf w pid k) T (bounded_insert MAX_TRACKED_PIDS pid K)"
proof -
  have "finite (dom (tracked_pids k))" using assms(1) by (simp add: tracks_def)
  then have "w_room w (tracked_pids k) \<longleftrightarrow> card K < MAX_TRACKED_PIDS"
    using assms(1,2) by (auto simp: tracks_def world_ok_def)
  then have "dom (tracked_pids (add_tracked_pid_to_bpf w pid k)) = bounded_insert MAX_TRACKED_PIDS pid K"
    using assms by (auto simp: add_tracked_pid_to_bpf_def world_ok_def tracks_def bounded_insert_def map_update_def
        split: option.splits if_splits)
  then show ?thesis using assms(1) by (simp add: tracks_def bounded_insert_def)
qed

lemma tracks_insert:
  assumes "tracks env (t, k) T K" "world_ok w" "0 < sint pid"
  shows "tracks env (snd (pid_tracker_add t pid ppid), add_tracked_pid_to_bpf w pid k)
    (bounded_insert MAX_TRACKED_PIDS pid T) (bounded_insert MAX_TRACKED_PIDS pid K)"
  using kernel_insert[OF tracker_insert[OF assms(1)] assms(2,3)] .

lemma tracks_remove:
  assumes "tracks env (t, k) T K" "world_ok w" "0 < sint pid"
  shows "tracks env (pid_tracker_remove t pid, remove_tracked_pid_from_bpf w pid k) (T - {pid}) (K - {pid})"
proof -
  have "tracker_ok t" using assms(1) by (simp add: tracks_def)
  note tracker.dom_remove[OF this, of pid] tracker.remove_invar[OF this, of pid]
  then show ?thesis
    using assms by (auto simp: tracks_def remove_tracked_pid_from_bpf_def world_ok_def map_delete_def)
qed

lemma tracks_cong: "tracks env (t, k) T K \<Longrightarrow> tracked_pids k' = tracked_pids k \<Longrightarrow> tracks env (t, k') T K"
  by (simp add: tracks_def)

lemma is_tracked_tracks: "tracks env (t, k) T K \<Longrightarrow> pid_tracker_is_tracked t p \<longleftrightarrow> p \<in> T"
  using is_tracked_iff by (auto simp: tracks_def)

section \<open>The event handler keeps the invariants\<close>

definition tracer_at :: "options \<Rightarrow> tracer \<Rightarrow> pid_t set \<Rightarrow> pid_t set \<Rightarrow> bool" where
  "tracer_at env tr T K \<longleftrightarrow> tracks env (tr_pids tr, tr_kern tr) T K \<and> kern_ok (tr_kern tr) \<and> opens_ok (tr_opens tr)"

definition tracer_ok :: "options \<Rightarrow> tracer \<Rightarrow> pid_t set \<Rightarrow> bool" where
  "tracer_ok env tr S \<longleftrightarrow> tracer_at env tr S S"

lemma print_exit_event_keeps:
  "print_exit_event w e k = (k', out) \<Longrightarrow> tracked_pids k' = tracked_pids k \<and> event_agg_map k' = event_agg_map k \<and>
     tracked_cgroups k' = tracked_cgroups k \<and> rb k' = rb k"
  by (auto simp: print_exit_event_def Let_def split: if_splits option.splits)

lemma kern_ok_cong:
  "kern_ok k \<Longrightarrow> event_agg_map k' = event_agg_map k \<Longrightarrow> tracked_cgroups k' = tracked_cgroups k \<Longrightarrow> rb k' = rb k \<Longrightarrow> kern_ok k'"
  by (simp add: kern_ok_def)

lemma add_remove_keep:
  "event_agg_map (add_tracked_pid_to_bpf w p k) = event_agg_map k"
  "tracked_cgroups (add_tracked_pid_to_bpf w p k) = tracked_cgroups k" "rb (add_tracked_pid_to_bpf w p k) = rb k"
  "event_agg_map (remove_tracked_pid_from_bpf w p k) = event_agg_map k"
  "tracked_cgroups (remove_tracked_pid_from_bpf w p k) = tracked_cgroups k" "rb (remove_tracked_pid_from_bpf w p k) = rb k"
  by (simp_all add: add_tracked_pid_to_bpf_def remove_tracked_pid_from_bpf_def)

lemma kern_ok_add_remove:
  "kern_ok (add_tracked_pid_to_bpf w p k) = kern_ok k" "kern_ok (remove_tracked_pid_from_bpf w p k) = kern_ok k"
  by (simp_all add: kern_ok_def add_remove_keep)

lemma drop_entries_le: "(\<lambda>k. if P k then None else m k) \<subseteq>\<^sub>m m"
  by (auto simp: map_le_def dom_def)

lemma kern_ok_shrink:
  assumes "kern_ok k" "m \<subseteq>\<^sub>m event_agg_map k"
  shows "kern_ok (k\<lparr>event_agg_map := m\<rparr>)"
proof -
  have "dom m \<subseteq> dom (event_agg_map k)" using assms(2) by (rule map_le_implies_dom_le)
  with assms(1) show ?thesis by (auto simp: kern_ok_def intro: finite_subset)
qed

lemma flushes_return:
  assumes "world_ok w" "kern_ok k"
  shows "\<exists>out. flush_agg_map (w_next w) links (event_agg_map k) = Some (unflushed (event_agg_map k), out)"
    and "\<exists>m out. flush_pid_from_agg_map (w_next w) links p (event_agg_map k) = Some (m, out) \<and> m \<subseteq>\<^sub>m event_agg_map k"
proof -
  obtain keys where it: "map_iter (w_next w) keys" using assms(1) by (auto simp: world_ok_def)
  have fin: "finite (dom (event_agg_map k))" using assms(2) by (simp add: kern_ok_def)
  note z = kern_ok_zero_key[OF assms(2)]
  show "\<exists>out. flush_agg_map (w_next w) links (event_agg_map k) = Some (unflushed (event_agg_map k), out)"
    by (intro exI) (rule flush_agg_map_eq[where m = "event_agg_map k", OF it fin z])
  show "\<exists>m out. flush_pid_from_agg_map (w_next w) links p (event_agg_map k) = Some (m, out) \<and> m \<subseteq>\<^sub>m event_agg_map k"
    by (intro exI conjI) (rule flush_pid_from_agg_map_eq[where m = "event_agg_map k", OF it fin z], rule drop_entries_le)
qed

lemma take_warning_ok: "limits_ok limits \<Longrightarrow> limits_ok (snd (take_warning pid limits))"
  using limits_ok_remove find_upt_SomeD by (fastforce simp: take_warning_def split: option.splits)

lemma track_ok:
  assumes "tracer_at env tr T K" "world_ok w" "0 < sint (e_pid e)"
  shows "tracer_at env (track w e tr) (bounded_insert MAX_TRACKED_PIDS (e_pid e) T) (bounded_insert MAX_TRACKED_PIDS (e_pid e) K)"
  using assms tracks_insert[of env "tr_pids tr" "tr_kern tr" T K w "e_pid e" "e_ppid e"]
  by (simp add: tracer_at_def track_def kern_ok_add_remove)

text \<open>The part of the exit handler after the filter: it returns, and only shrinks the tables.\<close>

lemma handle_exit_event_cases:
  assumes ok: "tracer_at env tr T K" and w: "world_ok w" and pid: "0 < sint (e_pid e)"
  shows "\<exists>tr' out. handle_exit_event w e tr = Some (tr', out) \<and> tracer_at env tr' (T - {e_pid e}) (K - {e_pid e}) \<and>
    (if opt_filter_mode env = FILTER_MODE_FILTER \<and> e_pid e \<notin> T then out = [] \<and> tr_opens tr' = tr_opens tr
     else \<forall>h\<in>set (file_hashes (tr_opens tr')). fh_pid h \<noteq> e_pid e)"
proof -
  let ?pid = "e_pid e" and ?k1 = "remove_tracked_pid_from_bpf w (e_pid e) (tr_kern tr)"
  let ?t1 = "pid_tracker_remove (tr_pids tr) ?pid"
  have f: "tracks env (tr_pids tr, tr_kern tr) T K" and k: "kern_ok (tr_kern tr)" and o: "opens_ok (tr_opens tr)"
    using ok by (simp_all add: tracer_at_def)
  note f1 = tracks_remove[OF f w pid]
  have mode: "filter_mode ?t1 = opt_filter_mode env" using f1 config_init[of ?t1 env] by (simp add: tracks_def)
  have k1: "kern_ok ?k1" using k by (simp add: kern_ok_add_remove)
  show ?thesis
  proof (cases "opt_filter_mode env = FILTER_MODE_FILTER \<and> ?pid \<notin> T")
    case True
    then show ?thesis
      using f1 k1 o mode is_tracked_tracks[OF f, of ?pid] by (simp add: handle_exit_event_def tracer_at_def Let_def)
  next
    case False
    obtain aw limits where aw: "take_warning ?pid (pid_limits (tr_opens tr)) = (aw, limits)"
      by (cases "take_warning ?pid (pid_limits (tr_opens tr))")
    obtain k2 out1 where k2: "print_exit_event w e ?k1 = (k2, out1)" by (cases "print_exit_event w e ?k1")
    let ?o1 = "(tr_opens tr)\<lparr>pid_limits := limits\<rparr>"
    obtain op out3 where op: "flush_pid_file_opens (w_procs w) ?pid (e_timestamp_ns e) ?o1 = (op, out3)"
      by (cases "flush_pid_file_opens (w_procs w) ?pid (e_timestamp_ns e) ?o1")
    note keep = print_exit_event_keeps[OF k2]
    have k2ok: "kern_ok k2" using kern_ok_cong[OF k1] keep by simp
    have "opens_ok ?o1" using o take_warning_ok[of "pid_limits (tr_opens tr)" ?pid] aw by (simp add: opens_ok_def)
    then have opok: "opens_ok op" using flush_pid_file_opens_ok[of ?o1 "w_procs w" ?pid "e_timestamp_ns e"] op by simp
    obtain m out4 where m: "flush_pid_from_agg_map (w_next w) (w_links w) ?pid (event_agg_map k2) = Some (m, out4)"
        "m \<subseteq>\<^sub>m event_agg_map k2"
      using flushes_return(2)[OF w k2ok] by blast
    let ?tr = "tr\<lparr>tr_pids := ?t1, tr_kern := k2\<lparr>event_agg_map := m\<rparr>, tr_opens := op\<rparr>"
    have nf: "\<not> (\<not> pid_tracker_is_tracked (tr_pids tr) ?pid \<and> filter_mode ?t1 = FILTER_MODE_FILTER)"
      using False mode is_tracked_tracks[OF f, of ?pid] by auto
    have "handle_exit_event w e tr = Some (?tr, out1 @ (if aw then exit_warning e else []) @ out3 @ out4)"
      unfolding handle_exit_event_def Let_def if_not_P[OF nf] using aw k2 op m(1) w by (simp add: world_ok_def)
    moreover have "tracks env (?t1, k2\<lparr>event_agg_map := m\<rparr>) (T - {?pid}) (K - {?pid})"
      using f1 keep by (intro tracks_cong[OF f1]) simp
    then have "tracer_at env ?tr (T - {?pid}) (K - {?pid})"
      using kern_ok_shrink[OF k2ok m(2)] opok by (simp add: tracer_at_def)
    moreover have "fh_pid h \<noteq> ?pid" if "h \<in> set (file_hashes op)" for h
      using flush_pid_file_opens_pids[of h "w_procs w" ?pid "e_timestamp_ns e" ?o1] that op by simp
    ultimately show ?thesis unfolding if_not_P[OF False] by force
  qed
qed

lemma handle_exec_event_cases:
  assumes ok: "tracer_at env tr T K" and w: "world_ok w" and pid: "0 < sint (e_pid e)"
  shows "handle_exec_event w env e tr =
    (if selected w env T e \<or> opt_filter_mode env = FILTER_MODE_PROC then (track w e tr, print_exec_event w e)
     else (tr, if opt_filter_mode env = FILTER_MODE_FILTER then [] else print_exec_event w e))"
proof -
  have f: "tracks env (tr_pids tr, tr_kern tr) T K" using ok by (simp add: tracer_at_def)
  then have "filter_mode (tr_pids tr) = opt_filter_mode env" using config_init[of "tr_pids tr" env] by (simp add: tracks_def)
  then show ?thesis using tracks_selected[OF f, of w e] by (auto simp: handle_exec_event_def)
qed

lemma handle_file_event_ok:
  assumes "tracer_at env tr T K"
  shows "tracer_at env (fst (handle_file_event w env e tr)) T K"
proof -
  have o: "opens_ok (tr_opens tr)" using assms by (simp add: tracer_at_def)
  show ?thesis
    using assms get_file_open_count_ok[OF o]
    by (auto simp: handle_file_event_def tracer_at_def split: prod.splits)
qed

lemma handle_event_ok:
  assumes ok: "tracer_at env tr T K" and w: "world_ok w" and pid: "0 < sint (e_pid e)"
  shows "\<exists>tr' out. handle_event w env e tr = Some (tr', out) \<and> tracer_at env tr' (spec_track w env e T) (spec_kern w env e T K)"
proof (cases "e_type e")
  case EVENT_TYPE_PROCESS
  show ?thesis
  proof (cases "e_exit_event e")
    case True
    then show ?thesis
      using handle_exit_event_cases[OF assms] EVENT_TYPE_PROCESS by (auto simp: handle_event_def spec_track_def spec_kern_def)
  next
    case False
    then show ?thesis
      using handle_exec_event_cases[OF assms] EVENT_TYPE_PROCESS track_ok[OF assms] ok
      by (auto simp: handle_event_def spec_track_def spec_kern_def)
  qed
next
  case EVENT_TYPE_FILE_OPERATION
  then show ?thesis
    using handle_file_event_ok[OF ok, of w e] by (cases "handle_file_event w env e tr") (simp add: handle_event_def spec_track_def spec_kern_def)
qed (use ok in \<open>auto simp: handle_event_def spec_track_def spec_kern_def\<close>)

text \<open>The specification over the events of a poll.\<close>

fun spec_tracks :: "options \<Rightarrow> (world \<times> event) list \<Rightarrow> pid_t set \<Rightarrow> pid_t set" where
  "spec_tracks env [] S = S"
| "spec_tracks env ((w, e) # es) S = spec_tracks env es (spec_track w env e S)"

fun spec_kerns :: "options \<Rightarrow> (world \<times> event) list \<Rightarrow> pid_t set \<Rightarrow> pid_t set \<Rightarrow> pid_t set" where
  "spec_kerns env [] T K = K"
| "spec_kerns env ((w, e) # es) T K = spec_kerns env es (spec_track w env e T) (spec_kern w env e T K)"

lemma spec_kerns_same [simp]: "spec_kerns env es S S = spec_tracks env es S"
  by (induction env es S rule: spec_tracks.induct) simp_all

lemma handle_events_at:
  assumes "tracer_at env tr T K" "\<forall>(w, e)\<in>set es. world_ok w \<and> 0 < sint (e_pid e)"
  shows "\<exists>tr' out. handle_events env es tr = Some (tr', out) \<and> tracer_at env tr' (spec_tracks env es T) (spec_kerns env es T K)"
  using assms
proof (induction env es tr arbitrary: T K rule: handle_events.induct)
  case (2 env w e es tr)
  then obtain tr1 out1 where h: "handle_event w env e tr = Some (tr1, out1)"
    "tracer_at env tr1 (spec_track w env e T) (spec_kern w env e T K)"
    using handle_event_ok[of env tr T K w e] by auto
  show ?case using "2.IH"[OF h(1) refl h(2)] "2.prems" h(1) by auto
qed simp

lemma handle_events_ok:
  assumes "tracer_ok env tr S" "\<forall>(w, e)\<in>set es. world_ok w \<and> 0 < sint (e_pid e)"
  shows "\<exists>tr' out. handle_events env es tr = Some (tr', out) \<and> tracer_ok env tr' (spec_tracks env es S)"
  using handle_events_at[of env tr S S es] assms by (simp add: tracer_ok_def)

section \<open>How the tracker and the kernel's filter agree\<close>

text \<open>
  The command line accepts a seed whose number is cut to 32 bits, which can make it zero or negative. The
  tracker stores it, the kernel's filter does not, so such seeds, \<open>C\<close>, are only in the tracker and take
  room there. The filter then holds every other process of the tracker, and at most as many others
  as the tracker has cut PIDs: those selected while the tracker was full.
\<close>

definition agrees :: "pid_t set \<Rightarrow> pid_t set \<Rightarrow> pid_t set \<Rightarrow> bool" where
  "agrees C T K \<longleftrightarrow> finite T \<and> finite K \<and> {p\<in>T. sint p \<le> 0} \<subseteq> C \<and> (\<forall>p\<in>K. 0 < sint p) \<and> {p\<in>T. 0 < sint p} \<subseteq> K \<and>
     card (K - T) \<le> card {p\<in>T. sint p \<le> 0}"

lemma agrees_equal: "agrees {} T K \<Longrightarrow> T = K"
proof -
  assume a: "agrees {} T K"
  then have n: "{p\<in>T. sint p \<le> 0} = {}" by (simp add: agrees_def)
  then have "T \<subseteq> K" using a by (auto simp: agrees_def not_le)
  moreover have "K - T = {}" using a unfolding agrees_def n by simp
  ultimately show ?thesis by blast
qed

lemma agrees_cards:
  assumes "agrees C T K"
  shows "card K + card {p\<in>T. sint p \<le> 0} = card T + card (K - T)"
proof -
  have fin: "finite T" "finite K" and pos: "{p\<in>T. 0 < sint p} = K \<inter> T" using assms by (auto simp: agrees_def)
  have "card K = card (K \<inter> T) + card (K - T)" using fin(2) by (subst card_Un_disjoint[symmetric]) (auto intro!: arg_cong[where f = card])
  moreover have "card T = card {p\<in>T. 0 < sint p} + card {p\<in>T. sint p \<le> 0}"
    using fin(1) by (subst card_Un_disjoint[symmetric]) (auto intro!: arg_cong[where f = card])
  ultimately show ?thesis unfolding pos by simp
qed

lemma agrees_insert:
  assumes a: "agrees C T K" and p: "0 < sint pid"
  shows "agrees C (bounded_insert n pid T) (bounded_insert n pid K)"
proof -
  have cut: "{q. (q = pid \<or> q \<in> T) \<and> sint q \<le> 0} = {q\<in>T. sint q \<le> 0}" using p by auto
  have fin: "finite T" "finite K" using a by (simp_all add: agrees_def)
  note cards = agrees_cards[OF a]
  consider "pid \<in> T" | "pid \<notin> T" "card T < n" "pid \<in> K" | "pid \<notin> T" "card T < n" "pid \<notin> K" | "pid \<notin> T" "n \<le> card T" by fastforce
  then show ?thesis
  proof cases
    case 1
    then have "pid \<in> K" using a p by (auto simp: agrees_def)
    with 1 a show ?thesis by (simp add: bounded_insert_def)
  next
    case 2
    then have "card (K - insert pid T) \<le> card (K - T)" using fin(2) by (intro card_mono) auto
    with 2 a show ?thesis unfolding agrees_def bounded_insert_def by (auto simp: cut)
  next
    case 3
    then have "card K < n" using a cards by (simp add: agrees_def)
    moreover have "insert pid K - insert pid T = K - T" using 3 by auto
    ultimately show ?thesis using 3 a p unfolding agrees_def bounded_insert_def by (auto simp: cut)
  next
    case 4
    have "card (insert pid K - T) \<le> card {p\<in>T. sint p \<le> 0}" if "pid \<notin> K" "card K < n"
    proof -
      have "insert pid K - T = insert pid (K - T)" using 4 by auto
      then have "card (insert pid K - T) = Suc (card (K - T))" using that(1) fin(2) by simp
      then show ?thesis using cards that(2) 4(2) by simp
    qed
    with 4 a p show ?thesis unfolding agrees_def bounded_insert_def by auto
  qed
qed

lemma agrees_remove:
  assumes "agrees C T K" "0 < sint pid"
  shows "agrees C (T - {pid}) (K - {pid})"
proof -
  have "{p \<in> T - {pid}. sint p \<le> 0} = {p\<in>T. sint p \<le> 0}" using assms(2) by auto
  moreover have "card (K - {pid} - (T - {pid})) \<le> card (K - T)" using assms(1) by (intro card_mono) (auto simp: agrees_def)
  ultimately show ?thesis using assms unfolding agrees_def by auto
qed

lemma agrees_cut:
  assumes "agrees C T K" "sint pid \<le> 0" "pid \<in> C"
  shows "agrees C (bounded_insert n pid T) K"
proof -
  have "card (K - insert pid T) \<le> card (K - T)" using assms(1) by (intro card_mono) (auto simp: agrees_def)
  moreover have "card {p\<in>T. sint p \<le> 0} \<le> card {p \<in> insert pid T. sint p \<le> 0}" using assms(1) by (intro card_mono) (auto simp: agrees_def)
  ultimately show ?thesis using assms unfolding agrees_def bounded_insert_def by auto
qed

lemma agrees_spec:
  "agrees C T K \<Longrightarrow> 0 < sint (e_pid e) \<Longrightarrow> agrees C (spec_track w env e T) (spec_kern w env e T K)"
  by (simp add: spec_track_def spec_kern_def agrees_insert agrees_remove)

lemma agrees_specs:
  "agrees C T K \<Longrightarrow> \<forall>(w, e)\<in>set es. 0 < sint (e_pid e) \<Longrightarrow> agrees C (spec_tracks env es T) (spec_kerns env es T K)"
  by (induction env es T K rule: spec_kerns.induct) (auto simp: agrees_spec)

section \<open>The main loop keeps the invariants\<close>

text \<open>The seeds that were cut.\<close>

definition cut_pids :: "options \<Rightarrow> pid_t set" where
  "cut_pids env = {p \<in> sp_pid ` set (opt_seed_pids env). sint p \<le> 0}"

lemma seed_loop_ok:
  assumes "tracks env (t, k) T K" "agrees C T K" "K \<subseteq> T" "kern_ok k" "world_ok w" "{p \<in> sp_pid ` set ss. sint p \<le> 0} \<subseteq> C"
  shows "\<exists>n' t' k' T' K'. seed_loop w ss n (t, k) = (n', t', k') \<and> kern_ok k' \<and> tracks env (t', k') T' K' \<and> agrees C T' K'"
  using assms
proof (induction ss arbitrary: n t k T K)
  case Nil
  then show ?case by auto
next
  case (Cons s ss)
  let ?p = "sp_pid s"
  obtain ok t' where add: "pid_tracker_add t ?p (sp_ppid s) = (ok, t')" by (cases "pid_tracker_add t ?p (sp_ppid s)")
  have tok: "tracker_ok t" and T: "dom (tracker_map t) = T" using Cons.prems(1) by (simp_all add: tracks_def)
  have ok: "ok \<longleftrightarrow> ?p \<in> T \<or> card T < MAX_TRACKED_PIDS"
    using tracker.add_result[OF tok, of ?p "sp_ppid s"] add T by (simp add: MAX_TRACKED_PIDS_def TRACKED_PIDS_HASH_SIZE_def)
  have known: "pid_tracker_is_tracked t ?p \<longleftrightarrow> ?p \<in> T" using is_tracked_tracks[OF Cons.prems(1)] .
  have t': "tracks env (t', k) (bounded_insert MAX_TRACKED_PIDS ?p T) K" using tracker_insert[OF Cons.prems(1), of ?p "sp_ppid s"] add by simp
  have cut: "{p \<in> sp_pid ` set ss. sint p \<le> 0} \<subseteq> C" and p: "sint ?p \<le> 0 \<Longrightarrow> ?p \<in> C" using Cons.prems(6) by auto
  show ?case
  proof (cases "ok \<and> ?p \<notin> T")
    case True
    then have ins: "bounded_insert MAX_TRACKED_PIDS ?p T = insert ?p T" using ok by (auto simp: bounded_insert_def)
    let ?k = "add_tracked_pid_to_bpf w ?p k"
    have loop: "seed_loop w (s # ss) n (t, k) = seed_loop w ss (n + 1) (t', ?k)" using True add known by (simp add: Let_def)
    have "kern_ok ?k" using Cons.prems(4) by (simp add: kern_ok_add_remove)
    moreover have "\<exists>K'. tracks env (t', ?k) (insert ?p T) K' \<and> agrees C (insert ?p T) K' \<and> K' \<subseteq> insert ?p T"
    proof (cases "0 < sint ?p")
      case True
      have "bounded_insert MAX_TRACKED_PIDS ?p K \<subseteq> insert ?p T" using Cons.prems(3) by (auto simp: bounded_insert_def)
      then show ?thesis
        using kernel_insert[OF t' Cons.prems(5) True] agrees_insert[OF Cons.prems(2) True, of MAX_TRACKED_PIDS] unfolding ins by blast
    next
      case False
      then have "?k = k" by (simp add: add_tracked_pid_to_bpf_def)
      then show ?thesis
        using t' agrees_cut[OF Cons.prems(2) _ p, of MAX_TRACKED_PIDS] False Cons.prems(3) unfolding ins by (intro exI[of _ K]) auto
    qed
    ultimately show ?thesis unfolding loop using Cons.IH[OF _ _ _ _ Cons.prems(5) cut] by blast
  next
    case False
    then have "bounded_insert MAX_TRACKED_PIDS ?p T = T" using ok by (auto simp: bounded_insert_def)
    moreover have "seed_loop w (s # ss) n (t, k) = seed_loop w ss n (t', k)" using False add known by (auto simp: Let_def)
    ultimately show ?thesis using Cons.IH[OF _ Cons.prems(2,3,4,5) cut] t' by simp
  qed
qed

definition turn_ok :: "turn \<Rightarrow> bool" where
  "turn_ok t \<longleftrightarrow> world_ok (tn_after t) \<and> (\<forall>i. world_ok (tn_worlds t i)) \<and>
     list_all (\<lambda>(_, e, _). 0 < sint (cur_tgid e)) (tn_calls t)"

lemma refresh_cgroups_ok:
  assumes "world_ok w" "kern_ok k"
  shows "\<exists>rc k'. refresh_cgroups w env k = Some (rc, k') \<and> kern_ok k' \<and> tracked_pids k' = tracked_pids k"
proof -
  obtain keys where "map_iter (w_cg_next w) keys" "\<And>m. w_cg_first w m = (case keys m of [] \<Rightarrow> None | x # _ \<Rightarrow> Some x)"
    using assms(1) by (auto simp: world_ok_def)
  from populate_returns[OF this, of "tracked_cgroups k" "w_fs w" "w_cg_room w" "Some (opt_cgroup_filter_path env)" True
      "g_tracked_cgroups_ok w"]
  show ?thesis using assms(2) by (auto simp: kern_ok_def refresh_cgroups_def)
qed

lemma flush_if_open_ok:
  assumes "world_ok w" "kern_ok k"
  shows "\<exists>out. flush_if_open w k = Some (k\<lparr>event_agg_map := unflushed (event_agg_map k)\<rparr>, out)"
    and "kern_ok (k\<lparr>event_agg_map := unflushed (event_agg_map k)\<rparr>)"
proof -
  show "\<exists>out. flush_if_open w k = Some (k\<lparr>event_agg_map := unflushed (event_agg_map k)\<rparr>, out)"
    using flushes_return(1)[OF assms, of "w_links w"] assms(1) by (auto simp: flush_if_open_def world_ok_def)
  show "kern_ok (k\<lparr>event_agg_map := unflushed (event_agg_map k)\<rparr>)"
    by (rule kern_ok_shrink[OF assms(2)]) (simp add: unflushed_def drop_entries_le)
qed

lemma report_overflow_keeps:
  "report_overflow w k = (k', out) \<Longrightarrow> kern_ok k \<Longrightarrow> kern_ok k' \<and> tracked_pids k' = tracked_pids k"
  by (auto simp: report_overflow_def kern_ok_def split: if_splits prod.splits)

lemma kern_replace:
  "tracer_at env tr T K \<Longrightarrow> kern_ok k \<Longrightarrow> tracked_pids k = tracked_pids (tr_kern tr) \<Longrightarrow> tracer_at env (tr\<lparr>tr_kern := k\<rparr>) T K"
  by (simp add: tracer_at_def tracks_def)

lemma loop_body_ok:
  assumes ok: "tracer_at env tr T K" "agrees C T K" and t: "turn_ok t"
  shows "\<exists>tr' stamps' out T' K'. loop_body env t tr stamps = Some (tr', stamps', out) \<and> tracer_at env tr' T' K' \<and> agrees C T' K'"
proof -
  let ?n = "nat (tn_poll t)" and ?w = "tn_after t"
  let ?evs = "take ?n (rb (tr_kern tr))" and ?k0 = "(tr_kern tr)\<lparr>rb := drop ?n (rb (tr_kern tr))\<rparr>"
  let ?es = "zip (map (tn_worlds t) [0..<length ?evs]) ?evs"
  have k: "kern_ok (tr_kern tr)" using ok(1) by (simp add: tracer_at_def)
  then have "kern_ok ?k0" unfolding kern_ok_def by (auto dest: in_set_dropD)
  then have ok0: "tracer_at env (tr\<lparr>tr_kern := ?k0\<rparr>) T K" by (intro kern_replace[OF ok(1)]) simp_all
  have es: "\<forall>(w, e)\<in>set ?es. world_ok w \<and> 0 < sint (e_pid e)"
    using t k by (fastforce simp: turn_ok_def kern_ok_def dest: set_zip_leftD set_zip_rightD in_set_takeD)
  have "\<forall>(w, e)\<in>set ?es. 0 < sint (e_pid e)" using es by (simp only: case_prod_unfold) blast
  note agr = agrees_specs[OF ok(2) this, of env]
  from handle_events_at[OF ok0 es] obtain tr1 out1
    where h: "handle_events env ?es (tr\<lparr>tr_kern := ?k0\<rparr>) = Some (tr1, out1)" and ok1: "tracer_at env tr1 (spec_tracks env ?es T) (spec_kerns env ?es T K)" by blast
  have w: "world_ok ?w" using t by (simp add: turn_ok_def)
  have k1: "kern_ok (tr_kern tr1)" using ok1 by (simp add: tracer_at_def)
  obtain rc k2 where r: "refresh_cgroups ?w env (tr_kern tr1) = Some (rc, k2)" and k2: "kern_ok k2" "tracked_pids k2 = tracked_pids (tr_kern tr1)"
    using refresh_cgroups_ok[OF w k1] by blast
  define k3 where "k3 = (if opt_cgroup_filter_enabled env \<and> opt_cgroup_filter_children env \<and> 2 \<le> tn_now t - fst stamps then k2 else tr_kern tr1)"
  have k3: "kern_ok k3" "tracked_pids k3 = tracked_pids (tr_kern tr1)" using k1 k2 by (simp_all add: k3_def)
  obtain out2 where f: "flush_if_open ?w k3 = Some (k3\<lparr>event_agg_map := unflushed (event_agg_map k3)\<rparr>, out2)"
    using flush_if_open_ok(1)[OF w k3(1)] by blast
  obtain k4 out3 where o: "report_overflow ?w (k3\<lparr>event_agg_map := unflushed (event_agg_map k3)\<rparr>) = (k4, out3)"
    by (cases "report_overflow ?w (k3\<lparr>event_agg_map := unflushed (event_agg_map k3)\<rparr>)")
  have k4: "kern_ok k4" "tracked_pids k4 = tracked_pids (tr_kern tr1)"
    using report_overflow_keeps[OF o flush_if_open_ok(2)[OF w k3(1)]] k3(2) by simp_all
  let ?fl = "FLUSH_INTERVAL_S \<le> tn_now t - snd stamps"
  let ?rf = "opt_cgroup_filter_enabled env \<and> opt_cgroup_filter_children env \<and> 2 \<le> tn_now t - fst stamps"
  have "\<exists>stamps'. loop_body env t tr stamps =
      Some (tr1\<lparr>tr_kern := if ?fl then k4 else k3\<rparr>, stamps', out1 @ (if ?fl then out2 @ out3 else []))"
    using h r f o by (cases ?fl; cases ?rf) (auto simp: loop_body_def Let_def k3_def)
  moreover have "tracer_at env (tr1\<lparr>tr_kern := if ?fl then k4 else k3\<rparr>) (spec_tracks env ?es T) (spec_kerns env ?es T K)"
    using k3 k4 by (intro kern_replace[OF ok1]) simp_all
  ultimately show ?thesis using agr by blast
qed

lemma main_loop_ok:
  assumes "tracer_at env tr T K" "agrees C T K" "\<forall>t\<in>set ts. turn_ok t"
  shows "\<exists>err tr' out T' K'. main_loop env cfg ts tr stamps = Some (err, tr', out) \<and> tracer_at env tr' T' K' \<and> agrees C T' K'"
  using assms
proof (induction ts arbitrary: tr T K stamps)
  case (Cons t ts)
  let ?k = "run_kernel env cfg (tn_calls t) (tr_kern tr)"
  have ok0: "tracer_at env (tr\<lparr>tr_kern := ?k\<rparr>) T K"
    using Cons.prems run_kernel_ok[of "tr_kern tr" "tn_calls t" env cfg]
    by (intro kern_replace) (auto simp: tracer_at_def turn_ok_def)
  have t: "turn_ok t" using Cons.prems(3) by simp
  obtain tr1 stamps1 out1 T1 K1 where b: "loop_body env t (tr\<lparr>tr_kern := ?k\<rparr>) stamps = Some (tr1, stamps1, out1)" "tracer_at env tr1 T1 K1" "agrees C T1 K1"
    using loop_body_ok[OF ok0 Cons.prems(2) t] by blast
  obtain err tr2 out2 T2 K2 where m: "main_loop env cfg ts tr1 stamps1 = Some (err, tr2, out2)" "tracer_at env tr2 T2 K2" "agrees C T2 K2"
    using Cons.IH[OF b(2,3)] Cons.prems(3) by (meson list.set_intros(2))
  show ?case
  proof (cases "tn_poll t < 0")
    case True
    then show ?thesis using ok0 Cons.prems(2) by (auto simp: Let_def)
  next
    case False
    then have "main_loop env cfg (t # ts) tr stamps = Some (err, tr2, out1 @ out2)"
      using b(1) m(1) by (simp add: Let_def EINTR_def)
    then show ?thesis using m(2,3) by blast
  qed
qed auto

lemma empty_bpf_ok: "kern_ok empty_bpf" "tracked_pids empty_bpf = Map.empty"
  by (simp_all add: kern_ok_def empty_bpf_def)

lemma init_tracks: "tracked_pids k = Map.empty \<Longrightarrow> tracks env (init_tracer env, k) {} {}"
  by (simp add: tracks_def init_tracer_def pid_tracker_init_ok pid_tracker_init_map)

lemma empty_opens_ok: "opens_ok \<lparr>file_hashes = [], pid_limits = []\<rparr>"
  by (simp add: opens_ok_def limits_ok_def)

lemma unflushed_zero: "unflushed m k = Some v \<Longrightarrow> av_count v = 0"
  by (auto simp: unflushed_def word_gt_0 split: if_splits)

text \<open>
  What the tracer leaves behind when it has reached the main loop; otherwise it has printed nothing. The
  tracker and the filter agree up to the seeds that were cut, so exactly when there are none.
\<close>

definition final_ok :: "options \<Rightarrow> tracer option \<Rightarrow> bytes \<Rightarrow> bool" where
  "final_ok env res out \<longleftrightarrow>
     (case res of None \<Rightarrow> out = []
      | Some tr \<Rightarrow> tracker_ok (tr_pids tr) \<and> opens_ok (tr_opens tr) \<and>
          agrees (cut_pids env) (dom (tracker_map (tr_pids tr))) (dom (tracked_pids (tr_kern tr))) \<and>
          (cut_pids env = {} \<longrightarrow> dom (tracker_map (tr_pids tr)) = dom (tracked_pids (tr_kern tr))) \<and>
          (\<forall>k v. event_agg_map (tr_kern tr) k = Some v \<longrightarrow> av_count v = 0))"

lemma run_loaded_ok:
  assumes w: "world_ok w0" "world_ok w1" and ts: "\<forall>t\<in>set turns. turn_ok t"
  shows "\<exists>status tr out. run_loaded lb w0 w1 env cid turns = Some (Returned status tr out) \<and> final_ok env tr out"
proof -
  let ?C = "cut_pids env"
  obtain rc k0 where k0: "(if opt_cgroup_filter_enabled env \<and> opt_cgroup_filter_children env
      then refresh_cgroups w0 env empty_bpf else Some (0, empty_bpf)) = Some (rc, k0)" "kern_ok k0" "tracked_pids k0 = Map.empty"
    using refresh_cgroups_ok[OF w(1) empty_bpf_ok(1), of env] empty_bpf_ok
    by (cases "opt_cgroup_filter_enabled env \<and> opt_cgroup_filter_children env") auto
  have "agrees ?C {} {}" by (simp add: agrees_def)
  then obtain n t1 k1 T1 K1 where s: "seed_initial_pids w0 env (init_tracer env, k0) = (n, t1, k1)" "kern_ok k1"
    "tracks env (t1, k1) T1 K1" "agrees ?C T1 K1"
    using seed_loop_ok[OF init_tracks[OF k0(3), of env] _ _ k0(2) w(1), of ?C "opt_seed_pids env" 0]
    unfolding seed_initial_pids_def cut_pids_def by blast
  let ?tr = "\<lparr>tr_pids = t1, tr_kern = k1, tr_opens = \<lparr>file_hashes = [], pid_limits = []\<rparr>\<rparr>"
  have "tracer_at env ?tr T1 K1" using s empty_opens_ok by (simp add: tracer_at_def)
  from main_loop_ok[OF this s(4) ts, of "rodata env cid" "(0, 0)"] obtain err tr out T K
    where m: "main_loop env (rodata env cid) turns ?tr (0, 0) = Some (err, tr, out)" "tracer_at env tr T K" "agrees ?C T K" by blast
  then have k: "kern_ok (tr_kern tr)" by (simp add: tracer_at_def)
  let ?k2 = "(tr_kern tr)\<lparr>event_agg_map := unflushed (event_agg_map (tr_kern tr))\<rparr>"
  obtain out2 where f: "flush_if_open w1 (tr_kern tr) = Some (?k2, out2)" using flush_if_open_ok(1)[OF w(2) k] by blast
  have at: "tracer_at env (tr\<lparr>tr_kern := ?k2\<rparr>) T K" using flush_if_open_ok(2)[OF w(2) k] by (intro kern_replace[OF m(2)]) simp_all
  have "T = K" if "?C = {}" using m(3) that agrees_equal by simp
  moreover have "\<forall>k v. event_agg_map ?k2 k = Some v \<longrightarrow> av_count v = 0" using unflushed_zero by simp
  ultimately have "final_ok env (Some (tr\<lparr>tr_kern := ?k2\<rparr>)) out'" for out'
    using at m(3) by (auto simp: final_ok_def tracer_at_def tracks_def)
  moreover have "final_ok env None []" by (simp add: final_ok_def)
  ultimately show ?thesis using k0(1) s(1) m(1) f by (auto simp: run_loaded_def)
qed

section \<open>Surroundings that satisfy the assumptions\<close>

definition sample_world :: world where
  "sample_world = \<lparr>w_getsid = (\<lambda>_. -1), w_procs = (\<lambda>_. (None, None)), w_links = (\<lambda>_ _. None), w_next = sorted_next key_code,
     w_room = (\<lambda>m. card (dom m) < MAX_TRACKED_PIDS), w_pagesize = 4096, w_fs = \<lparr>fs_stat = (\<lambda>_. None), fs_readdir = (\<lambda>_. Inl 2)\<rparr>,
     w_cg_next = sorted_next (\<lambda>k. k), w_cg_first = (\<lambda>m. case sorted_keys (\<lambda>k. k) m of [] \<Rightarrow> None | x # _ \<Rightarrow> Some x),
     w_cg_room = (\<lambda>_. True), w_num_cpus = 1, w_alloc_ok = True, w_overflow_lookup_ok = True, w_mono = None, w_real = None,
     w_wall_prefix = None, g_agg_map_ok = True, g_tracked_pids_ok = True, g_tracked_cgroups_ok = True, g_overflow_ok = True,
     g_exit_mem_ok = True\<rparr>"

lemma sample_world_ok: "world_ok sample_world"
  unfolding world_ok_def using agg_iter.map_iter_axioms cgroup_iter.map_iter_axioms by (auto simp: sample_world_def)

definition sample_exec :: "pid_t \<Rightarrow> pid_t \<Rightarrow> bytes \<Rightarrow> event" where
  "sample_exec pid ppid comm = \<lparr>e_type = EVENT_TYPE_PROCESS, e_pid = pid, e_ppid = ppid, e_exit_code = 0, e_duration_ns = 0,
     e_timestamp_ns = 0, e_comm = comm, e_full_command = [], e_payload = Filename [], e_exit_event = False\<rparr>"

definition sample_options :: options where
  "sample_options = default_options\<lparr>opt_filter_mode := FILTER_MODE_FILTER, opt_command_list := [''claude'']\<rparr>"

definition sample_tracer :: "options \<Rightarrow> tracer" where
  "sample_tracer env = \<lparr>tr_pids = init_tracer env, tr_kern = empty_bpf, tr_opens = \<lparr>file_hashes = [], pid_limits = []\<rparr>\<rparr>"

lemma sample_tracer_ok: "tracer_ok env (sample_tracer env) {}"
  by (simp add: tracer_ok_def tracer_at_def sample_tracer_def init_tracks empty_bpf_ok empty_opens_ok)

text \<open>A seed of \<open>2 ^ 31\<close> is accepted and cut to a negative PID: it is in the tracker and not in the kernel's filter.\<close>

lemma cut_seed_only_in_tracker:
  assumes "argp_parse [OPT_SEED_PID (dec_nat 2147483648 @ '':'' @ dec_nat 1)] default_options = Inr env"
    and "seed_initial_pids sample_world env (init_tracer env, empty_bpf) = (n, t, k)"
  shows "dom (tracker_map t) = {2147483648}" "tracked_pids k = Map.empty"
proof -
  have "opt_seed_pids env = [\<lparr>sp_pid = 2147483648, sp_ppid = 1\<rparr>]"
    using assms(1) parse_seed_pid_roundtrip[of 2147483648 1] by (auto simp: default_options_def MAX_SEED_PIDS_def split: if_splits)
  moreover have "sint (2147483648 :: pid_t) \<le> 0" by simp
  moreover obtain ok t1 where add: "pid_tracker_add (init_tracer env) 2147483648 1 = (ok, t1)" by fastforce
  moreover note init = init_tracks[of empty_bpf env]
  moreover have "dom (tracker_map t1) = {2147483648}"
    using tracker_insert[OF init, of 2147483648 1] add by (simp add: empty_bpf_def tracks_def bounded_insert_def MAX_TRACKED_PIDS_def)
  ultimately show "dom (tracker_map t) = {2147483648}" "tracked_pids k = Map.empty"
    using assms(2) by (auto simp: seed_initial_pids_def add_tracked_pid_to_bpf_def empty_bpf_def Let_def split: if_splits)
qed

text \<open>
  The memory high-water mark the kernel stores for an exiting process is only taken out when the exit
  is reported: in filter mode the entry of an untracked process stays in \<open>exit_mem\<close>.
\<close>

lemma untracked_exit_keeps_exit_mem:
  "filter_mode (tr_pids tr) = FILTER_MODE_FILTER \<Longrightarrow> \<not> pid_tracker_is_tracked (tr_pids tr) (e_pid e) \<Longrightarrow>
     \<exists>tr'. handle_exit_event w e tr = Some (tr', []) \<and> exit_mem (tr_kern tr') = exit_mem (tr_kern tr)"
  using pid_tracker_remove_config[of "tr_pids tr" "e_pid e"]
  by (simp add: handle_exit_event_def remove_tracked_pid_from_bpf_def tracker_config_def Let_def)

section \<open>Properties\<close>

text \<open>
  C1: The event handler implements the specification of tracking on sets of processes, in userspace and
  in the kernel at once: after any sequence of events both the PID tracker and the kernel's filter
  map hold exactly the processes the specification tracks (selected at exec by session, PID, parent or
  command, forgotten at exit, at most 4096), every call returns and all table invariants hold.
\<close>

theorem handle_events_track_spec:
  assumes "tracer_ok env tr S" "\<forall>(w, e)\<in>set es. world_ok w \<and> 0 < sint (e_pid e)"
  shows "\<exists>tr' out. handle_events env es tr = Some (tr', out) \<and>
    dom (tracker_map (tr_pids tr')) = spec_tracks env es S \<and> dom (tracked_pids (tr_kern tr')) = spec_tracks env es S \<and>
    tracer_ok env tr' (spec_tracks env es S)"
  using handle_events_ok[OF assms] by (auto simp: tracer_ok_def tracer_at_def tracks_def)

theorem handle_events_track_spec_witness:
  "\<exists>tr' out. handle_events sample_options [(sample_world, sample_exec 7 1 ''claude''), (sample_world, sample_exec 8 7 ''sh''),
      (sample_world, sample_exec 9 1 ''sh'')] (sample_tracer sample_options) = Some (tr', out) \<and>
    dom (tracked_pids (tr_kern tr')) = {7, 8}"
proof -
  let ?es = "[(sample_world, sample_exec 7 1 ''claude''), (sample_world, sample_exec 8 7 ''sh''), (sample_world, sample_exec 9 1 ''sh'')]"
  have "\<forall>(w, e)\<in>set ?es. world_ok w \<and> 0 < sint (e_pid e)" by (simp add: sample_world_ok sample_exec_def)
  moreover have "spec_tracks sample_options ?es {} = {7, 8}"
    by (auto simp: spec_track_def selected_def sample_exec_def sample_options_def default_options_def bounded_insert_def MAX_TRACKED_PIDS_def)
  ultimately show ?thesis
    using handle_events_track_spec[OF sample_tracer_ok, of ?es sample_options] by auto
qed

text \<open>
  C3: In filter mode an event of a process that is not tracked prints nothing and changes neither the
  tracked set nor the file open tables, unless it is an exec that selects the process. (An event of a
  type that no program emits would be printed in every mode.)
\<close>

theorem filter_mode_silent:
  assumes "tracer_ok env tr S" "world_ok w" "0 < sint (e_pid e)" "opt_filter_mode env = FILTER_MODE_FILTER"
    and "e_pid e \<notin> S" "\<not> (e_type e = EVENT_TYPE_PROCESS \<and> \<not> e_exit_event e \<and> selected w env S e)"
    and "\<forall>n. e_type e \<noteq> EVENT_TYPE_OTHER n"
  shows "\<exists>tr'. handle_event w env e tr = Some (tr', []) \<and> tr_opens tr' = tr_opens tr \<and> tracer_ok env tr' S"
proof -
  have at: "tracer_at env tr S S" and f: "tracks env (tr_pids tr, tr_kern tr) S S" using assms(1) by (simp_all add: tracer_ok_def tracer_at_def)
  have untracked: "\<not> pid_tracker_is_tracked (tr_pids tr) (e_pid e)" using is_tracked_tracks[OF f] assms(5) by simp
  have mode: "filter_mode (tr_pids tr) = FILTER_MODE_FILTER" using f config_init[of "tr_pids tr" env] assms(4) by (simp add: tracks_def)
  show ?thesis
  proof (cases "e_type e")
    case EVENT_TYPE_PROCESS
    then show ?thesis
      using assms handle_exit_event_cases[OF at assms(2,3)] handle_exec_event_cases[OF at assms(2,3)]
      by (cases "e_exit_event e") (auto simp: handle_event_def tracer_ok_def)
  next
    case EVENT_TYPE_BASH_READLINE
    then show ?thesis using assms(1) mode untracked by (simp add: handle_event_def should_report_bash_readline_def)
  next
    case EVENT_TYPE_FILE_OPERATION
    then show ?thesis using assms(1) mode untracked by (simp add: handle_event_def handle_file_event_def should_report_file_ops_def)
  qed (use assms(7) in blast)
qed

theorem filter_mode_silent_witness:
  "\<exists>tr'. handle_event sample_world sample_options (sample_exec 9 1 ''sh'') (sample_tracer sample_options) = Some (tr', [])"
proof -
  have "0 < sint (e_pid (sample_exec 9 1 ''sh''))" "opt_filter_mode sample_options = FILTER_MODE_FILTER"
    "e_pid (sample_exec 9 1 ''sh'') \<notin> {}" "\<forall>n. e_type (sample_exec 9 1 ''sh'') \<noteq> EVENT_TYPE_OTHER n"
    by (simp_all add: sample_exec_def sample_options_def)
  moreover have "\<not> selected sample_world sample_options {} (sample_exec 9 1 ''sh'')"
    by (simp add: selected_def sample_exec_def sample_options_def default_options_def)
  ultimately show ?thesis
    using filter_mode_silent[OF sample_tracer_ok sample_world_ok, of "sample_exec 9 1 ''sh''" sample_options] by blast
qed

text \<open>
  C2: The tracer ends for every accepted command line and every finite run of its main loop, whatever
  programs run in the kernel in between and whatever the polls return, as long as its maps stay open. When
  it gets as far as the loop, it leaves its tables within bounds and no aggregated event unreported, and
  the tracker and the kernel's filter agree: exactly, when no seed was cut to a PID that is not positive;
  otherwise the cut seeds are only in the tracker, the filter holds every other process of the tracker,
  and at most as many further ones as there are cut seeds in the tracker.
\<close>

theorem main_returns_synchronised:
  assumes "argp_parse argv default_options = Inr env"
    and "world_ok w0" "world_ok w1" "\<forall>t\<in>set turns. turn_ok t"
  shows "\<exists>status tr out. main lb w0 w1 argv turns = Some (Returned status tr out) \<and> final_ok env tr out"
proof -
  have "\<exists>status tr out. run_loaded lb w0 w1 env cid turns = Some (Returned status tr out) \<and> final_ok env tr out" for cid
    using run_loaded_ok[OF assms(2-4), of lb env cid] by blast
  then show ?thesis using assms(1) by (auto simp: main_def final_ok_def split: option.split)
qed

theorem main_returns_synchronised_witness:
  "\<exists>status tr out. main \<lparr>lb_open = True, lb_load = 0, lb_attach = 0, lb_ring = True\<rparr> sample_world sample_world [OPT_TRACE_FS]
     [\<lparr>tn_calls = [(B_exec sample_task, sample_env, Some (sample_exec 7 1 ''sh''))], tn_poll = 1, tn_worlds = (\<lambda>_. sample_world),
       tn_after = sample_world, tn_now = 9\<rparr>] = Some (Returned status tr out) \<and>
     (\<forall>t. tr = Some t \<longrightarrow> dom (tracker_map (tr_pids t)) = dom (tracked_pids (tr_kern t)))"
proof -
  let ?t = "\<lparr>tn_calls = [(B_exec sample_task, sample_env, Some (sample_exec 7 1 ''sh''))], tn_poll = 1, tn_worlds = (\<lambda>_. sample_world),
       tn_after = sample_world, tn_now = 9\<rparr>"
  let ?env = "default_options\<lparr>opt_trace_fs := True\<rparr>"
  have "argp_parse [OPT_TRACE_FS] default_options = Inr ?env" by simp
  moreover have "0 < sint (cur_tgid sample_env)" by code_simp
  then have "\<forall>t\<in>set [?t]. turn_ok t" by (simp add: turn_ok_def sample_world_ok)
  moreover have "cut_pids ?env = {}" by (simp add: cut_pids_def default_options_def)
  ultimately show ?thesis
    using main_returns_synchronised[OF _ sample_world_ok sample_world_ok, of "[OPT_TRACE_FS]" ?env "[?t]"
        "\<lparr>lb_open = True, lb_load = 0, lb_attach = 0, lb_ring = True\<rparr>"]
    by (fastforce simp: final_ok_def)
qed

text \<open>
  Setting the tracer up fails cleanly: when the BPF object cannot be loaded or attached, or the ring
  buffer cannot be created, then no event is handled, nothing is printed and the exit status is the
  error number.
\<close>

theorem main_set_up_errors:
  assumes "argp_parse argv default_options = Inr env" "opt_cgroup_filter_children env \<longrightarrow> opt_cgroup_filter_enabled env"
    and "lb_open lb" "opt_cgroup_filter_enabled env \<longrightarrow>
      resolve_cgroup_id_from_path (w_fs w0) (Some (opt_cgroup_filter_path env)) \<noteq> None \<and> \<not> opt_cgroup_filter_children env"
  shows "(lb_load lb < 0 \<longrightarrow> main lb w0 w1 argv turns = Some (Returned (- lb_load lb) None [])) \<and>
    (lb_load lb = 0 \<and> lb_attach lb < 0 \<longrightarrow> main lb w0 w1 argv turns = Some (Returned (- lb_attach lb) None [])) \<and>
    (lb_load lb = 0 \<and> lb_attach lb = 0 \<and> \<not> lb_ring lb \<longrightarrow> main lb w0 w1 argv turns = Some (Returned 1 None []))"
  using assms by (auto simp: main_def run_loaded_def exit_status_def split: prod.split)

theorem main_set_up_errors_witness:
  "main \<lparr>lb_open = True, lb_load = -13, lb_attach = 0, lb_ring = True\<rparr> sample_world sample_world [OPT_TRACE_FS] [] =
     Some (Returned 13 None [])"
  using main_set_up_errors[of "[OPT_TRACE_FS]" "default_options\<lparr>opt_trace_fs := True\<rparr>"
      "\<lparr>lb_open = True, lb_load = -13, lb_attach = 0, lb_ring = True\<rparr>"]
  by (simp add: default_options_def)

end
