(* ===== verification/Paired_Calls.thy ===== *)
theory Paired_Calls
  imports Prelude
begin

text \<open>
  Probes on the entry and the return of one function, paired by thread. The entry probe stores what
  the return probe needs, the return probe takes it out and emits an event, and between the two the
  same programs run for other threads. \<open>paired_calls\<close> states what the probes must satisfy for the
  pairing to work; each tracer interprets it on its own programs.
\<close>

locale paired_calls =
  fixes step :: "'p \<Rightarrow> 's \<Rightarrow> 's"
    and thread :: "'p \<Rightarrow> 'k"
    and pending :: "'s \<Rightarrow> 'k \<Rightarrow> 'a option"
  assumes other_thread: "thread p \<noteq> k \<Longrightarrow> pending (step p s) k = pending s k"
begin

lemma other_threads: "\<forall>p\<in>set ps. thread p \<noteq> k \<Longrightarrow> pending (fold step ps s) k = pending s k"
  by (induction ps arbitrary: s) (simp_all add: other_thread)

end

text \<open>\<open>enters\<close>: what the entry probe stores in the given state; \<open>leaves\<close>: the event the return probe emits for it.\<close>

locale emitting_calls = paired_calls step thread pending
  for step :: "'p \<Rightarrow> 's \<Rightarrow> 's" and thread :: "'p \<Rightarrow> 'k" and pending :: "'s \<Rightarrow> 'k \<Rightarrow> 'a option" +
  fixes emitted :: "'s \<Rightarrow> 'e list"
    and enters :: "'p \<Rightarrow> 's \<Rightarrow> 'a option"
    and leaves :: "'p \<Rightarrow> 'a \<Rightarrow> 'e option"
  assumes enters_pending: "enters p s = Some a \<Longrightarrow> pending (step p s) (thread p) = Some a"
    and leaves_emits: "pending s (thread q) = Some a \<Longrightarrow> leaves q a = Some e \<Longrightarrow>
      emitted (step q s) = emitted s @ [e] \<and> pending (step q s) (thread q) = None"
begin

lemma pair_emits:
  assumes "enters p s = Some a" "thread q = thread p" "\<forall>r\<in>set rs. thread r \<noteq> thread p" "leaves q a = Some e"
  shows "emitted (step q (fold step rs (step p s))) = emitted (fold step rs (step p s)) @ [e] \<and>
    pending (step q (fold step rs (step p s))) (thread p) = None"
proof -
  have "pending (fold step rs (step p s)) (thread q) = Some a"
    using other_threads[OF assms(3)] enters_pending[OF assms(1)] assms(2) by simp
  from leaves_emits[OF this assms(4)] show ?thesis using assms(2) by simp
qed

end

end
