(* ===== verification/Ssl_Bpf.thy ===== *)
theory Ssl_Bpf
  imports Bpf_Runtime Paired_Calls
begin

text \<open>
  The kernel side of the TLS tracer (\<open>bpf/sslsniff.bpf.c\<close> with \<open>bpf/sslsniff.h\<close>): uprobes on the
  read, write and handshake functions of the TLS libraries and on the plaintext functions of rustls.
  \<open>ssl_env\<close> extends the environment of a program with the return register, with whether each hash
  map has room, and with the event that \<open>bpf_ringbuf_reserve\<close> hands out (\<open>None\<close> when the ring
  buffer is full), whose buffer keeps its old contents where nothing is written. A read of user
  memory that fails leaves zeros, as the helper documents.
\<close>

unbundle bit_operations_syntax

section \<open>The code: data\<close>

definition SSL_MAX_BUF_SIZE :: nat where
  "SSL_MAX_BUF_SIZE = 256 * 1024"

definition MAX_RUSTLS_IOVECS :: nat where
  "MAX_RUSTLS_IOVECS = 2"

definition MAX_GROK_IOVECS :: nat where
  "MAX_GROK_IOVECS = 8"

definition GROK_MAX_CAPTURE_SIZE :: nat where
  "GROK_MAX_CAPTURE_SIZE = 64 * 1024"

definition RUSTLS_COPY_CHUNK_SIZE :: nat where
  "RUSTLS_COPY_CHUNK_SIZE = 16 * 1024"

definition MAX_RUSTLS_CHUNKS_PER_IOV :: nat where
  "MAX_RUSTLS_CHUNKS_PER_IOV = 8"

record probe_SSL_data_t =
  sd_timestamp_ns :: u64
  sd_delta_ns :: u64
  sd_pid :: u32
  sd_tid :: u32
  sd_uid :: u32
  sd_len :: u32
  sd_buf_size :: u32
  sd_buf_filled :: bool
  sd_rw :: int
  sd_comm :: bytes
  sd_buf :: bytes
  sd_is_handshake :: bool

record ssl_state =
  readbytes_ptrs :: "u32 \<rightharpoonup> u64"
  start_ns :: "u32 \<rightharpoonup> u64"
  bufs :: "u32 \<rightharpoonup> u64"
  ssl_rb :: "probe_SSL_data_t list"

record ssl_config =
  targ_pid :: u32
  targ_uid :: u32

record ssl_env = bpf_env +
  rc :: u64
  room_bufs :: bool
  room_start :: bool
  room_ptrs :: bool
  slot :: "probe_SSL_data_t option"

definition cur_uid :: "'a bpf_env_scheme \<Rightarrow> u32" where
  "cur_uid env = ucast (uid_gid env)"

definition le64 :: "bytes \<Rightarrow> nat \<Rightarrow> u64" where
  "le64 b off = foldr (\<lambda>i acc. acc * 256 + of_nat (ord (b ! (off + i)))) [0..<8] 0"

definition ssl_submit :: "probe_SSL_data_t \<Rightarrow> ssl_state \<Rightarrow> ssl_state" where
  "ssl_submit d st = st\<lparr>ssl_rb := ssl_rb st @ [d]\<rparr>"

section \<open>The code: filters and rustls\<close>

definition trace_allowed :: "ssl_config \<Rightarrow> u32 \<Rightarrow> u32 \<Rightarrow> bool" where
  "trace_allowed cfg uid pid =
     (if targ_pid cfg \<noteq> 0 \<and> targ_pid cfg \<noteq> pid then False
      else if targ_uid cfg \<noteq> -1 then (if targ_uid cfg \<noteq> uid then False else True)
      else True)"

definition submit_rustls_write ::
  "ssl_env \<Rightarrow> probe_SSL_data_t \<Rightarrow> u32 \<Rightarrow> u32 \<Rightarrow> u32 \<Rightarrow> u64 \<Rightarrow> u32 \<Rightarrow> ssl_state \<Rightarrow> ssl_state" where
  "submit_rustls_write env data pid tid uid total_len copied st =
     ssl_submit (data\<lparr>sd_timestamp_ns := ktime env, sd_delta_ns := 0, sd_pid := pid, sd_tid := tid, sd_uid := uid,
       sd_len := (if 0xFFFFFFFF < total_len then 0xFFFFFFFF else ucast total_len), sd_buf_size := copied,
       sd_buf_filled := (0 < copied), sd_rw := 1, sd_is_handshake := False, sd_comm := cur_comm env\<rparr>) st"

text \<open>The result is the new count and the buffer; an iovec is its base address and length.\<close>

definition copy_rustls_iovec :: "ssl_env \<Rightarrow> bytes \<Rightarrow> u64 \<times> u64 \<Rightarrow> u32 \<Rightarrow> u32 \<times> bytes" where
  "copy_rustls_iovec env buf iovec copied =
     (if snd iovec = 0 \<or> of_nat GROK_MAX_CAPTURE_SIZE \<le> copied then (copied, buf)
      else
        let capacity = of_nat GROK_MAX_CAPTURE_SIZE - copied;
            destination = copied AND (of_nat GROK_MAX_CAPTURE_SIZE - 1);
            copy_size0 = (if of_nat GROK_MAX_CAPTURE_SIZE < snd iovec then of_nat GROK_MAX_CAPTURE_SIZE else snd iovec);
            copy_size1 = (if ucast capacity < copy_size0 then ucast capacity else copy_size0);
            copy_size = (if of_nat GROK_MAX_CAPTURE_SIZE < copy_size1 then of_nat GROK_MAX_CAPTURE_SIZE else copy_size1)
        in if copy_size = 0 then (copied, buf)
           else (case read_into env buf (unat destination) (unat copy_size) (fst iovec) of (ok, buf') \<Rightarrow>
                   if \<not> ok then (copied, buf') else (copied + ucast copy_size, buf')))"

definition probe_rustls_write :: "ssl_config \<Rightarrow> ssl_env \<Rightarrow> u64 \<Rightarrow> u64 \<Rightarrow> ssl_state \<Rightarrow> ssl_state" where
  "probe_rustls_write cfg env buf len st =
     (let pid = cur_tgid env; tid = cur_tid env; uid = cur_uid env;
          copied = (if of_nat SSL_MAX_BUF_SIZE < len then of_nat SSL_MAX_BUF_SIZE else ucast len) :: u32
      in if \<not> trace_allowed cfg uid pid \<or> buf = 0 \<or> len = 0 then st
         else (case slot env of
             None \<Rightarrow> st
           | Some data \<Rightarrow>
               (case read_into env (sd_buf data) 0 (unat copied) buf of (ok, b) \<Rightarrow>
                  if \<not> ok then st
                  else submit_rustls_write env (data\<lparr>sd_buf := b\<rparr>) pid tid uid len copied st)))"

definition read_iovec :: "ssl_env \<Rightarrow> u64 \<Rightarrow> (u64 \<times> u64) option" where
  "read_iovec env addr = map_option (\<lambda>b. (le64 b 0, le64 b 8)) (user_mem env addr 16)"

text \<open>The chunk loop for one iovec: source address, remaining length, count and buffer.\<close>

fun chunk_loop :: "ssl_env \<Rightarrow> nat list \<Rightarrow> u64 \<Rightarrow> u64 \<Rightarrow> u32 \<times> bytes \<Rightarrow> u32 \<times> bytes" where
  "chunk_loop env [] source remaining (copied, buf) = (copied, buf)"
| "chunk_loop env (_ # cs) source remaining (copied, buf) =
     (if remaining = 0 \<or> of_nat (SSL_MAX_BUF_SIZE - RUSTLS_COPY_CHUNK_SIZE) < copied then (copied, buf)
      else
        let copy_size = (if of_nat RUSTLS_COPY_CHUNK_SIZE < remaining then of_nat RUSTLS_COPY_CHUNK_SIZE else remaining)
        in (case read_into env buf (unat copied) (unat copy_size) source of (ok, buf') \<Rightarrow>
              if \<not> ok then (copied, buf')
              else chunk_loop env cs (source + copy_size) (remaining - copy_size) (copied + ucast copy_size, buf')))"

fun iovec_loop :: "ssl_env \<Rightarrow> u64 \<Rightarrow> u64 \<Rightarrow> nat list \<Rightarrow> u64 \<Rightarrow> u32 \<times> bytes \<Rightarrow> u64 \<times> u32 \<times> bytes" where
  "iovec_loop env iovecs iovcnt [] total_len cb = (total_len, cb)"
| "iovec_loop env iovecs iovcnt (i # is) total_len cb =
     (if iovcnt \<le> of_nat i then (total_len, cb)
      else (case read_iovec env (iovecs + 16 * of_nat i) of
          None \<Rightarrow> (total_len, cb)
        | Some (base, len) \<Rightarrow>
            iovec_loop env iovecs iovcnt is (total_len + len)
              (chunk_loop env [0..<MAX_RUSTLS_CHUNKS_PER_IOV] base len cb)))"

definition probe_rustls_write_vectored :: "ssl_config \<Rightarrow> ssl_env \<Rightarrow> u64 \<Rightarrow> u64 \<Rightarrow> ssl_state \<Rightarrow> ssl_state" where
  "probe_rustls_write_vectored cfg env iovecs iovcnt st =
     (let pid = cur_tgid env; tid = cur_tid env; uid = cur_uid env in
      if \<not> trace_allowed cfg uid pid \<or> iovecs = 0 \<or> iovcnt = 0 then st
      else (case slot env of
          None \<Rightarrow> st
        | Some data \<Rightarrow>
            (case iovec_loop env iovecs iovcnt [0..<MAX_RUSTLS_IOVECS] 0 (0, sd_buf data) of (total_len, copied, buf) \<Rightarrow>
               submit_rustls_write env (data\<lparr>sd_buf := buf\<rparr>) pid tid uid
                 (if of_nat MAX_RUSTLS_IOVECS < iovcnt \<and> total_len \<le> ucast copied then ucast copied + 1 else total_len) copied st)))"

text \<open>The loop over the chunks of an \<open>OutboundChunks\<close>; a layout that does not add up gives a count of 0.\<close>

fun outbound_loop :: "ssl_env \<Rightarrow> u64 \<Rightarrow> u64 \<Rightarrow> u64 \<Rightarrow> nat list \<Rightarrow> u64 \<Rightarrow> u32 \<times> bytes \<Rightarrow> u32 \<times> bytes" where
  "outbound_loop env data cnt total_len [] inspected_total cb = cb"
| "outbound_loop env data cnt total_len (i # is) inspected_total cb =
     (if cnt \<le> of_nat i then cb
      else (case read_iovec env (data + 16 * of_nat i) of
          None \<Rightarrow> cb
        | Some iovec \<Rightarrow>
            if total_len < inspected_total \<or> total_len - inspected_total < snd iovec then (0, snd cb)
            else outbound_loop env data cnt total_len is (inspected_total + snd iovec)
                   (copy_rustls_iovec env (snd cb) iovec (fst cb))))"

definition probe_rustls_buffer_plaintext :: "ssl_config \<Rightarrow> ssl_env \<Rightarrow> u64 \<Rightarrow> ssl_state \<Rightarrow> ssl_state" where
  "probe_rustls_buffer_plaintext cfg env chunks st =
     (let pid = cur_tgid env; tid = cur_tid env; uid = cur_uid env in
      if \<not> trace_allowed cfg uid pid \<or> chunks = 0 then st
      else (case user_mem env chunks 32 of
          None \<Rightarrow> st
        | Some ob \<Rightarrow>
            let ob_count = le64 ob 0; ob_data = le64 ob 8; start_or_len = le64 ob 16; ob_end = le64 ob 24 in
            if ob_count = 0 then
              (let total_len = start_or_len in
               if ob_data = 0 \<or> total_len = 0 then st
               else
                 let copied = (if of_nat GROK_MAX_CAPTURE_SIZE < total_len then of_nat GROK_MAX_CAPTURE_SIZE else ucast total_len) :: u32
                 in (case slot env of
                       None \<Rightarrow> st
                     | Some data \<Rightarrow>
                         (case read_into env (sd_buf data) 0 (unat copied) ob_data of (ok, b) \<Rightarrow>
                            if \<not> ok then st
                            else submit_rustls_write env (data\<lparr>sd_buf := b\<rparr>) pid tid uid total_len copied st)))
            else if ob_data = 0 \<or> start_or_len \<noteq> 0 \<or> ob_end = 0 then st
            else (case slot env of
                None \<Rightarrow> st
              | Some data \<Rightarrow>
                  (case outbound_loop env ob_data ob_count ob_end [0..<MAX_GROK_IOVECS] 0 (0, sd_buf data) of (copied, buf) \<Rightarrow>
                     if copied = 0 then st
                     else submit_rustls_write env (data\<lparr>sd_buf := buf\<rparr>) pid tid uid ob_end copied st))))"

section \<open>The code: TLS libraries\<close>

definition probe_SSL_rw_enter :: "ssl_config \<Rightarrow> ssl_env \<Rightarrow> u64 \<Rightarrow> ssl_state \<Rightarrow> ssl_state" where
  "probe_SSL_rw_enter cfg env buf st =
     (let pid = cur_tgid env; tid = cur_tid env; uid = cur_uid env; ts = ktime env in
      if \<not> trace_allowed cfg uid pid then st
      else st\<lparr>bufs := snd (map_update (room_bufs env) (bufs st) tid buf BPF_ANY),
              start_ns := snd (map_update (room_start env) (start_ns st) tid ts BPF_ANY)\<rparr>)"

text \<open>The fields of an event before the buffer is read.\<close>

definition rw_event :: "ssl_env \<Rightarrow> u64 \<Rightarrow> i32 \<Rightarrow> int \<Rightarrow> probe_SSL_data_t \<Rightarrow> probe_SSL_data_t" where
  "rw_event env start len rw data =
     data\<lparr>sd_timestamp_ns := ktime env, sd_delta_ns := ktime env - start, sd_pid := cur_tgid env, sd_tid := cur_tid env,
       sd_uid := cur_uid env, sd_len := len, sd_buf_filled := False, sd_buf_size := 0, sd_rw := rw,
       sd_is_handshake := False, sd_comm := cur_comm env\<rparr>"

text \<open>The event after the traced buffer has been read into it.\<close>

definition read_payload :: "ssl_env \<Rightarrow> u64 \<Rightarrow> u32 \<Rightarrow> probe_SSL_data_t \<Rightarrow> probe_SSL_data_t" where
  "read_payload env bufp buf_copy_size data =
     (case read_into env (sd_buf data) 0 (unat buf_copy_size) bufp of (ok, b) \<Rightarrow>
        if ok then data\<lparr>sd_buf := b, sd_buf_filled := True, sd_buf_size := buf_copy_size\<rparr>
        else data\<lparr>sd_buf := b, sd_buf_filled := False, sd_buf_size := 0\<rparr>)"

text \<open>Reading the buffer, dropping the stored arguments and submitting: the common end of both exit handlers.\<close>

definition finish_rw :: "ssl_env \<Rightarrow> probe_SSL_data_t \<Rightarrow> u64 \<Rightarrow> u32 \<Rightarrow> ssl_state \<Rightarrow> ssl_state" where
  "finish_rw env data bufp buf_copy_size st =
     (let tid = cur_tid env;
          st1 = st\<lparr>bufs := map_delete (bufs st) tid, start_ns := map_delete (start_ns st) tid\<rparr>
      in ssl_submit (read_payload env bufp buf_copy_size data) st1)"

definition SSL_exit :: "ssl_config \<Rightarrow> ssl_env \<Rightarrow> int \<Rightarrow> ssl_state \<Rightarrow> ssl_state" where
  "SSL_exit cfg env rw st =
     (let pid = cur_tgid env; tid = cur_tid env; uid = cur_uid env in
      if \<not> trace_allowed cfg uid pid then st
      else (case bufs st tid of
          None \<Rightarrow> st
        | Some bufp \<Rightarrow>
            (case start_ns st tid of
               None \<Rightarrow> st
             | Some tsp \<Rightarrow>
                 let len = ucast (rc env) :: i32 in
                 if sint len \<le> 0 then st
                 else (case slot env of
                     None \<Rightarrow> st
                   | Some data \<Rightarrow>
                       finish_rw env (rw_event env tsp len rw data) bufp
                         (if of_nat SSL_MAX_BUF_SIZE < len then of_nat SSL_MAX_BUF_SIZE else len) st))))"

definition probe_SSL_read_exit :: "ssl_config \<Rightarrow> ssl_env \<Rightarrow> ssl_state \<Rightarrow> ssl_state" where
  "probe_SSL_read_exit cfg env st = SSL_exit cfg env 0 st"

definition probe_SSL_write_exit :: "ssl_config \<Rightarrow> ssl_env \<Rightarrow> ssl_state \<Rightarrow> ssl_state" where
  "probe_SSL_write_exit cfg env st = SSL_exit cfg env 1 st"

definition probe_SSL_write_ex_enter :: "ssl_config \<Rightarrow> ssl_env \<Rightarrow> u64 \<Rightarrow> u64 \<Rightarrow> ssl_state \<Rightarrow> ssl_state" where
  "probe_SSL_write_ex_enter cfg env buf readbytes st =
     (let pid = cur_tgid env; tid = cur_tid env; uid = cur_uid env; ts = ktime env in
      if \<not> trace_allowed cfg uid pid then st
      else st\<lparr>bufs := snd (map_update (room_bufs env) (bufs st) tid buf BPF_ANY),
              start_ns := snd (map_update (room_start env) (start_ns st) tid ts BPF_ANY),
              readbytes_ptrs := snd (map_update (room_ptrs env) (readbytes_ptrs st) tid readbytes BPF_ANY)\<rparr>)"

definition probe_SSL_read_ex_enter :: "ssl_config \<Rightarrow> ssl_env \<Rightarrow> u64 \<Rightarrow> u64 \<Rightarrow> ssl_state \<Rightarrow> ssl_state" where
  "probe_SSL_read_ex_enter cfg env buf readbytes st =
     (let pid = cur_tgid env; tid = cur_tid env; uid = cur_uid env; ts = ktime env in
      if \<not> trace_allowed cfg uid pid then st
      else st\<lparr>bufs := snd (map_update (room_bufs env) (bufs st) tid buf BPF_ANY),
              start_ns := snd (map_update (room_start env) (start_ns st) tid ts BPF_ANY),
              readbytes_ptrs := snd (map_update (room_ptrs env) (readbytes_ptrs st) tid readbytes BPF_ANY)\<rparr>)"

definition ex_SSL_exit :: "ssl_config \<Rightarrow> ssl_env \<Rightarrow> int \<Rightarrow> i32 \<Rightarrow> ssl_state \<Rightarrow> ssl_state" where
  "ex_SSL_exit cfg env rw len st =
     (let pid = cur_tgid env; tid = cur_tid env; uid = cur_uid env in
      if \<not> trace_allowed cfg uid pid then st
      else (case bufs st tid of
          None \<Rightarrow> st
        | Some bufp \<Rightarrow>
            (case start_ns st tid of
               None \<Rightarrow> st
             | Some tsp \<Rightarrow>
                 if sint len \<le> 0 then st
                 else (case slot env of
                     None \<Rightarrow> st
                   | Some data \<Rightarrow>
                       let buf_copy_size = len AND 0xFFFFF in
                       finish_rw env (rw_event env tsp len rw data) bufp
                         (if of_nat SSL_MAX_BUF_SIZE < buf_copy_size then of_nat SSL_MAX_BUF_SIZE else buf_copy_size) st))))"

text \<open>What both \<open>_ex\<close> return probes do before \<open>ex_SSL_exit\<close>: the length, \<open>None\<close> for an early return.\<close>

definition ex_length :: "ssl_env \<Rightarrow> ssl_state \<Rightarrow> (i32 \<times> ssl_state) option" where
  "ex_length env st =
     (let tid = cur_tid env in
      case readbytes_ptrs st tid of
        None \<Rightarrow> None
      | Some ptr \<Rightarrow>
          let written = (case user_mem env ptr 8 of Some b \<Rightarrow> le64 b 0 | None \<Rightarrow> 0);
              st1 = st\<lparr>readbytes_ptrs := map_delete (readbytes_ptrs st) tid\<rparr>;
              ret = ucast (rc env) :: i32
          in Some (if ret = 1 then ucast written else 0, st1))"

definition probe_SSL_write_ex_exit :: "ssl_config \<Rightarrow> ssl_env \<Rightarrow> ssl_state \<Rightarrow> ssl_state" where
  "probe_SSL_write_ex_exit cfg env st =
     (case ex_length env st of None \<Rightarrow> st | Some (len, st1) \<Rightarrow> ex_SSL_exit cfg env 1 len st1)"

definition probe_SSL_read_ex_exit :: "ssl_config \<Rightarrow> ssl_env \<Rightarrow> ssl_state \<Rightarrow> ssl_state" where
  "probe_SSL_read_ex_exit cfg env st =
     (case ex_length env st of None \<Rightarrow> st | Some (len, st1) \<Rightarrow> ex_SSL_exit cfg env 0 len st1)"

definition probe_SSL_do_handshake_enter :: "ssl_config \<Rightarrow> ssl_env \<Rightarrow> ssl_state \<Rightarrow> ssl_state" where
  "probe_SSL_do_handshake_enter cfg env st =
     (let pid = cur_tgid env; tid = cur_tid env; uid = cur_uid env; ts = ktime env in
      if \<not> trace_allowed cfg uid pid then st
      else st\<lparr>start_ns := snd (map_update (room_start env) (start_ns st) tid ts BPF_ANY)\<rparr>)"

definition probe_SSL_do_handshake_exit :: "ssl_config \<Rightarrow> ssl_env \<Rightarrow> ssl_state \<Rightarrow> ssl_state" where
  "probe_SSL_do_handshake_exit cfg env st =
     (let pid = cur_tgid env; tid = cur_tid env; uid = cur_uid env; ts = ktime env; tgid = cur_tgid env in
      if \<not> trace_allowed cfg tgid pid then st
      else (case start_ns st tid of
          None \<Rightarrow> st
        | Some tsp \<Rightarrow>
            let ret = ucast (rc env) :: i32 in
            if sint ret \<le> 0 then st
            else (case slot env of
                None \<Rightarrow> st
              | Some data \<Rightarrow>
                  ssl_submit (data\<lparr>sd_timestamp_ns := ts, sd_delta_ns := ts - tsp, sd_pid := pid, sd_tid := tid, sd_uid := uid,
                    sd_len := ret, sd_buf_filled := False, sd_buf_size := 0, sd_rw := 2, sd_is_handshake := True,
                    sd_comm := cur_comm env\<rparr>) (st\<lparr>start_ns := map_delete (start_ns st) tid\<rparr>))))"

section \<open>Runs of the program\<close>

datatype ssl_prog =
    S_rustls_write u64 u64 | S_rustls_writev u64 u64 | S_rustls_plaintext u64
  | S_rw_enter u64 | S_read_exit | S_write_exit | S_write_ex_enter u64 u64 | S_read_ex_enter u64 u64
  | S_write_ex_exit | S_read_ex_exit | S_handshake_enter | S_handshake_exit

fun run_ssl :: "ssl_config \<Rightarrow> ssl_prog \<times> ssl_env \<Rightarrow> ssl_state \<Rightarrow> ssl_state" where
  "run_ssl cfg (S_rustls_write buf len, env) st = probe_rustls_write cfg env buf len st"
| "run_ssl cfg (S_rustls_writev iovecs n, env) st = probe_rustls_write_vectored cfg env iovecs n st"
| "run_ssl cfg (S_rustls_plaintext chunks, env) st = probe_rustls_buffer_plaintext cfg env chunks st"
| "run_ssl cfg (S_rw_enter buf, env) st = probe_SSL_rw_enter cfg env buf st"
| "run_ssl cfg (S_read_exit, env) st = probe_SSL_read_exit cfg env st"
| "run_ssl cfg (S_write_exit, env) st = probe_SSL_write_exit cfg env st"
| "run_ssl cfg (S_write_ex_enter buf ptr, env) st = probe_SSL_write_ex_enter cfg env buf ptr st"
| "run_ssl cfg (S_read_ex_enter buf ptr, env) st = probe_SSL_read_ex_enter cfg env buf ptr st"
| "run_ssl cfg (S_write_ex_exit, env) st = probe_SSL_write_ex_exit cfg env st"
| "run_ssl cfg (S_read_ex_exit, env) st = probe_SSL_read_ex_exit cfg env st"
| "run_ssl cfg (S_handshake_enter, env) st = probe_SSL_do_handshake_enter cfg env st"
| "run_ssl cfg (S_handshake_exit, env) st = probe_SSL_do_handshake_exit cfg env st"

lemmas ssl_defs [bpf_defs] =
  probe_SSL_rw_enter_def SSL_exit_def probe_SSL_read_exit_def probe_SSL_write_exit_def
  probe_SSL_write_ex_enter_def probe_SSL_read_ex_enter_def ex_SSL_exit_def ex_length_def
  probe_SSL_write_ex_exit_def probe_SSL_read_ex_exit_def probe_SSL_do_handshake_enter_def probe_SSL_do_handshake_exit_def
  finish_rw_def ssl_submit_def

lemmas rustls_defs [bpf_defs] =
  probe_rustls_write_def probe_rustls_write_vectored_def probe_rustls_buffer_plaintext_def submit_rustls_write_def

text \<open>What a thread has pending: the buffer and the start time of a call that has not returned, and for the \<open>_ex\<close> functions where the length will be.\<close>

definition rw_pending :: "ssl_state \<Rightarrow> u32 \<Rightarrow> (u64 \<times> u64) option" where
  "rw_pending st tid = (case (bufs st tid, start_ns st tid) of (Some b, Some t) \<Rightarrow> Some (b, t) | _ \<Rightarrow> None)"

definition ex_pending :: "ssl_state \<Rightarrow> u32 \<Rightarrow> (u64 \<times> u64 \<times> u64) option" where
  "ex_pending st tid =
     (case (rw_pending st tid, readbytes_ptrs st tid) of (Some (b, t), Some p) \<Rightarrow> Some (b, t, p) | _ \<Rightarrow> None)"

definition ssl_thread :: "ssl_prog \<times> ssl_env \<Rightarrow> u32" where
  "ssl_thread p = cur_tid (snd p)"

lemma rustls_keeps_maps:
  "bufs (submit_rustls_write env d pid tid uid n c st) = bufs st"
  "start_ns (submit_rustls_write env d pid tid uid n c st) = start_ns st"
  "readbytes_ptrs (submit_rustls_write env d pid tid uid n c st) = readbytes_ptrs st"
  by (simp_all add: submit_rustls_write_def ssl_submit_def)

lemma run_ssl_other:
  assumes "ssl_thread p \<noteq> tid"
  shows "bufs (run_ssl cfg p st) tid = bufs st tid \<and> start_ns (run_ssl cfg p st) tid = start_ns st tid \<and>
    readbytes_ptrs (run_ssl cfg p st) tid = readbytes_ptrs st tid"
proof (cases p)
  case (Pair prog env)
  then have "cur_tid env \<noteq> tid" using assms by (simp add: ssl_thread_def)
  with Pair show ?thesis
    by (cases prog)
      (auto simp: ssl_defs rustls_defs Let_def map_delete_def map_update_other split: option.split prod.split)
qed

section \<open>Pairing of entry and return\<close>

definition env_allowed :: "ssl_config \<Rightarrow> ssl_env \<Rightarrow> bool" where
  "env_allowed cfg env \<longleftrightarrow> trace_allowed cfg (cur_uid env) (cur_tgid env)"

definition clamp :: "u32 \<Rightarrow> u32" where
  "clamp n = (if of_nat SSL_MAX_BUF_SIZE < n then of_nat SSL_MAX_BUF_SIZE else n)"

fun rw_enters :: "ssl_config \<Rightarrow> ssl_prog \<times> ssl_env \<Rightarrow> (u64 \<times> u64) option" where
  "rw_enters cfg (S_rw_enter buf, env) =
     (if env_allowed cfg env \<and> room_bufs env \<and> room_start env then Some (buf, ktime env) else None)"
| "rw_enters cfg _ = None"

definition rw_leaves_event :: "ssl_config \<Rightarrow> ssl_env \<Rightarrow> int \<Rightarrow> u64 \<times> u64 \<Rightarrow> probe_SSL_data_t option" where
  "rw_leaves_event cfg env rw bt =
     (let len = ucast (rc env) :: i32 in
      if env_allowed cfg env \<and> 0 < sint len
      then map_option (\<lambda>d. read_payload env (fst bt) (clamp len) (rw_event env (snd bt) len rw d)) (slot env) else None)"

fun rw_leaves :: "ssl_config \<Rightarrow> ssl_prog \<times> ssl_env \<Rightarrow> u64 \<times> u64 \<Rightarrow> probe_SSL_data_t option" where
  "rw_leaves cfg (S_read_exit, env) bt = rw_leaves_event cfg env 0 bt"
| "rw_leaves cfg (S_write_exit, env) bt = rw_leaves_event cfg env 1 bt"
| "rw_leaves cfg _ bt = None"

fun ex_enters :: "ssl_config \<Rightarrow> ssl_prog \<times> ssl_env \<Rightarrow> (u64 \<times> u64 \<times> u64) option" where
  "ex_enters cfg (S_write_ex_enter buf ptr, env) =
     (if env_allowed cfg env \<and> room_bufs env \<and> room_start env \<and> room_ptrs env then Some (buf, ktime env, ptr) else None)"
| "ex_enters cfg (S_read_ex_enter buf ptr, env) =
     (if env_allowed cfg env \<and> room_bufs env \<and> room_start env \<and> room_ptrs env then Some (buf, ktime env, ptr) else None)"
| "ex_enters cfg _ = None"

definition ex_leaves_event :: "ssl_config \<Rightarrow> ssl_env \<Rightarrow> int \<Rightarrow> u64 \<times> u64 \<times> u64 \<Rightarrow> probe_SSL_data_t option" where
  "ex_leaves_event cfg env rw btp =
     (case btp of (b, t, p) \<Rightarrow>
        let len = (if (ucast (rc env) :: i32) = 1 then ucast (case user_mem env p 8 of Some w \<Rightarrow> le64 w 0 | None \<Rightarrow> 0) else 0) :: i32 in
        if env_allowed cfg env \<and> 0 < sint len
        then map_option (\<lambda>d. read_payload env b (clamp (len AND 0xFFFFF)) (rw_event env t len rw d)) (slot env) else None)"

fun ex_leaves :: "ssl_config \<Rightarrow> ssl_prog \<times> ssl_env \<Rightarrow> u64 \<times> u64 \<times> u64 \<Rightarrow> probe_SSL_data_t option" where
  "ex_leaves cfg (S_read_ex_exit, env) btp = ex_leaves_event cfg env 0 btp"
| "ex_leaves cfg (S_write_ex_exit, env) btp = ex_leaves_event cfg env 1 btp"
| "ex_leaves cfg _ btp = None"

lemma map_update_same: "r \<Longrightarrow> snd (map_update r m k v BPF_ANY) k = Some v"
  by (auto simp: map_update_def split: option.splits)

lemma SSL_exit_event:
  assumes "rw_pending st (cur_tid env) = Some bt" "rw_leaves_event cfg env rw bt = Some e"
  shows "ssl_rb (SSL_exit cfg env rw st) = ssl_rb st @ [e] \<and> rw_pending (SSL_exit cfg env rw st) (cur_tid env) = None"
  using assms
  by (auto simp: rw_pending_def rw_leaves_event_def SSL_exit_def finish_rw_def ssl_submit_def env_allowed_def clamp_def
      map_delete_def Let_def split: option.splits if_splits)

lemma ex_SSL_exit_event:
  assumes "rw_pending st (cur_tid env) = Some (b, t)" "env_allowed cfg env" "0 < sint len" "slot env = Some d"
  shows "ssl_rb (ex_SSL_exit cfg env rw len st) = ssl_rb st @ [read_payload env b (clamp (len AND 0xFFFFF)) (rw_event env t len rw d)] \<and>
    rw_pending (ex_SSL_exit cfg env rw len st) (cur_tid env) = None"
  using assms
  by (auto simp: rw_pending_def ex_SSL_exit_def finish_rw_def ssl_submit_def env_allowed_def clamp_def
      map_delete_def Let_def split: option.splits if_splits)

interpretation ssl_rw: emitting_calls "run_ssl cfg" ssl_thread rw_pending ssl_rb "\<lambda>p _. rw_enters cfg p" "rw_leaves cfg" for cfg
proof unfold_locales
  fix p q :: "ssl_prog \<times> ssl_env" and k s a e
  show "ssl_thread p \<noteq> k \<Longrightarrow> rw_pending (run_ssl cfg p s) k = rw_pending s k"
    using run_ssl_other[of p k cfg s] by (simp add: rw_pending_def)
  show "rw_enters cfg p = Some a \<Longrightarrow> rw_pending (run_ssl cfg p s) (ssl_thread p) = Some a"
    by (induction cfg p rule: rw_enters.induct)
      (auto simp: ssl_thread_def probe_SSL_rw_enter_def env_allowed_def rw_pending_def map_update_same Let_def split: if_splits)
  show "rw_pending s (ssl_thread q) = Some a \<Longrightarrow> rw_leaves cfg q a = Some e \<Longrightarrow>
      ssl_rb (run_ssl cfg q s) = ssl_rb s @ [e] \<and> rw_pending (run_ssl cfg q s) (ssl_thread q) = None"
    by (induction cfg q a rule: rw_leaves.induct)
      (auto simp: ssl_thread_def probe_SSL_read_exit_def probe_SSL_write_exit_def SSL_exit_event)
qed

interpretation ssl_ex: emitting_calls "run_ssl cfg" ssl_thread ex_pending ssl_rb "\<lambda>p _. ex_enters cfg p" "ex_leaves cfg" for cfg
proof unfold_locales
  fix p q :: "ssl_prog \<times> ssl_env" and k s a e
  show "ssl_thread p \<noteq> k \<Longrightarrow> ex_pending (run_ssl cfg p s) k = ex_pending s k"
    using run_ssl_other[of p k cfg s] by (simp add: ex_pending_def rw_pending_def)
  show "ex_enters cfg p = Some a \<Longrightarrow> ex_pending (run_ssl cfg p s) (ssl_thread p) = Some a"
    by (induction cfg p rule: ex_enters.induct)
      (auto simp: ssl_thread_def probe_SSL_write_ex_enter_def probe_SSL_read_ex_enter_def env_allowed_def ex_pending_def
        rw_pending_def map_update_same Let_def split: if_splits)
  have keep: "rw_pending (s\<lparr>readbytes_ptrs := m\<rparr>) k = rw_pending s k" for m k by (simp add: rw_pending_def)
  have "ssl_rb (case ex_length env s of None \<Rightarrow> s | Some (len, s1) \<Rightarrow> ex_SSL_exit cfg env rw len s1) = ssl_rb s @ [e] \<and>
      ex_pending (case ex_length env s of None \<Rightarrow> s | Some (len, s1) \<Rightarrow> ex_SSL_exit cfg env rw len s1) (cur_tid env) = None"
    if "ex_pending s (cur_tid env) = Some a" "ex_leaves_event cfg env rw a = Some e" for env rw
    using that ex_SSL_exit_event[of "s\<lparr>readbytes_ptrs := map_delete (readbytes_ptrs s) (cur_tid env)\<rparr>" env _ _ cfg]
    by (auto simp: ex_pending_def ex_leaves_event_def ex_length_def keep Let_def split: option.splits if_splits)
  then show "ex_pending s (ssl_thread q) = Some a \<Longrightarrow> ex_leaves cfg q a = Some e \<Longrightarrow>
      ssl_rb (run_ssl cfg q s) = ssl_rb s @ [e] \<and> ex_pending (run_ssl cfg q s) (ssl_thread q) = None"
    by (induction cfg q a rule: ex_leaves.induct)
      (auto simp: ssl_thread_def probe_SSL_read_ex_exit_def probe_SSL_write_ex_exit_def)
qed

text \<open>
  A call that fails leaves its stored arguments in the maps, and the handshake return is filtered by the
  process id where the user id is meant: with a user filter it is dropped unless the two are equal.
\<close>

lemma SSL_exit_failed_call: "sint (ucast (rc env) :: i32) \<le> 0 \<Longrightarrow> SSL_exit cfg env rw st = st"
  by (auto simp: SSL_exit_def Let_def split: option.split)

lemma handshake_exit_user_filter:
  "targ_uid cfg \<noteq> -1 \<Longrightarrow> targ_uid cfg \<noteq> cur_tgid env \<Longrightarrow> probe_SSL_do_handshake_exit cfg env st = st"
  by (simp add: probe_SSL_do_handshake_exit_def trace_allowed_def Let_def)

end
