(* ===== verification/Ssl_Capture.thy ===== *)
theory Ssl_Capture
  imports Ssl_Bpf "HOL-Library.Sublist"
begin

text \<open>
  What the TLS tracer captures: that no program writes outside the buffer of an event, that the bytes
  of an event are the bytes the traced call passed or returned, and how much of them is kept.
  \<open>readable\<close> is a process whose memory can be read; \<open>holds\<close> says that a buffer starts with the given bytes.
\<close>

unbundle bit_operations_syntax

lemma unat_size_consts:
  "unat (of_nat SSL_MAX_BUF_SIZE :: u32) = 262144" "unat (of_nat SSL_MAX_BUF_SIZE :: u64) = 262144"
  "unat (of_nat GROK_MAX_CAPTURE_SIZE :: u32) = 65536" "unat (of_nat GROK_MAX_CAPTURE_SIZE :: u64) = 65536"
  "unat (of_nat RUSTLS_COPY_CHUNK_SIZE :: u64) = 16384"
  "unat (of_nat (SSL_MAX_BUF_SIZE - RUSTLS_COPY_CHUNK_SIZE) :: u32) = 245760"
  by (simp_all add: SSL_MAX_BUF_SIZE_def GROK_MAX_CAPTURE_SIZE_def RUSTLS_COPY_CHUNK_SIZE_def)

lemma grok_mask: "x AND (of_nat GROK_MAX_CAPTURE_SIZE - 1) = take_bit 16 (x :: u32)"
  by (simp add: GROK_MAX_CAPTURE_SIZE_def take_bit_eq_mask mask_eq_exp_minus_1)

lemma unat_grok_mask: "unat (x AND (of_nat GROK_MAX_CAPTURE_SIZE - 1) :: u32) = unat x mod 65536"
proof -
  have "unat (take_bit 16 x) = take_bit 16 (unat x)" by (simp add: unsigned_take_bit_eq)
  then show ?thesis unfolding grok_mask by (simp add: take_bit_eq_mod)
qed

lemma of_nat_unat_add: "unat a + n < 4294967296 \<Longrightarrow> unat x = n \<Longrightarrow> (a::u32) + ucast (x::u64) = of_nat (unat a + n)"
  by (simp add: word_unat_eq_iff unat_add_u32 unat_ucast_u32 unat_of_nat)

text \<open>The copy of one chunk in numbers: at most what is left of 64 KiB.\<close>

lemma copy_rustls_iovec_nat:
  fixes iov :: "u64 \<times> u64" and copied :: u32
  assumes c: "unat copied \<le> 65536"
  defines "n \<equiv> min (unat (snd iov)) (65536 - unat copied)"
  shows "copy_rustls_iovec env buf iov copied =
    (if n = 0 then (copied, buf)
     else case read_into env buf (unat copied) n (fst iov) of (ok, b) \<Rightarrow>
       if \<not> ok then (copied, b) else (of_nat (unat copied + n), b))"
proof (cases "snd iov = 0 \<or> of_nat GROK_MAX_CAPTURE_SIZE \<le> copied")
  case True
  then have "n = 0" by (auto simp: n_def word_le_nat_alt unat_size_consts)
  with True show ?thesis by (auto simp: copy_rustls_iovec_def)
next
  case False
  let ?cap = "of_nat GROK_MAX_CAPTURE_SIZE - copied :: u32"
  let ?x0 = "if of_nat GROK_MAX_CAPTURE_SIZE < snd iov then of_nat GROK_MAX_CAPTURE_SIZE else snd iov"
  let ?x1 = "if ucast ?cap < ?x0 then ucast ?cap else ?x0"
  let ?x = "if of_nat GROK_MAX_CAPTURE_SIZE < ?x1 then of_nat GROK_MAX_CAPTURE_SIZE else ?x1"
  have lt: "unat copied < 65536" using False by (simp add: word_le_nat_alt unat_size_consts)
  have pos: "0 < unat (snd iov)" using False unat_eq_0[of "snd iov"] by simp
  have "copied \<le> of_nat GROK_MAX_CAPTURE_SIZE" using c by (simp add: word_le_nat_alt unat_size_consts)
  then have "unat ?cap = 65536 - unat copied" by (simp add: unat_sub unat_size_consts)
  then have x: "unat ?x = n"
    using lt by (simp only: unat_if_less unat_ucast_u64 unat_size_consts n_def)
  have n: "0 < n" using lt pos by (simp add: n_def)
  then have "?x \<noteq> 0" using x unat_eq_0[of ?x] by linarith
  moreover have "unat (copied AND (of_nat GROK_MAX_CAPTURE_SIZE - 1)) = unat copied" using lt by (simp only: unat_grok_mask) simp
  moreover have "copied + ucast ?x = of_nat (unat copied + n)"
    using lt by (intro of_nat_unat_add[OF _ x]) (simp add: n_def)
  ultimately show ?thesis using False x n unfolding copy_rustls_iovec_def Let_def by (simp only: if_False not_gr0) auto
qed

section \<open>The bytes of a buffer\<close>

definition holds :: "bytes \<Rightarrow> u32 \<times> bytes \<Rightarrow> bool" where
  "holds xs cb \<longleftrightarrow> unat (fst cb) = length xs \<and> take (length xs) (snd cb) = xs \<and> length (snd cb) = SSL_MAX_BUF_SIZE"

lemma holds_length: "holds xs cb \<Longrightarrow> length xs \<le> SSL_MAX_BUF_SIZE"
  by (metis holds_def length_take min.cobounded1)

lemma holds_append:
  assumes "holds xs (c, buf)" "length xs + n \<le> SSL_MAX_BUF_SIZE" "length ys = n" "unat c' = length xs + n"
  shows "holds (xs @ ys) (c', take (unat c) buf @ ys @ drop (unat c + n) buf)"
  using assms by (auto simp: holds_def)

lemma holds_snd: "holds xs cb \<Longrightarrow> length (snd cb) = SSL_MAX_BUF_SIZE \<and> take (unat (fst cb)) (snd cb) = xs"
  by (auto simp: holds_def)

section \<open>Plaintext chunks of rustls\<close>

abbreviation chunk :: "(u64 \<Rightarrow> char) \<Rightarrow> u64 \<times> u64 \<Rightarrow> bytes" where
  "chunk mem iov \<equiv> seg mem (fst iov) (unat (snd iov))"

text \<open>The array of descriptors at an address.\<close>

definition iovecs_at :: "ssl_env \<Rightarrow> u64 \<Rightarrow> (u64 \<times> u64) list \<Rightarrow> bool" where
  "iovecs_at env a ivs \<longleftrightarrow> (\<forall>i<length ivs. read_iovec env (a + 16 * of_nat i) = Some (ivs ! i))"

definition len_sum :: "(u64 \<times> u64) list \<Rightarrow> nat" where
  "len_sum ivs = sum_list (map (unat \<circ> snd) ivs)"

lemma length_chunks: "length (concat (map (chunk mem) ivs)) = len_sum ivs"
  by (simp add: length_concat len_sum_def comp_def)

lemma len_sum_take_Suc: "k < length ivs \<Longrightarrow> len_sum (take (Suc k) ivs) = len_sum (take k ivs) + unat (snd (ivs ! k))"
  by (simp add: len_sum_def take_Suc_conv_app_nth)

lemma len_sum_take_le: "len_sum (take k ivs) \<le> len_sum ivs"
proof -
  have "len_sum ivs = len_sum (take k ivs) + len_sum (drop k ivs)"
    unfolding len_sum_def by (metis append_take_drop_id map_append sum_list_append)
  then show ?thesis by simp
qed

lemma chunks_take_Suc:
  "k < length ivs \<Longrightarrow> concat (map (chunk mem) (take (Suc k) ivs)) = concat (map (chunk mem) (take k ivs)) @ chunk mem (ivs ! k)"
  by (simp add: take_Suc_conv_app_nth)

lemma copy_rustls_iovec_holds:
  assumes r: "readable env mem" and h: "holds (take 65536 xs) (c, buf)"
  shows "holds (take 65536 (xs @ chunk mem iov)) (copy_rustls_iovec env buf iov c)"
proof -
  let ?n = "min (unat (snd iov)) (65536 - unat c)"
  have c: "unat c = min 65536 (length xs)" using h by (simp add: holds_def)
  have eq: "take 65536 (xs @ chunk mem iov) = take 65536 xs @ seg mem (fst iov) ?n"
  proof -
    have "65536 - length xs = 65536 - unat c" using c by simp
    then show ?thesis by (simp add: take_seg min.commute)
  qed
  show ?thesis
  proof (cases "?n = 0")
    case True
    then have "copy_rustls_iovec env buf iov c = (c, buf)" using c by (subst copy_rustls_iovec_nat) simp_all
    with True h show ?thesis unfolding eq by simp
  next
    case False
    have "length (take 65536 xs) + ?n \<le> SSL_MAX_BUF_SIZE" using c by (simp add: SSL_MAX_BUF_SIZE_def)
    moreover have "unat (of_nat (unat c + ?n) :: u32) = length (take 65536 xs) + ?n"
      using c by (subst unat_of_nat_u32) simp_all
    ultimately have "holds (take 65536 xs @ seg mem (fst iov) ?n)
        (of_nat (unat c + ?n), take (unat c) buf @ seg mem (fst iov) ?n @ drop (unat c + ?n) buf)"
      by (intro holds_append[OF h]) simp_all
    moreover have "copy_rustls_iovec env buf iov c =
        (of_nat (unat c + ?n), take (unat c) buf @ seg mem (fst iov) ?n @ drop (unat c + ?n) buf)"
      using False copy_rustls_iovec_nat[of c env buf iov] c by (simp only: read_into_readable[OF r]) simp
    ultimately show ?thesis unfolding eq by (simp only:)
  qed
qed

lemma outbound_loop_holds:
  assumes r: "readable env mem" and iv: "iovecs_at env a ivs" and cnt: "unat cnt = length ivs" and tot: "len_sum ivs \<le> unat total_len"
  shows "holds (take 65536 (concat (map (chunk mem) (take k ivs)))) cb \<Longrightarrow> unat insp = len_sum (take k ivs) \<Longrightarrow>
    k \<le> n \<Longrightarrow> n \<le> 8 \<Longrightarrow>
    holds (take 65536 (concat (map (chunk mem) (take n ivs)))) (outbound_loop env a cnt total_len [k..<n] insp cb)"
proof (induction "n - k" arbitrary: k insp cb)
  case (Suc m)
  obtain c buf where cb: "cb = (c, buf)" by (cases cb)
  have kn: "k < n" using Suc.hyps(2) by simp
  then have upt: "[k..<n] = k # [Suc k..<n]" by (simp add: upt_conv_Cons)
  have uk: "unat (of_nat k :: u64) = k" using kn Suc.prems(4) by (intro unat_of_nat_u64) simp
  show ?case
  proof (cases "k < length ivs")
    case False
    then have "cnt \<le> of_nat k" using cnt uk by (simp add: word_le_nat_alt)
    then show ?thesis using Suc.prems False kn by (simp add: upt)
  next
    case True
    then have nle: "\<not> cnt \<le> of_nat k" using cnt uk by (simp add: word_le_nat_alt)
    let ?iov = "ivs ! k"
    have sum: "len_sum (take k ivs) + unat (snd ?iov) \<le> unat total_len"
      using len_sum_take_Suc[OF True] len_sum_take_le[of "Suc k" ivs] tot by simp
    then have le: "insp \<le> total_len" using Suc.prems(2) by (simp add: word_le_nat_alt)
    then have fits: "\<not> (total_len < insp \<or> total_len - insp < snd ?iov)"
      using sum Suc.prems(2) by (simp add: word_less_nat_alt word_le_nat_alt unat_sub)
    have rd: "read_iovec env (a + 16 * of_nat k) = Some ?iov" using iv True by (simp add: iovecs_at_def)
    have "unat (insp + snd ?iov) = len_sum (take (Suc k) ivs)"
      using sum Suc.prems(2) unat_u64[of total_len] len_sum_take_Suc[OF True] by (simp add: unat_add_u64)
    moreover have "holds (take 65536 (concat (map (chunk mem) (take (Suc k) ivs)))) (copy_rustls_iovec env buf ?iov c)"
      unfolding chunks_take_Suc[OF True] using Suc.prems(1) by (intro copy_rustls_iovec_holds[OF r]) (simp add: cb)
    ultimately show ?thesis
      using Suc.hyps(1)[of "Suc k"] Suc.hyps(2) Suc.prems nle rd fits by (simp add: upt cb)
  qed
qed simp

section \<open>Vectored writes of rustls\<close>

text \<open>
  Of each descriptor the program copies at most eight pieces of 16 KiB, in order, and it copies a piece
  exactly when at most 240 KiB are in the buffer before it: \<open>pieces\<close> are those of a descriptor, \<open>kept\<close> is
  what is captured of a sequence of pieces.
\<close>

definition pieces_from :: "(u64 \<Rightarrow> char) \<Rightarrow> nat \<Rightarrow> u64 \<Rightarrow> nat \<Rightarrow> bytes list" where
  "pieces_from mem n source r =
     map (\<lambda>j. seg mem (source + of_nat (16384 * j)) (min 16384 (r - 16384 * j))) (filter (\<lambda>j. 16384 * j < r) [0..<n])"

definition pieces :: "(u64 \<Rightarrow> char) \<Rightarrow> u64 \<times> u64 \<Rightarrow> bytes list" where
  "pieces mem iov = pieces_from mem 8 (fst iov) (unat (snd iov))"

definition kept :: "bytes list \<Rightarrow> bytes" where
  "kept ps = concat (map ((!) ps) (filter (\<lambda>i. length (concat (take i ps)) \<le> 245760) [0..<length ps]))"

definition iov_prefix :: "(u64 \<Rightarrow> char) \<Rightarrow> u64 \<times> u64 \<Rightarrow> bytes" where
  "iov_prefix mem iov = seg mem (fst iov) (min (unat (snd iov)) 131072)"

lemma pieces_from_0 [simp]: "pieces_from mem 0 source r = []" "pieces_from mem n source 0 = []"
  by (simp_all add: pieces_from_def)

lemma pieces_from_Suc:
  assumes "0 < r"
  shows "pieces_from mem (Suc n) source r = seg mem source (min 16384 r) # pieces_from mem n (source + of_nat (min 16384 r)) (r - min 16384 r)"
proof -
  have upt: "[0..<Suc n] = 0 # map Suc [0..<n]" by (simp add: upt_conv_Cons map_Suc_upt del: upt_Suc)
  show ?thesis
  proof (cases "r \<le> 16384")
    case True
    then have "filter (\<lambda>j. 16384 * j < r) (map Suc [0..<n]) = []" by (auto simp: filter_empty_conv)
    with True assms show ?thesis unfolding pieces_from_def upt by simp
  next
    case False
    have "filter (\<lambda>j. 16384 * j < r) (map Suc [0..<n]) = map Suc (filter (\<lambda>j. 16384 * j < r - 16384) [0..<n])"
      unfolding filter_map comp_def by (intro arg_cong[where f = "map Suc"] filter_cong) auto
    with False show ?thesis unfolding pieces_from_def upt by (simp add: comp_def algebra_simps)
  qed
qed

lemma concat_pieces_from: "concat (pieces_from mem n source r) = seg mem source (min r (n * 16384))"
proof (induction n arbitrary: source r)
  case (Suc n)
  show ?case
  proof (cases "r = 0")
    case False
    have split: "min r (Suc n * 16384) = min 16384 r + min (r - min 16384 r) (n * 16384)" by (simp only: min_def mult_Suc) auto
    show ?thesis using False unfolding split seg_add by (simp add: pieces_from_Suc Suc.IH)
  qed simp
qed simp

lemma concat_pieces: "concat (pieces mem iov) = iov_prefix mem iov"
  by (simp add: pieces_def concat_pieces_from iov_prefix_def)

lemma concat_map_pieces: "concat (concat (map (pieces mem) ivs)) = concat (map (iov_prefix mem) ivs)"
  by (induction ivs) (simp_all add: concat_pieces)

text \<open>The same with the number of bytes already in the buffer.\<close>

fun keep_from :: "nat \<Rightarrow> bytes list \<Rightarrow> bytes" where
  "keep_from n [] = []"
| "keep_from n (p # ps) = (if n \<le> 245760 then p @ keep_from (n + length p) ps else [])"

lemma keep_from_full: "245760 < n \<Longrightarrow> keep_from n ps = []"
  by (cases ps) simp_all

lemma keep_from_kept:
  "keep_from n ps = concat (map ((!) ps) (filter (\<lambda>i. n + length (concat (take i ps)) \<le> 245760) [0..<length ps]))"
proof (induction ps arbitrary: n)
  case (Cons p ps)
  have upt: "[0..<length (p # ps)] = 0 # map Suc [0..<length ps]" by (simp add: upt_conv_Cons map_Suc_upt del: upt_Suc)
  show ?case
  proof (cases "n \<le> 245760")
    case True
    then show ?thesis unfolding upt by (simp add: Cons filter_map comp_def add.assoc)
  next
    case False
    then show ?thesis unfolding upt by (simp add: filter_empty_conv)
  qed
qed simp

lemma kept_keep_from: "kept ps = keep_from 0 ps"
  by (simp add: kept_def keep_from_kept)

lemma keep_from_append: "keep_from n (ps @ qs) = keep_from n ps @ keep_from (n + length (keep_from n ps)) qs"
  by (induction ps arbitrary: n) (simp_all add: keep_from_full add.assoc)

lemma keep_from_whole: "keep_from n ps = concat ps \<or> 245760 < n + length (keep_from n ps)"
proof (induction ps arbitrary: n)
  case (Cons p ps)
  from Cons[of "n + length p"] show ?case by (auto simp: add.assoc)
qed simp

lemma keep_from_prefix: "prefix (keep_from n ps) (concat ps)"
  by (induction ps arbitrary: n) simp_all

lemma keep_from_all: "ps = [] \<or> n + length (concat (butlast ps)) \<le> 245760 \<Longrightarrow> keep_from n ps = concat ps"
  by (induction ps arbitrary: n) (auto split: if_splits)

lemma chunk_loop_holds:
  assumes r: "readable env mem"
  shows "holds xs cb \<Longrightarrow>
    holds (xs @ keep_from (length xs) (pieces_from mem (length cs) source (unat remaining))) (chunk_loop env cs source remaining cb)"
proof (induction cs arbitrary: xs cb source remaining)
  case Nil
  then show ?case by (cases cb) simp
next
  case (Cons x cs)
  obtain c buf where cb: "cb = (c, buf)" by (cases cb)
  have c: "unat c = length xs" using Cons.prems by (simp add: holds_def cb)
  have room: "of_nat (SSL_MAX_BUF_SIZE - RUSTLS_COPY_CHUNK_SIZE) < c \<longleftrightarrow> 245760 < length xs"
    using c by (simp only: word_less_nat_alt unat_size_consts)
  show ?case
  proof (cases "remaining = 0 \<or> 245760 < length xs")
    case True
    then show ?thesis using Cons.prems room by (auto simp: cb keep_from_full)
  next
    case False
    let ?w = "if of_nat RUSTLS_COPY_CHUNK_SIZE < remaining then of_nat RUSTLS_COPY_CHUNK_SIZE else remaining"
    let ?n = "min 16384 (unat remaining)"
    have pos: "0 < unat remaining" using False unat_eq_0[of remaining] by simp
    have w: "unat ?w = ?n" by (simp only: unat_if_less unat_size_consts)
    have "?w \<le> remaining" using w by (simp add: word_le_nat_alt)
    then have rem: "unat (remaining - ?w) = unat remaining - ?n" using w by (simp only: unat_sub)
    have len: "length xs + ?n \<le> 262144" using False by linarith
    have "c + ucast ?w = of_nat (unat c + ?n)" using c len by (intro of_nat_unat_add[OF _ w]) simp
    then have c': "unat (c + ucast ?w) = length xs + ?n" using c len by (simp only: unat_of_nat_u32)
    have h: "holds (xs @ seg mem source ?n) (c + ucast ?w, take (unat c) buf @ seg mem source ?n @ drop (unat c + ?n) buf)"
      using Cons.prems len c' by (intro holds_append) (simp_all add: cb SSL_MAX_BUF_SIZE_def)
    have "chunk_loop env (x # cs) source remaining cb = chunk_loop env cs (source + ?w) (remaining - ?w)
        (c + ucast ?w, take (unat c) buf @ seg mem source ?n @ drop (unat c + ?n) buf)"
      using False room w unfolding cb by (simp only: chunk_loop.simps Let_def if_False read_into_readable[OF r]) simp
    moreover have "of_nat ?n = ?w" unfolding w[symmetric] by simp
    moreover have "keep_from (length xs) (pieces_from mem (length (x # cs)) source (unat remaining)) =
        seg mem source ?n @ keep_from (length (xs @ seg mem source ?n)) (pieces_from mem (length cs) (source + of_nat ?n) (unat remaining - ?n))"
      using False pos by (simp add: pieces_from_Suc)
    ultimately show ?thesis
      using Cons.IH[OF h, of "source + ?w" "remaining - ?w"] unfolding rem by (simp only: append_assoc)
  qed
qed

lemma iovec_loop_holds:
  assumes r: "readable env mem" and iv: "iovecs_at env a ivs" and cnt: "unat cnt = length ivs" and n: "n \<le> 2"
  shows "holds (kept (concat (map (pieces mem) (take k ivs)))) cb \<Longrightarrow> tot = sum_list (map snd (take k ivs)) \<Longrightarrow> k \<le> n \<Longrightarrow>
    fst (iovec_loop env a cnt [k..<n] tot cb) = sum_list (map snd (take n ivs)) \<and>
    holds (kept (concat (map (pieces mem) (take n ivs)))) (snd (iovec_loop env a cnt [k..<n] tot cb))"
proof (induction "n - k" arbitrary: k tot cb)
  case (Suc m)
  have kn: "k < n" using Suc.hyps(2) by simp
  then have upt: "[k..<n] = k # [Suc k..<n]" by (simp add: upt_conv_Cons)
  have uk: "unat (of_nat k :: u64) = k" using kn n by (intro unat_of_nat_u64) simp
  show ?case
  proof (cases "k < length ivs")
    case False
    then have "cnt \<le> of_nat k" using cnt uk by (simp add: word_le_nat_alt)
    then show ?thesis using Suc.prems False kn by (simp add: upt)
  next
    case True
    then have nle: "\<not> cnt \<le> of_nat k" using cnt uk by (simp add: word_le_nat_alt)
    obtain base len where iov: "ivs ! k = (base, len)" by (cases "ivs ! k")
    have rd: "read_iovec env (a + 16 * of_nat k) = Some (base, len)" using iv True iov by (simp add: iovecs_at_def)
    have "kept (concat (map (pieces mem) (take (Suc k) ivs))) = kept (concat (map (pieces mem) (take k ivs))) @
        keep_from (length (kept (concat (map (pieces mem) (take k ivs))))) (pieces_from mem 8 base (unat len))"
      unfolding kept_keep_from by (simp add: take_Suc_conv_app_nth[OF True] keep_from_append iov pieces_def)
    then have "holds (kept (concat (map (pieces mem) (take (Suc k) ivs)))) (chunk_loop env [0..<MAX_RUSTLS_CHUNKS_PER_IOV] base len cb)"
      using chunk_loop_holds[OF r Suc.prems(1), of "[0..<MAX_RUSTLS_CHUNKS_PER_IOV]" base len] by (simp add: MAX_RUSTLS_CHUNKS_PER_IOV_def)
    then show ?thesis
      using Suc.hyps(1)[of "Suc k"] Suc.hyps(2) Suc.prems nle rd kn True iov by (simp add: upt take_Suc_conv_app_nth)
  qed
qed simp

lemma unat_sum_snd: "unat (sum_list (map snd ivs) :: u64) = len_sum ivs mod 18446744073709551616"
proof (induction ivs)
  case (Cons x xs)
  have "unat (snd x + sum_list (map snd xs)) = (unat (snd x) + unat (sum_list (map snd xs))) mod 18446744073709551616"
    by (simp add: unat_word_ariths)
  then show ?case by (simp add: len_sum_def Cons mod_simps)
qed (simp add: len_sum_def)

lemma sd_len_total: "unat (if 0xFFFFFFFF < t then 0xFFFFFFFF else ucast (t::u64) :: u32) = min 4294967295 (unat t)"
  by (auto simp: word_less_nat_alt unat_ucast_u32)

lemma submit_rustls_write_event:
  "\<exists>e. submit_rustls_write env d pid tid uid t c st = st\<lparr>ssl_rb := ssl_rb st @ [e]\<rparr> \<and> sd_buf e = sd_buf d \<and>
    sd_buf_size e = c \<and> unat (sd_len e) = min 4294967295 (unat t) \<and> sd_rw e = 1 \<and> sd_pid e = pid \<and> sd_tid e = tid"
  unfolding submit_rustls_write_def ssl_submit_def by (intro exI conjI, rule refl) (simp_all add: sd_len_total)

text \<open>A traced process for the examples: its memory holds two chunks, their descriptors and the chunk list; the calls are made by thread 7 of process 5.\<close>

definition demo_mem :: "u64 \<Rightarrow> char" where
  "demo_mem a = (case map_of [(300, CHR ''G''), (301, CHR ''E''), (302, CHR ''T''), (400, CHR '' ''), (401, CHR ''/''), (200, CHR 0x2C), (201, CHR 0x01), (208, CHR 0x03), (216, CHR 0x90), (217, CHR 0x01), (224, CHR 0x02), (100, CHR 0x02), (108, CHR 0xC8), (124, CHR 0x05), (50, CHR 0x03)] a of Some c \<Rightarrow> c | None \<Rightarrow> NUL)"

definition demo_slot :: probe_SSL_data_t where
  "demo_slot = \<lparr>sd_timestamp_ns = 0, sd_delta_ns = 0, sd_pid = 0, sd_tid = 0, sd_uid = 0, sd_len = 0, sd_buf_size = 0,
     sd_buf_filled = False, sd_rw = 0, sd_comm = [], sd_buf = replicate SSL_MAX_BUF_SIZE NUL, sd_is_handshake = False\<rparr>"

definition demo_env :: ssl_env where
  "demo_env = \<lparr>pid_tgid = 0x500000007, uid_gid = 0, ktime = 9, cur_comm = ''curl'', cgroup_id = 0, cpu = 0, args = (\<lambda>_. 0),
     user_str = (\<lambda>_. None), user_mem = (\<lambda>a n. Some (seg demo_mem a n)), room = True,
     rc = 3, room_bufs = True, room_start = True, room_ptrs = True, slot = Some demo_slot\<rparr>"

definition demo_cfg :: ssl_config where
  "demo_cfg = \<lparr>targ_pid = 5, targ_uid = -1\<rparr>"

definition demo_st :: ssl_state where
  "demo_st = \<lparr>readbytes_ptrs = (\<lambda>_. None), start_ns = (\<lambda>_. None), bufs = (\<lambda>_. None), ssl_rb = []\<rparr>"

lemmas demo_simps = le64_def seg_def demo_mem_def upt_conv_Cons

lemma demo_env_facts:
  "env_allowed demo_cfg demo_env" "slot demo_env = Some demo_slot" "length (sd_buf demo_slot) = SSL_MAX_BUF_SIZE"
  "readable demo_env demo_mem" "reads_exact demo_env" "iovecs_at demo_env 200 [(300, 3), (400, 2)]"
  "cur_tgid demo_env = 5" "cur_tid demo_env = 7"
proof -
  show tid: "cur_tgid demo_env = 5" "cur_tid demo_env = 7" by (simp_all add: demo_env_def cur_tgid_def cur_tid_def)
  show "env_allowed demo_cfg demo_env" by (simp add: env_allowed_def trace_allowed_def demo_cfg_def tid)
  show "slot demo_env = Some demo_slot" "readable demo_env demo_mem" "reads_exact demo_env"
    by (auto simp: demo_env_def readable_def reads_exact_def)
  show "length (sd_buf demo_slot) = SSL_MAX_BUF_SIZE" by (simp add: demo_slot_def)
  have "le64 (seg demo_mem 200 16) 0 = 300 \<and> le64 (seg demo_mem 200 16) 8 = 3 \<and>
      le64 (seg demo_mem 216 16) 0 = 400 \<and> le64 (seg demo_mem 216 16) 8 = 2" by (simp add: demo_simps)
  then have "read_iovec demo_env 200 = Some (300, 3)" "read_iovec demo_env 216 = Some (400, 2)"
    by (simp_all add: read_iovec_def demo_env_def)
  then show "iovecs_at demo_env 200 [(300, 3), (400, 2)]" by (auto simp: iovecs_at_def less_Suc_eq)
qed

section \<open>The captures\<close>

text \<open>
  C9: A vectored rustls write, in a process whose memory can be read, when the ring buffer has room. Of
  the first two descriptors the program takes the pieces of 16 KiB of the first 128 KiB of each, in
  order, and the event carries exactly those that start within the first 240 KiB, without gaps between
  them: all that was taken, or more than 240 KiB of it. The length is the sum of the two lengths (in 64 bits, cut at
  32), made larger than what is captured when descriptors were left out. So two descriptors of 128 KiB
  are captured completely; after a descriptor longer than 128 KiB, bytes are missing in the middle.
\<close>

theorem rustls_vectored_capture:
  assumes "env_allowed cfg env" "iovecs \<noteq> 0" "slot env = Some d" "length (sd_buf d) = SSL_MAX_BUF_SIZE"
    and "readable env mem" "iovecs_at env iovecs ivs" "unat n = length ivs" "ivs \<noteq> []"
    and "tot = len_sum (take 2 ivs) mod 18446744073709551616"
  shows "\<exists>e. run_ssl cfg (S_rustls_writev iovecs n, env) st = st\<lparr>ssl_rb := ssl_rb st @ [e]\<rparr> \<and>
    take (unat (sd_buf_size e)) (sd_buf e) = kept (concat (map (pieces mem) (take 2 ivs))) \<and>
    unat (sd_buf_size e) = length (kept (concat (map (pieces mem) (take 2 ivs)))) \<and>
    prefix (take (unat (sd_buf_size e)) (sd_buf e)) (concat (map (iov_prefix mem) (take 2 ivs))) \<and>
    (take (unat (sd_buf_size e)) (sd_buf e) = concat (map (iov_prefix mem) (take 2 ivs)) \<or> 245760 < unat (sd_buf_size e)) \<and>
    unat (sd_len e) = min 4294967295 (if 2 < length ivs \<and> tot \<le> unat (sd_buf_size e) then unat (sd_buf_size e) + 1 else tot) \<and>
    sd_rw e = 1 \<and> sd_pid e = cur_tgid env \<and> sd_tid e = cur_tid env"
proof -
  let ?ps = "concat (map (pieces mem) (take 2 ivs))"
  have all: "concat ?ps = concat (map (iov_prefix mem) (take 2 ivs))" by (rule concat_map_pieces)
  have "holds (kept (concat (map (pieces mem) (take 0 ivs)))) (0, sd_buf d)" using assms(4) by (simp add: holds_def kept_def)
  from iovec_loop_holds[OF assms(5,6,7) order_refl this, of 0]
  obtain c buf where loop: "iovec_loop env iovecs n [0..<2] 0 (0, sd_buf d) = (sum_list (map snd (take 2 ivs)), c, buf)"
    and h: "holds (kept ?ps) (c, buf)"
    by (cases "iovec_loop env iovecs n [0..<2] 0 (0, sd_buf d)") auto
  have n: "n \<noteq> 0" using assms(7,8) unat_eq_0[of n] by simp
  have many: "of_nat MAX_RUSTLS_IOVECS < n \<longleftrightarrow> 2 < length ivs" using assms(7) by (simp add: word_less_nat_alt MAX_RUSTLS_IOVECS_def)
  let ?total = "sum_list (map snd (take 2 ivs))"
  have tot: "unat ?total = tot" unfolding assms(9) by (rule unat_sum_snd)
  have "unat c < 4294967296" by (rule unat_u32)
  then have c1: "unat (ucast c + 1 :: u64) = unat c + 1" by (subst unat_add_u64) (simp_all add: unat_ucast_u64)
  let ?t = "if of_nat MAX_RUSTLS_IOVECS < n \<and> ?total \<le> ucast c then ucast c + 1 else ?total"
  have t: "unat ?t = (if 2 < length ivs \<and> tot \<le> unat c then unat c + 1 else tot)"
    by (simp add: many word_le_nat_alt tot unat_ucast_u64 c1)
  have "run_ssl cfg (S_rustls_writev iovecs n, env) st =
      submit_rustls_write env (d\<lparr>sd_buf := buf\<rparr>) (cur_tgid env) (cur_tid env) (cur_uid env) ?t c st"
    using assms(1,2,3) n loop by (simp add: probe_rustls_write_vectored_def env_allowed_def MAX_RUSTLS_IOVECS_def)
  then obtain e where "run_ssl cfg (S_rustls_writev iovecs n, env) st = st\<lparr>ssl_rb := ssl_rb st @ [e]\<rparr>"
    and e: "sd_buf e = buf" "sd_buf_size e = c" "unat (sd_len e) = min 4294967295 (unat ?t)" "sd_rw e = 1" "sd_pid e = cur_tgid env"
      "sd_tid e = cur_tid env"
    using submit_rustls_write_event[of env "d\<lparr>sd_buf := buf\<rparr>" "cur_tgid env" "cur_tid env" "cur_uid env" ?t c st] by auto
  moreover have k: "take (unat (sd_buf_size e)) (sd_buf e) = kept ?ps" "unat (sd_buf_size e) = length (kept ?ps)"
    using h e(1,2) by (auto simp: holds_def)
  moreover have "prefix (kept ?ps) (concat ?ps)" "kept ?ps = concat ?ps \<or> 245760 < length (kept ?ps)"
    using keep_from_prefix[of 0 ?ps] keep_from_whole[of 0 ?ps] by (simp_all add: kept_keep_from)
  ultimately show ?thesis using t e(2) unfolding all by (intro exI[of _ e]) (simp add: e(3-6))
qed

text \<open>Two descriptors of 128 KiB fill the buffer.\<close>

definition big_mem :: "u64 \<Rightarrow> char" where
  "big_mem a = (case map_of [(202, CHR 0x10), (210, CHR 0x02), (218, CHR 0x20), (226, CHR 0x02)] a of Some c \<Rightarrow> c | None \<Rightarrow> NUL)"

definition big_env :: ssl_env where
  "big_env = demo_env\<lparr>user_mem := \<lambda>a n. Some (seg big_mem a n)\<rparr>"

theorem rustls_vectored_capture_witness:
  "\<exists>e. run_ssl demo_cfg (S_rustls_writev 200 2, big_env) demo_st = demo_st\<lparr>ssl_rb := ssl_rb demo_st @ [e]\<rparr> \<and>
    take (unat (sd_buf_size e)) (sd_buf e) = seg big_mem 0x100000 131072 @ seg big_mem 0x200000 131072 \<and>
    unat (sd_buf_size e) = 262144 \<and> unat (sd_len e) = 262144 \<and> sd_pid e = 5"
proof -
  let ?ivs = "[(0x100000, 0x20000), (0x200000, 0x20000)] :: (u64 \<times> u64) list"
  have env: "env_allowed demo_cfg big_env" "slot big_env = Some demo_slot" "readable big_env big_mem" "cur_tgid big_env = 5"
    using demo_env_facts by (simp_all add: big_env_def env_allowed_def cur_uid_def cur_tgid_def readable_def)
  have "le64 (seg big_mem 200 16) 0 = 0x100000 \<and> le64 (seg big_mem 200 16) 8 = 0x20000 \<and>
      le64 (seg big_mem 216 16) 0 = 0x200000 \<and> le64 (seg big_mem 216 16) 8 = 0x20000"
    by (simp add: le64_def seg_def big_mem_def upt_conv_Cons)
  then have "read_iovec big_env 200 = Some (0x100000, 0x20000)" "read_iovec big_env 216 = Some (0x200000, 0x20000)"
    by (simp_all add: read_iovec_def big_env_def)
  then have at: "iovecs_at big_env 200 ?ivs" by (auto simp: iovecs_at_def less_Suc_eq)
  have cc: "concat (pieces big_mem (b, 0x20000)) = seg big_mem b 131072" for b by (simp add: concat_pieces iov_prefix_def)
  have "[0..<8] = [0,1,2,3,4,5,6,7::nat]" by (simp add: upt_conv_Cons)
  then have ne: "pieces big_mem (b, 0x20000) \<noteq> []" and bl: "length (concat (butlast (pieces big_mem (b, 0x20000)))) = 114688" for b
    by (simp_all add: pieces_def pieces_from_def)
  let ?ps = "concat (map (pieces big_mem) ?ivs)"
  have "length (concat (butlast ?ps)) \<le> 245760" by (simp add: butlast_append cc bl ne)
  then have "kept ?ps = concat ?ps" unfolding kept_keep_from by (intro keep_from_all) simp
  then have k: "kept ?ps = seg big_mem 0x100000 131072 @ seg big_mem 0x200000 131072" by (simp add: cc)
  then have "length (kept ?ps) = 262144" by simp
  with k show ?thesis
    using rustls_vectored_capture[OF env(1) _ env(2) demo_env_facts(3) env(3) at _ _ refl, where n = 2 and st = demo_st] env(4)
    by (auto simp: len_sum_def)
qed

text \<open>
  C8: the plaintext chunks of a rustls record. When the chunks add up to the stated length, the
  event carries the first 64 KiB of the concatenation of the first eight chunks, without gaps, and
  the length of the whole record.
\<close>

theorem grok_capture_prefix:
  assumes "env_allowed cfg env" "chunks \<noteq> 0" "slot env = Some d" "length (sd_buf d) = SSL_MAX_BUF_SIZE" "readable env mem"
    and "ob = seg mem chunks 32" "unat (le64 ob 0) = length ivs" "le64 ob 8 \<noteq> 0" "le64 ob 16 = 0" "unat (le64 ob 24) = len_sum ivs"
    and "iovecs_at env (le64 ob 8) ivs" "0 < len_sum (take 8 ivs)"
  shows "\<exists>e. run_ssl cfg (S_rustls_plaintext chunks, env) st = st\<lparr>ssl_rb := ssl_rb st @ [e]\<rparr> \<and>
    take (unat (sd_buf_size e)) (sd_buf e) = take 65536 (concat (map (chunk mem) (take 8 ivs))) \<and>
    unat (sd_len e) = min 4294967295 (len_sum ivs) \<and> sd_rw e = 1 \<and> sd_pid e = cur_tgid env \<and> sd_tid e = cur_tid env"
proof -
  let ?cap = "take 65536 (concat (map (chunk mem) (take 8 ivs)))"
  have "holds (take 65536 (concat (map (chunk mem) (take 0 ivs)))) (0, sd_buf d)" using assms(4) by (simp add: holds_def)
  from outbound_loop_holds[OF assms(5,11,7) _ this, of "le64 ob 24" 0 8] assms(10)
  obtain c buf where loop: "outbound_loop env (le64 ob 8) (le64 ob 0) (le64 ob 24) [0..<8] 0 (0, sd_buf d) = (c, buf)"
    and h: "holds ?cap (c, buf)"
    by (cases "outbound_loop env (le64 ob 8) (le64 ob 0) (le64 ob 24) [0..<8] 0 (0, sd_buf d)") (auto simp: len_sum_def)
  have "length ?cap = min 65536 (len_sum (take 8 ivs))" by (simp add: length_chunks)
  then have "unat c \<noteq> 0" using h assms(12) by (simp add: holds_def)
  then have c: "c \<noteq> 0" by auto
  have "0 < len_sum ivs" using assms(12) len_sum_take_le[of 8 ivs] by simp
  moreover from this have "ivs \<noteq> []" by (auto simp: len_sum_def)
  ultimately have nz: "le64 ob 0 \<noteq> 0" "le64 ob 24 \<noteq> 0" using assms(7,10) unat_eq_0[of "le64 ob 0"] unat_eq_0[of "le64 ob 24"] by simp_all
  have um: "user_mem env chunks 32 = Some ob" using assms(5,6) by (simp add: readable_def)
  have "run_ssl cfg (S_rustls_plaintext chunks, env) st =
      submit_rustls_write env (d\<lparr>sd_buf := buf\<rparr>) (cur_tgid env) (cur_tid env) (cur_uid env) (le64 ob 24) c st"
    using assms(1,2,3,8,9) nz c loop um
    by (simp add: probe_rustls_buffer_plaintext_def env_allowed_def MAX_GROK_IOVECS_def)
  then show ?thesis
    using h assms(10) submit_rustls_write_event[of env "d\<lparr>sd_buf := buf\<rparr>" "cur_tgid env" "cur_tid env" "cur_uid env" "le64 ob 24" c st]
    by (fastforce simp: holds_def)
qed

theorem grok_capture_prefix_witness:
  "\<exists>e. run_ssl demo_cfg (S_rustls_plaintext 100, demo_env) demo_st = demo_st\<lparr>ssl_rb := ssl_rb demo_st @ [e]\<rparr> \<and>
    take (unat (sd_buf_size e)) (sd_buf e) = ''GET /'' \<and> unat (sd_len e) = 5 \<and> sd_rw e = 1 \<and> sd_pid e = 5 \<and> sd_tid e = 7"
proof -
  let ?ob = "seg demo_mem 100 32"
  have "le64 ?ob 0 = 2" "le64 ?ob 8 = 200" "le64 ?ob 16 = 0" "le64 ?ob 24 = 5" by (simp_all add: demo_simps)
  moreover have "concat (map (chunk demo_mem) (take 8 [(300, 3), (400, 2)])) = ''GET /''" by (simp add: demo_simps)
  ultimately show ?thesis
    using grok_capture_prefix[OF demo_env_facts(1) _ demo_env_facts(2,3,4) refl, of 100 "[(300, 3), (400, 2)]" demo_st]
    by (simp add: len_sum_def demo_env_facts)
qed

section \<open>No write outside the buffer\<close>

definition event_ok :: "probe_SSL_data_t \<Rightarrow> bool" where
  "event_ok e \<longleftrightarrow> length (sd_buf e) = SSL_MAX_BUF_SIZE \<and> unat (sd_buf_size e) \<le> SSL_MAX_BUF_SIZE \<and> sd_rw e \<in> {0, 1, 2}"

definition slot_ok :: "ssl_env \<Rightarrow> bool" where
  "slot_ok env \<longleftrightarrow> reads_exact env \<and> (\<forall>d. slot env = Some d \<longrightarrow> length (sd_buf d) = SSL_MAX_BUF_SIZE)"

definition within :: "nat \<Rightarrow> u32 \<times> bytes \<Rightarrow> bool" where
  "within m cb \<longleftrightarrow> unat (fst cb) \<le> m \<and> length (snd cb) = SSL_MAX_BUF_SIZE"

lemma copy_rustls_iovec_within:
  assumes "reads_exact env" "within 65536 (c, buf)"
  shows "within 65536 (copy_rustls_iovec env buf iov c)"
proof -
  let ?n = "min (unat (snd iov)) (65536 - unat c)"
  have c: "unat c \<le> 65536" using assms(2) by (simp add: within_def)
  have "unat (of_nat (unat c + ?n) :: u32) = unat c + ?n" using c by (subst unat_of_nat_u32) simp_all
  moreover obtain ok b where rd: "read_into env buf (unat c) ?n (fst iov) = (ok, b)" by (cases "read_into env buf (unat c) ?n (fst iov)")
  moreover from this have "length b = SSL_MAX_BUF_SIZE"
    using assms c read_into_length[of env "unat c" ?n buf "fst iov"] by (simp add: within_def SSL_MAX_BUF_SIZE_def)
  ultimately show ?thesis
    using assms(2) c by (simp only: copy_rustls_iovec_nat) (auto simp: within_def)
qed

lemma within_0: "within m (c, buf) \<Longrightarrow> within m (0, buf)"
  by (simp add: within_def)

lemma outbound_loop_within:
  "reads_exact env \<Longrightarrow> within 65536 cb \<Longrightarrow> within 65536 (outbound_loop env a cnt total_len is insp cb)"
  by (induction env a cnt total_len "is" insp cb rule: outbound_loop.induct)
    (auto simp: copy_rustls_iovec_within within_0 split: option.split)

lemma chunk_loop_within:
  assumes "reads_exact env"
  shows "within SSL_MAX_BUF_SIZE cb \<Longrightarrow> within SSL_MAX_BUF_SIZE (chunk_loop env cs source remaining cb)"
proof (induction cs arbitrary: cb source remaining)
  case (Cons x cs)
  obtain c buf where cb: "cb = (c, buf)" by (cases cb)
  let ?w = "if of_nat RUSTLS_COPY_CHUNK_SIZE < remaining then of_nat RUSTLS_COPY_CHUNK_SIZE else remaining"
  have w: "unat ?w \<le> 16384" by (simp only: unat_if_less unat_size_consts)
  show ?case
  proof (cases "remaining = 0 \<or> of_nat (SSL_MAX_BUF_SIZE - RUSTLS_COPY_CHUNK_SIZE) < c")
    case False
    then have "unat c \<le> 245760" by (simp only: word_less_nat_alt unat_size_consts) simp
    moreover from this w have "c + ucast ?w = of_nat (unat c + unat ?w)" by (intro of_nat_unat_add) simp_all
    ultimately have c': "unat (c + ucast ?w) \<le> SSL_MAX_BUF_SIZE"
      and len: "length (snd (read_into env buf (unat c) (unat ?w) source)) = SSL_MAX_BUF_SIZE"
      using w Cons.prems read_into_length[OF assms, of "unat c" "unat ?w" buf source]
      by (simp_all only: unat_of_nat_u32 within_def cb SSL_MAX_BUF_SIZE_def) simp_all
    obtain ok b where rd: "read_into env buf (unat c) (unat ?w) source = (ok, b)" by (cases "read_into env buf (unat c) (unat ?w) source")
    have "within SSL_MAX_BUF_SIZE (c + ucast ?w, b)" "within SSL_MAX_BUF_SIZE (c, b)"
      using c' len Cons.prems rd by (simp_all only: within_def cb) simp_all
    with False rd show ?thesis unfolding cb by (simp only: chunk_loop.simps Let_def) (simp add: Cons.IH)
  qed (use Cons.prems in \<open>auto simp: cb\<close>)
qed (simp add: within_def split: prod.split, metis chunk_loop.simps(1) prod.collapse)

lemma iovec_loop_within:
  "reads_exact env \<Longrightarrow> within SSL_MAX_BUF_SIZE cb \<Longrightarrow> within SSL_MAX_BUF_SIZE (snd (iovec_loop env a cnt is tot cb))"
  by (induction env a cnt "is" tot cb rule: iovec_loop.induct) (auto simp: chunk_loop_within split: option.split)

lemma clamp_le: "unat (clamp n) \<le> SSL_MAX_BUF_SIZE"
  unfolding clamp_def by (simp only: unat_if_less unat_size_consts) (simp add: SSL_MAX_BUF_SIZE_def)

lemma clamp_fold: "(if of_nat SSL_MAX_BUF_SIZE < n then of_nat SSL_MAX_BUF_SIZE else n) = clamp n"
  by (simp add: clamp_def)

lemma read_payload_ok:
  assumes "reads_exact env" "length (sd_buf d) = SSL_MAX_BUF_SIZE" "unat n \<le> SSL_MAX_BUF_SIZE" "sd_rw d \<in> {0, 1, 2}"
  shows "event_ok (read_payload env a n d)"
  using assms read_into_length[of env 0 "unat n" "sd_buf d" a]
  by (auto simp: read_payload_def event_ok_def split: prod.split)

lemma sd_buf_rw_event [simp]: "sd_buf (rw_event env t len rw d) = sd_buf d" "sd_rw (rw_event env t len rw d) = rw"
  by (simp_all add: rw_event_def)

lemma submit_rustls_write_ok:
  assumes "within SSL_MAX_BUF_SIZE (c, sd_buf d)" "list_all event_ok (ssl_rb st)"
  shows "list_all event_ok (ssl_rb (submit_rustls_write env d pid tid uid t c st))"
  using assms by (simp add: submit_rustls_write_def ssl_submit_def event_ok_def within_def)

lemma rustls_ok:
  assumes s: "slot_ok env" and l: "list_all event_ok (ssl_rb st)"
  shows "list_all event_ok (ssl_rb (probe_rustls_write cfg env buf len st))"
    "list_all event_ok (ssl_rb (probe_rustls_write_vectored cfg env buf len st))"
    "list_all event_ok (ssl_rb (probe_rustls_buffer_plaintext cfg env buf st))"
proof -
  have r: "reads_exact env" and d: "slot env = Some d \<Longrightarrow> length (sd_buf d) = SSL_MAX_BUF_SIZE" for d
    using s by (auto simp: slot_ok_def)
  have one: "list_all event_ok (ssl_rb (case read_into env (sd_buf d) 0 (unat c) a of (ok, b) \<Rightarrow>
      if \<not> ok then st else submit_rustls_write env (d\<lparr>sd_buf := b\<rparr>) pid tid uid t c st))"
    if "slot env = Some d" "unat c \<le> SSL_MAX_BUF_SIZE" for d c a pid tid uid t
    using that d l read_into_length[OF r, of 0 "unat c" "sd_buf d" a]
    by (auto simp: within_def intro!: submit_rustls_write_ok split: prod.split)
  have start: "within m (0, sd_buf d)" if "slot env = Some d" for d m using d[OF that] by (simp add: within_def)
  have cl: "unat (of_nat SSL_MAX_BUF_SIZE :: u32) \<le> SSL_MAX_BUF_SIZE"
      "\<not> of_nat SSL_MAX_BUF_SIZE < n \<Longrightarrow> unat (ucast n :: u32) \<le> SSL_MAX_BUF_SIZE"
    and cg: "unat (of_nat GROK_MAX_CAPTURE_SIZE :: u32) \<le> SSL_MAX_BUF_SIZE"
      "\<not> of_nat GROK_MAX_CAPTURE_SIZE < n \<Longrightarrow> unat (ucast n :: u32) \<le> SSL_MAX_BUF_SIZE" for n :: u64
    by (simp_all add: word_less_nat_alt unat_size_consts unat_ucast_u32 not_less) (simp_all add: SSL_MAX_BUF_SIZE_def)
  have many: "list_all event_ok (ssl_rb (case x of (tot, c, b) \<Rightarrow> submit_rustls_write env (d\<lparr>sd_buf := b\<rparr>) pid tid uid (g tot c) c st))"
    if "within SSL_MAX_BUF_SIZE (snd x)" for x d pid tid uid g
    using that l by (cases x) (auto simp: within_def intro!: submit_rustls_write_ok)
  have some: "list_all event_ok (ssl_rb (case x of (c, b) \<Rightarrow>
      if c = 0 then st else submit_rustls_write env (d\<lparr>sd_buf := b\<rparr>) pid tid uid t c st))"
    if "within 65536 x" for x d pid tid uid t
    using that l by (cases x) (auto simp: within_def SSL_MAX_BUF_SIZE_def intro!: submit_rustls_write_ok)
  show "list_all event_ok (ssl_rb (probe_rustls_write cfg env buf len st))"
    unfolding probe_rustls_write_def Let_def by (simp add: l one cl split: option.split)
  show "list_all event_ok (ssl_rb (probe_rustls_write_vectored cfg env buf len st))"
    unfolding probe_rustls_write_vectored_def Let_def by (simp add: l many iovec_loop_within[OF r start] split: option.split)
  show "list_all event_ok (ssl_rb (probe_rustls_buffer_plaintext cfg env buf st))"
    unfolding probe_rustls_buffer_plaintext_def Let_def
    by (simp add: l one cg some outbound_loop_within[OF r start] split: option.split)
qed

lemma finish_rw_ok:
  assumes "slot_ok env" "slot env = Some d" "list_all event_ok (ssl_rb st)" "rw \<in> {0, 1}"
  shows "list_all event_ok (ssl_rb (finish_rw env (rw_event env t len rw d) a (clamp n) st))"
  using assms by (auto simp: finish_rw_def ssl_submit_def slot_ok_def Let_def intro!: read_payload_ok clamp_le)

lemma SSL_exit_ok:
  assumes "slot_ok env" "list_all event_ok (ssl_rb st)" "rw \<in> {0, 1}"
  shows "list_all event_ok (ssl_rb (SSL_exit cfg env rw st))" "list_all event_ok (ssl_rb (ex_SSL_exit cfg env rw len st))"
  using assms unfolding SSL_exit_def ex_SSL_exit_def Let_def clamp_fold by (simp_all add: finish_rw_ok split: option.split)

lemma run_ssl_ok:
  assumes s: "slot_ok (snd p)" and l: "list_all event_ok (ssl_rb st)"
  shows "list_all event_ok (ssl_rb (run_ssl cfg p st))"
proof (cases p)
  case (Pair prog env)
  then have s': "slot_ok env" using s by simp
  note ok = rustls_ok[OF s' l] SSL_exit_ok[OF s'] l
  show ?thesis
  proof (cases prog)
    case S_handshake_exit
    then show ?thesis
      using Pair s' l
      by (auto simp: probe_SSL_do_handshake_exit_def Let_def ssl_submit_def slot_ok_def event_ok_def split: option.split)
  qed (auto simp: Pair ok probe_SSL_rw_enter_def probe_SSL_read_exit_def probe_SSL_write_exit_def probe_SSL_write_ex_enter_def
        probe_SSL_read_ex_enter_def probe_SSL_write_ex_exit_def probe_SSL_read_ex_exit_def probe_SSL_do_handshake_enter_def
        ex_length_def Let_def split: option.split)
qed

text \<open>
  C6: whatever sequence of probes runs, with whatever lengths and addresses the traced processes
  pass and whichever reads fail, every event in the ring buffer has its buffer of 256 KiB intact (no
  read went past its end), states at most that many captured bytes, and has a kind that the printer
  can name.
\<close>

theorem ssl_buffers_in_bounds:
  assumes "\<forall>p\<in>set ps. slot_ok (snd p)" "list_all event_ok (ssl_rb st)"
  shows "list_all event_ok (ssl_rb (fold (run_ssl cfg) ps st))"
  using assms by (induction ps arbitrary: st) (simp_all add: run_ssl_ok)

theorem ssl_buffers_in_bounds_witness:
  "list_all event_ok (ssl_rb (fold (run_ssl demo_cfg)
     [(S_rw_enter 300, demo_env), (S_write_exit, demo_env), (S_rustls_writev 200 9, demo_env)] demo_st))"
proof (rule ssl_buffers_in_bounds)
  show "\<forall>p\<in>set [(S_rw_enter 300, demo_env), (S_write_exit, demo_env), (S_rustls_writev 200 9, demo_env)]. slot_ok (snd p)"
    by (simp add: slot_ok_def demo_env_facts)
  show "list_all event_ok (ssl_rb demo_st)" by (simp add: demo_st_def)
qed

section \<open>Read and write calls\<close>

lemma read_payload_readable:
  assumes "readable env mem" "unat n \<le> length (sd_buf d)"
  shows "sd_buf_filled (read_payload env a n d) \<and> sd_buf_size (read_payload env a n d) = n \<and>
    take (unat n) (sd_buf (read_payload env a n d)) = seg mem a (unat n)"
  using assms by (simp add: read_payload_def read_into_readable)

lemma read_payload_keeps [simp]:
  "sd_len (read_payload env a n d) = sd_len d" "sd_delta_ns (read_payload env a n d) = sd_delta_ns d"
  "sd_rw (read_payload env a n d) = sd_rw d" "sd_pid (read_payload env a n d) = sd_pid d" "sd_tid (read_payload env a n d) = sd_tid d"
  by (simp_all add: read_payload_def split: prod.split)

lemma unat_clamp: "unat (clamp n) = min 262144 (unat n)"
  unfolding clamp_def by (simp only: unat_if_less unat_size_consts)

lemma unat_mask20: "unat (x AND 0xFFFFF :: u32) = unat x mod 1048576"
proof -
  have "unat (take_bit 20 x) = take_bit 20 (unat x)" by (simp add: unsigned_take_bit_eq)
  moreover have "x AND 0xFFFFF = take_bit 20 x" by (simp add: take_bit_eq_mask mask_eq_exp_minus_1)
  ultimately show ?thesis by (simp add: take_bit_eq_mod)
qed

text \<open>The event of a call that moved X bytes at \<open>a\<close> and of which \<open>n\<close> are captured.\<close>

definition call_event :: "ssl_env \<Rightarrow> ssl_env \<Rightarrow> (u64 \<Rightarrow> char) \<Rightarrow> u64 \<Rightarrow> int \<Rightarrow> u32 \<Rightarrow> nat \<Rightarrow> probe_SSL_data_t \<Rightarrow> bool" where
  "call_event e1 e2 mem a rw len n e \<longleftrightarrow>
     sd_rw e = rw \<and> sd_len e = len \<and> sd_delta_ns e = ktime e2 - ktime e1 \<and> sd_pid e = cur_tgid e2 \<and> sd_tid e = cur_tid e2 \<and>
     sd_buf_filled e \<and> unat (sd_buf_size e) = n \<and> take n (sd_buf e) = seg mem a n"

lemma call_event_payload:
  assumes "readable e2 mem" "length (sd_buf d) = SSL_MAX_BUF_SIZE"
  shows "call_event e1 e2 mem a rw len (min 262144 (unat n)) (read_payload e2 a (clamp n) (rw_event e2 (ktime e1) len rw d))"
  using read_payload_readable[OF assms(1), of "clamp n" "rw_event e2 (ktime e1) len rw d" a] assms(2) clamp_le[of n]
  by (simp add: call_event_def unat_clamp rw_event_def)

lemma demo_env_rc: "rc demo_env = 3" "room_bufs demo_env" "room_start demo_env" "room_ptrs demo_env"
  by (simp_all add: demo_env_def)

text \<open>
  C5: \<open>SSL_read\<close> and \<open>SSL_write\<close>. When a thread enters one of them and returns a positive
  length, then, however many probes of other threads run in between, exactly one event is emitted for
  the return: it carries the returned length, the time between entry and return, and the first 256 KiB
  of the buffer that was passed at entry. Nothing stays stored for the thread.
\<close>

theorem ssl_rw_pairing:
  assumes "env_allowed cfg e1" "room_bufs e1" "room_start e1" "env_allowed cfg e2" "cur_tid e2 = cur_tid e1"
    and "\<forall>r\<in>set rs. ssl_thread r \<noteq> cur_tid e1" "0 < sint (ucast (rc e2) :: i32)" "slot e2 = Some d"
    and "length (sd_buf d) = SSL_MAX_BUF_SIZE" "readable e2 mem" "(q, rw) \<in> {(S_read_exit, 0), (S_write_exit, 1)}"
    and "st1 = fold (run_ssl cfg) rs (run_ssl cfg (S_rw_enter buf, e1) st)" "st2 = run_ssl cfg (q, e2) st1"
  shows "\<exists>e. ssl_rb st2 = ssl_rb st1 @ [e] \<and> rw_pending st2 (cur_tid e1) = None \<and>
    call_event e1 e2 mem buf rw (ucast (rc e2)) (min 262144 (unat (ucast (rc e2) :: i32))) e"
proof -
  let ?len = "ucast (rc e2) :: i32"
  let ?e = "read_payload e2 buf (clamp ?len) (rw_event e2 (ktime e1) ?len rw d)"
  have "rw_leaves cfg (q, e2) (buf, ktime e1) = Some ?e"
    using assms(4,7,8,11) by (auto simp: rw_leaves_event_def Let_def)
  then have "ssl_rb st2 = ssl_rb st1 @ [?e] \<and> rw_pending st2 (cur_tid e1) = None"
    using ssl_rw.pair_emits[of cfg "(S_rw_enter buf, e1)" "(buf, ktime e1)" "(q, e2)" rs ?e st] assms(1-6) unfolding assms(12,13)
    by (simp add: ssl_thread_def)
  then show ?thesis using call_event_payload[OF assms(10,9)] by blast
qed

theorem ssl_rw_pairing_witness:
  "\<exists>e. ssl_rb (run_ssl demo_cfg (S_write_exit, demo_env) (run_ssl demo_cfg (S_rw_enter 300, demo_env) demo_st)) =
      ssl_rb (run_ssl demo_cfg (S_rw_enter 300, demo_env) demo_st) @ [e] \<and>
    rw_pending (run_ssl demo_cfg (S_write_exit, demo_env) (run_ssl demo_cfg (S_rw_enter 300, demo_env) demo_st)) 7 = None \<and>
    call_event demo_env demo_env demo_mem 300 1 3 3 e"
  using ssl_rw_pairing[OF demo_env_facts(1) _ _ demo_env_facts(1) refl _ _ demo_env_facts(2,3,4) _ refl refl, of "[]" S_write_exit 1 300 demo_st]
  by (simp add: demo_env_facts demo_env_rc)

text \<open>
  C7: \<open>SSL_read_ex\<close> and \<open>SSL_write_ex\<close>, which return the length through a pointer: as for the
  plain functions, except that the number of captured bytes is computed from the low 20 bits of the
  length, so that of a call that moves 1 MiB or more only the remainder is captured, and of exactly
  1 MiB nothing.
\<close>

theorem ssl_ex_pairing:
  assumes "env_allowed cfg e1" "room_bufs e1" "room_start e1" "room_ptrs e1" "env_allowed cfg e2" "cur_tid e2 = cur_tid e1"
    and "\<forall>r\<in>set rs. ssl_thread r \<noteq> cur_tid e1" "(ucast (rc e2) :: i32) = 1" "slot e2 = Some d"
    and "length (sd_buf d) = SSL_MAX_BUF_SIZE" "readable e2 mem"
    and "(p, q, rw) \<in> {(S_read_ex_enter buf ptr, S_read_ex_exit, 0), (S_write_ex_enter buf ptr, S_write_ex_exit, 1)}"
    and "len = (ucast (le64 (seg mem ptr 8) 0) :: i32)" "0 < sint len"
    and "st1 = fold (run_ssl cfg) rs (run_ssl cfg (p, e1) st)" "st2 = run_ssl cfg (q, e2) st1"
  shows "\<exists>e. ssl_rb st2 = ssl_rb st1 @ [e] \<and> ex_pending st2 (cur_tid e1) = None \<and>
    call_event e1 e2 mem buf rw len (min 262144 (unat len mod 1048576)) e"
proof -
  let ?e = "read_payload e2 buf (clamp (len AND 0xFFFFF)) (rw_event e2 (ktime e1) len rw d)"
  have "user_mem e2 ptr 8 = Some (seg mem ptr 8)" using assms(11) by (simp add: readable_def)
  then have "ex_leaves cfg (q, e2) (buf, ktime e1, ptr) = Some ?e"
    using assms(5,8,9,12,13,14) by (auto simp: ex_leaves_event_def Let_def)
  moreover have "ex_enters cfg (p, e1) = Some (buf, ktime e1, ptr)" using assms(1-4,12) by auto
  ultimately have "ssl_rb st2 = ssl_rb st1 @ [?e] \<and> ex_pending st2 (cur_tid e1) = None"
    using ssl_ex.pair_emits[of cfg "(p, e1)" "(buf, ktime e1, ptr)" "(q, e2)" rs ?e st] assms(6,7) unfolding assms(15,16)
    by (simp add: ssl_thread_def)
  then show ?thesis using call_event_payload[OF assms(11,10), of e1 buf rw len "len AND 0xFFFFF"] by (auto simp: unat_mask20)
qed

text \<open>A process that writes exactly 1 MiB with \<open>SSL_write_ex\<close>; the length is stored at address 500.\<close>

definition mib_mem :: "u64 \<Rightarrow> char" where
  "mib_mem a = (if a = 502 then CHR 0x10 else NUL)"

definition mib_env :: ssl_env where
  "mib_env = demo_env\<lparr>rc := 1, user_mem := \<lambda>a n. Some (seg mib_mem a n)\<rparr>"

theorem ssl_ex_pairing_witness:
  "\<exists>e. ssl_rb (run_ssl demo_cfg (S_write_ex_exit, mib_env) (run_ssl demo_cfg (S_write_ex_enter 300 500, mib_env) demo_st)) =
      ssl_rb (run_ssl demo_cfg (S_write_ex_enter 300 500, mib_env) demo_st) @ [e] \<and>
    ex_pending (run_ssl demo_cfg (S_write_ex_exit, mib_env) (run_ssl demo_cfg (S_write_ex_enter 300 500, mib_env) demo_st)) 7 = None \<and>
    call_event mib_env mib_env mib_mem 300 1 1048576 0 e"
proof -
  have env: "env_allowed demo_cfg mib_env" "room_bufs mib_env" "room_start mib_env" "room_ptrs mib_env" "slot mib_env = Some demo_slot"
    "cur_tid mib_env = 7" "readable mib_env mib_mem" "(ucast (rc mib_env) :: i32) = 1"
    using demo_env_facts by (simp_all add: mib_env_def env_allowed_def cur_uid_def cur_tgid_def cur_tid_def readable_def demo_env_rc)
  have "le64 (seg mib_mem 500 8) 0 = 1048576" by (simp add: le64_def seg_def mib_mem_def upt_conv_Cons)
  then show ?thesis
    using ssl_ex_pairing[OF env(1-4,1) refl _ env(8,5) demo_env_facts(3) env(7) _ refl _ refl refl,
        of "[]" "S_write_ex_enter 300 500" S_write_ex_exit 1 300 500 demo_st]
    by (simp add: env)
qed

end
