(* ===== verification/Pattern_Search.thy ===== *)
theory Pattern_Search
  imports Prelude "HOL-Library.Monad_Syntax" "HOL-Library.Sublist"
begin

text \<open>
  Locating functions in stripped binaries by byte patterns: \<open>bpf/codex_offsets.h\<close>, the BoringSSL
  search of \<open>bpf/sslsniff.c\<close> and the Chrome search of \<open>bpf/browsertrace.c\<close>. A binary is the list of
  its bytes. Offsets are natural numbers (a file is far smaller than \<open>2 ^ 64\<close>), \<open>(size_t)-1\<close> is
  \<open>None\<close>. The functions that read memory return an option whose \<open>None\<close> is a read outside the
  buffer. The locale \<open>pattern_finder\<close> is what the callers need of a search routine; the three
  routines of the code are its interpretations.
\<close>

section \<open>Memory access\<close>

text \<open>\<open>memcmp(data + off, pat, pat_len) == 0\<close>.\<close>

definition memcmp_eq :: "bytes \<Rightarrow> nat \<Rightarrow> bytes \<Rightarrow> bool option" where
  "memcmp_eq data off pat =
     (if off + length pat \<le> length data then Some (take (length pat) (drop off data) = pat) else None)"

text \<open>\<open>memchr(data + off, c, n)\<close>, the match as an index into \<open>data\<close>.\<close>

definition memchr :: "bytes \<Rightarrow> nat \<Rightarrow> char \<Rightarrow> nat \<Rightarrow> nat option option" where
  "memchr data off c n =
     (if off + n \<le> length data then Some (List.find (\<lambda>i. data ! i = c) [off..<off + n]) else None)"

text \<open>The results of successive calls of \<open>read\<close>: an error, \<open>EINTR\<close>, or data (none at the end of the file).\<close>

datatype read_result = ReadErr | ReadIntr | ReadData bytes

section \<open>The code: codex\_offsets.h\<close>

definition CODEX_MAX_RUSTLS_OFFSETS :: nat where
  "CODEX_MAX_RUSTLS_OFFSETS = 64"

record codex_rustls_offset =
  offset :: nat
  vectored :: bool

definition codex_rustls_write_prefix :: bytes where
  "codex_rustls_write_prefix = map char_of [
     0x41, 0x56, 0x53, 0x48, 0x83, 0xec, 0x48, 0x49,
     0x89, 0xfe, 0x48, 0x89, 0x74, 0x24, 0x10, 0x48,
     0x89, 0x54, 0x24, 0x18, 0x48, 0xc7, 0x44, 0x24,
     0x08, 0x00, 0x00, 0x00 :: nat]"

definition codex_rustls_writev_prefix :: bytes where
  "codex_rustls_writev_prefix = map char_of [
     0x55, 0x41, 0x57, 0x41, 0x56, 0x41, 0x55, 0x41,
     0x54, 0x53, 0x48, 0x83, 0xec, 0x68, 0x48, 0x85,
     0xd2, 0x74 :: nat]"

definition codex_rustls_writev_iov :: bytes where
  "codex_rustls_writev_iov = map char_of [
     0x49, 0x89, 0xfe, 0x48, 0x83, 0xfa, 0x01, 0x75 :: nat]"

definition codex_rustls_writev_copy :: bytes where
  "codex_rustls_writev_copy = map char_of [
     0xf3, 0x0f, 0x6f, 0x06, 0xf3, 0x0f, 0x7f, 0x44,
     0x24, 0x10 :: nat]"

definition grok_rustls_buffer_plaintext_prefix :: bytes where
  "grok_rustls_buffer_plaintext_prefix = map char_of [
     0x55, 0x41, 0x57, 0x41, 0x56, 0x41, 0x55, 0x41,
     0x54, 0x53, 0x48, 0x83, 0xec, 0x68, 0x49, 0x89,
     0xd6, 0x48, 0x89, 0xfd, 0x48, 0x8b, 0x9f, 0x08,
     0x03, 0x00, 0x00, 0x4c, 0x8b, 0xa7, 0x10, 0x03,
     0x00, 0x00, 0x4c, 0x8b, 0xaf, 0x18, 0x03, 0x00,
     0x00, 0x48, 0xb8, 0x00, 0x00, 0x00, 0x00, 0x00,
     0x00, 0x00, 0x80 :: nat]"

definition GROK_RUSTLS_OUTBOUND_TAG_OFFSET :: nat where
  "GROK_RUSTLS_OUTBOUND_TAG_OFFSET = 0xd7"

definition GROK_RUSTLS_OUTBOUND_RANGE_OFFSET :: nat where
  "GROK_RUSTLS_OUTBOUND_RANGE_OFFSET = 0xe7"

definition GROK_RUSTLS_OUTBOUND_DATA_OFFSET :: nat where
  "GROK_RUSTLS_OUTBOUND_DATA_OFFSET = 0x3f1"

definition grok_rustls_outbound_tag :: bytes where
  "grok_rustls_outbound_tag = map char_of [0x4c, 0x8b, 0x26 :: nat]"

definition grok_rustls_outbound_range :: bytes where
  "grok_rustls_outbound_range = map char_of [
     0x4c, 0x8b, 0x7e, 0x10, 0x48, 0x8b, 0x7e, 0x18,
     0x48, 0x89, 0xfb, 0x4c, 0x29, 0xfb, 0x4d, 0x85,
     0xe4, 0x49, 0x0f, 0x44, 0xdf :: nat]"

definition grok_rustls_outbound_data :: bytes where
  "grok_rustls_outbound_data = map char_of [
     0x48, 0x8b, 0x46, 0x08, 0x4d, 0x85, 0xe4, 0x74,
     0x1d, 0x4c, 0x8d, 0x3c, 0x3b :: nat]"

lemma memchr_range: "memchr data off c n = Some (Some m) \<Longrightarrow> off \<le> m \<and> m < off + n \<and> m < length data"
  by (auto simp: memchr_def find_Some_iff split: if_splits)

function codex_find_loop :: "bytes \<Rightarrow> bytes \<Rightarrow> nat \<Rightarrow> nat option option" where
  "codex_find_loop data pat off =
     (if off + length pat \<le> length data then
        (if pat = [] then None
         else case memchr data off (pat ! 0) (length data - off - length pat + 1) of
             None \<Rightarrow> None
           | Some None \<Rightarrow> Some None
           | Some (Some m) \<Rightarrow>
               (case memcmp_eq data m pat of
                  None \<Rightarrow> None
                | Some True \<Rightarrow> Some (Some m)
                | Some False \<Rightarrow> codex_find_loop data pat (m + 1)))
      else Some None)"
  by pat_completeness auto
termination
  by (relation "measure (\<lambda>(data, pat, off). length data - off)") (auto dest: memchr_range)

declare codex_find_loop.simps [simp del]

definition codex_find_pattern :: "bytes \<Rightarrow> bytes \<Rightarrow> nat option option" where
  "codex_find_pattern data pat = codex_find_loop data pat 0"

definition codex_add_rustls_offset ::
  "codex_rustls_offset list \<Rightarrow> nat \<Rightarrow> bool \<Rightarrow> bool \<times> codex_rustls_offset list" where
  "codex_add_rustls_offset out off vec =
     (if length out = CODEX_MAX_RUSTLS_OFFSETS then (False, out)
      else (True, out @ [\<lparr>offset = off, vectored = vec\<rparr>]))"

text \<open>The condition of the first loop of \<open>codex_find_rustls_offsets\<close>, evaluated left to right.\<close>

definition writev_blocks_ok :: "bytes \<Rightarrow> nat \<Rightarrow> bool option" where
  "writev_blocks_ok data off =
     (if off + 28 + length codex_rustls_writev_copy \<le> length data then
        do { a \<leftarrow> memcmp_eq data (off + 19) codex_rustls_writev_iov;
             if a then memcmp_eq data (off + 28) codex_rustls_writev_copy else Some False }
      else Some False)"

function writev_scan :: "bytes \<Rightarrow> nat \<Rightarrow> codex_rustls_offset list \<Rightarrow> codex_rustls_offset list option" where
  "writev_scan data search out =
     (if search + length codex_rustls_writev_prefix \<le> length data then
        (case codex_find_pattern (drop search data) codex_rustls_writev_prefix of
           None \<Rightarrow> None
         | Some None \<Rightarrow> Some out
         | Some (Some relative) \<Rightarrow>
             (case writev_blocks_ok data (search + relative) of
                None \<Rightarrow> None
              | Some ok \<Rightarrow>
                  let (added, out') = (if ok then codex_add_rustls_offset out (search + relative) True else (True, out))
                  in if added then writev_scan data (search + relative + 1) out' else Some out'))
      else Some out)"
  by pat_completeness auto
termination
  by (relation "measure (\<lambda>(data, search, out). length data - search)")
    (auto simp: codex_rustls_writev_prefix_def)

function write_scan :: "bytes \<Rightarrow> nat \<Rightarrow> codex_rustls_offset list \<Rightarrow> codex_rustls_offset list option" where
  "write_scan data search out =
     (if search + length codex_rustls_write_prefix \<le> length data then
        (case codex_find_pattern (drop search data) codex_rustls_write_prefix of
           None \<Rightarrow> None
         | Some None \<Rightarrow> Some out
         | Some (Some relative) \<Rightarrow>
             let (added, out') = codex_add_rustls_offset out (search + relative) False
             in if added then write_scan data (search + relative + 1) out' else Some out')
      else Some out)"
  by pat_completeness auto
termination
  by (relation "measure (\<lambda>(data, search, out). length data - search)")
    (auto simp: codex_rustls_write_prefix_def)

declare writev_scan.simps [simp del] write_scan.simps [simp del]

text \<open>
  The mapped file is the argument: \<open>None\<close> when it cannot be opened, examined or mapped. The result
  pairs the returned flag with \<open>out\<close>.
\<close>

definition codex_find_rustls_offsets :: "bytes option \<Rightarrow> (bool \<times> codex_rustls_offset list) option" where
  "codex_find_rustls_offsets file =
     (case file of
        None \<Rightarrow> Some (False, [])
      | Some data \<Rightarrow>
          if length data = 0 then Some (False, [])
          else do { out \<leftarrow> writev_scan data 0 [];
                    out \<leftarrow> write_scan data 0 out;
                    Some (0 < length out, out) })"

definition grok_find_rustls_buffer_plaintext_offset :: "bytes option \<Rightarrow> nat option option" where
  "grok_find_rustls_buffer_plaintext_offset file =
     (case file of
        None \<Rightarrow> Some None
      | Some data \<Rightarrow>
          if length data = 0 then Some None
          else do {
            found \<leftarrow> codex_find_pattern data grok_rustls_buffer_plaintext_prefix;
            (case found of
               None \<Rightarrow> Some None
             | Some off \<Rightarrow>
                 if length data < GROK_RUSTLS_OUTBOUND_DATA_OFFSET + length grok_rustls_outbound_data then Some None
                 else if length data - length grok_rustls_outbound_data - GROK_RUSTLS_OUTBOUND_DATA_OFFSET < off then Some None
                 else do {
                   a \<leftarrow> memcmp_eq data (off + GROK_RUSTLS_OUTBOUND_TAG_OFFSET) grok_rustls_outbound_tag;
                   if \<not> a then Some None else do {
                   b \<leftarrow> memcmp_eq data (off + GROK_RUSTLS_OUTBOUND_RANGE_OFFSET) grok_rustls_outbound_range;
                   if \<not> b then Some None else do {
                   c \<leftarrow> memcmp_eq data (off + GROK_RUSTLS_OUTBOUND_DATA_OFFSET) grok_rustls_outbound_data;
                   if \<not> c then Some None else Some (Some off) } } }) })"

definition codex_buf_contains :: "bytes \<Rightarrow> bytes \<Rightarrow> bool option" where
  "codex_buf_contains buf needle =
     (if 0 < length needle \<and> length needle \<le> length buf
      then do { r \<leftarrow> codex_find_pattern buf needle; Some (r \<noteq> None) }
      else Some False)"

text \<open>
  The loop of \<open>binary_has_rustls_markers\<close>: \<open>carry\<close> holds the last bytes of what was read before,
  at most 32 of them. \<open>marker_b\<close> is \<open>None\<close> for \<open>NULL\<close>.
\<close>

fun markers_loop :: "bytes \<Rightarrow> bytes option \<Rightarrow> read_result list \<Rightarrow> bytes \<Rightarrow> bool \<Rightarrow> bool \<Rightarrow> bool option" where
  "markers_loop a b [] carry has_agent has_rustls = Some False"
| "markers_loop a b (ReadErr # rs) carry has_agent has_rustls = Some False"
| "markers_loop a b (ReadIntr # rs) carry has_agent has_rustls = markers_loop a b rs carry has_agent has_rustls"
| "markers_loop a b (ReadData d # rs) carry has_agent has_rustls =
     (if d = [] then Some False
      else
        let buf = carry @ d in
        do { in_a \<leftarrow> codex_buf_contains buf a;
             in_b \<leftarrow> (if in_a then Some False
                      else case b of None \<Rightarrow> Some False | Some m \<Rightarrow> codex_buf_contains buf m);
             in_r \<leftarrow> codex_buf_contains buf ''rustls'';
             let agent = has_agent \<or> in_a \<or> in_b; rustls = has_rustls \<or> in_r in
             if agent \<and> rustls then Some True
             else markers_loop a b rs (drop (length buf - min (length buf) 32) buf) agent rustls })"

definition binary_has_rustls_markers :: "read_result list option \<Rightarrow> bytes \<Rightarrow> bytes option \<Rightarrow> bool option" where
  "binary_has_rustls_markers file a b =
     (case file of None \<Rightarrow> Some False | Some rs \<Rightarrow> markers_loop a b rs [] False False)"

definition codex_binary_has_tls_markers :: "read_result list option \<Rightarrow> bool option" where
  "codex_binary_has_tls_markers file = binary_has_rustls_markers file ''codex-cli'' (Some ''@openai/codex'')"

definition grok_binary_has_tls_markers :: "read_result list option \<Rightarrow> bool option" where
  "grok_binary_has_tls_markers file = binary_has_rustls_markers file ''grok-cli'' None"

section \<open>The code: sslsniff.c\<close>

record boringssl_offsets =
  ssl_write :: nat
  ssl_read :: nat
  ssl_do_handshake :: nat
  write_is_ex :: bool
  read_is_ex :: bool
  found :: bool
  source :: bytes

fun find_pattern_loop :: "bytes \<Rightarrow> bytes \<Rightarrow> nat list \<Rightarrow> nat option option" where
  "find_pattern_loop data pat [] = Some None"
| "find_pattern_loop data pat (i # is) =
     (case memcmp_eq data i pat of
        None \<Rightarrow> None
      | Some True \<Rightarrow> Some (Some i)
      | Some False \<Rightarrow> find_pattern_loop data pat is)"

definition find_pattern :: "bytes \<Rightarrow> bytes \<Rightarrow> nat option option" where
  "find_pattern data pat =
     (if length data < length pat then Some None
      else find_pattern_loop data pat [0..<length data - length pat + 1])"

definition handshake_pat :: bytes where
  "handshake_pat = map char_of [
     0x55, 0x48, 0x89, 0xe5, 0x41, 0x57, 0x41, 0x56,
     0x41, 0x55, 0x41, 0x54, 0x53, 0x48, 0x83, 0xec,
     0x28, 0x49, 0x89, 0xfc, 0x48, 0x8b, 0x47, 0x30 :: nat]"

definition read_pat :: bytes where
  "read_pat = map char_of [
     0x55, 0x48, 0x89, 0xe5, 0x41, 0x57, 0x41, 0x56,
     0x53, 0x50, 0x48, 0x83, 0xbf, 0x98, 0x00, 0x00,
     0x00, 0x00, 0x74 :: nat]"

definition write_pat :: bytes where
  "write_pat = map char_of [
     0x55, 0x48, 0x89, 0xe5, 0x41, 0x57, 0x41, 0x56,
     0x41, 0x55, 0x41, 0x54, 0x53, 0x48, 0x83, 0xec,
     0x18, 0x41, 0x89, 0xd7, 0x49, 0x89, 0xf6, 0x48,
     0x89, 0xfb :: nat]"

definition READ_HANDSHAKE_DELTA :: nat where
  "READ_HANDSHAKE_DELTA = 0x6F0"

definition WRITE_READ_DELTA :: nat where
  "WRITE_READ_DELTA = 0xCA0"

definition no_offsets :: boringssl_offsets where
  "no_offsets = \<lparr>ssl_write = 0, ssl_read = 0, ssl_do_handshake = 0,
     write_is_ex = False, read_is_ex = False, found = False, source = []\<rparr>"

text \<open>Filling the buffer with \<open>read\<close>; \<open>None\<close> for a read error or a file that became shorter.\<close>

fun read_fully :: "nat \<Rightarrow> read_result list \<Rightarrow> bytes \<Rightarrow> bytes option" where
  "read_fully file_size [] data = (if length data < file_size then None else Some data)"
| "read_fully file_size (r # rs) data =
     (if length data < file_size then
        (case r of
           ReadErr \<Rightarrow> None
         | ReadIntr \<Rightarrow> read_fully file_size rs data
         | ReadData d \<Rightarrow>
             if d = [] then None
             else read_fully file_size rs (data @ take (file_size - length data) d))
      else Some data)"

text \<open>The part of \<open>find_boringssl_offsets\<close> that locates \<open>SSL_do_handshake\<close>; the flag is \<open>env.handshake\<close>, \<open>None\<close> the exit to \<open>out\<close>.\<close>

definition locate_handshake :: "bool \<Rightarrow> bytes \<Rightarrow> nat \<Rightarrow> nat option option" where
  "locate_handshake env_handshake data read_off =
     do { near \<leftarrow> (if READ_HANDSHAKE_DELTA \<le> read_off
                   then do { m \<leftarrow> memcmp_eq data (read_off - READ_HANDSHAKE_DELTA) handshake_pat;
                             Some (if m then read_off - READ_HANDSHAKE_DELTA else 0) }
                   else Some 0);
          if near = 0 then
            do { hs_off \<leftarrow> find_pattern data handshake_pat;
                 Some (case hs_off of Some off \<Rightarrow> Some off | None \<Rightarrow> if env_handshake then None else Some 0) }
          else Some (Some near) }"

definition locate_write :: "bytes \<Rightarrow> nat \<Rightarrow> nat option option" where
  "locate_write data read_off =
     (let file_size = length data; expected_wr = read_off + WRITE_READ_DELTA in
      do { near \<leftarrow> (if expected_wr + length write_pat \<le> file_size then memcmp_eq data expected_wr write_pat
                    else Some False);
           if near then Some (Some expected_wr)
           else
             let search_start = (if 0x10000 < read_off then read_off - 0x10000 else 0);
                 search_end = min (read_off + 0x10000) file_size in
             do { wr_off \<leftarrow> find_pattern (take (search_end - search_start) (drop search_start data)) write_pat;
                  Some (map_option (\<lambda>w. search_start + w) wr_off) } })"

text \<open>
  \<open>st_size\<close> is \<open>None\<close> when the file cannot be opened or examined, or the buffer cannot be
  allocated; \<open>reads\<close> are the results of the \<open>read\<close> calls.
\<close>

definition find_boringssl_offsets :: "bool \<Rightarrow> nat option \<Rightarrow> read_result list \<Rightarrow> boringssl_offsets option" where
  "find_boringssl_offsets env_handshake st_size reads =
     (case st_size of
        None \<Rightarrow> Some no_offsets
      | Some file_size \<Rightarrow>
          if file_size = 0 then Some no_offsets
          else (case read_fully file_size reads [] of
              None \<Rightarrow> Some no_offsets
            | Some data \<Rightarrow>
                do { r \<leftarrow> find_pattern data read_pat;
                     (case r of
                        None \<Rightarrow> Some no_offsets
                      | Some read_off \<Rightarrow>
                          do { h \<leftarrow> locate_handshake env_handshake data read_off;
                               (case h of
                                  None \<Rightarrow> Some no_offsets
                                | Some hs \<Rightarrow>
                                    do { w \<leftarrow> locate_write data read_off;
                                         Some (case w of
                                             None \<Rightarrow> no_offsets\<lparr>ssl_do_handshake := hs, ssl_read := read_off\<rparr>
                                           | Some wr \<Rightarrow>
                                               \<lparr>ssl_write = wr, ssl_read = read_off, ssl_do_handshake = hs,
                                                write_is_ex = False, read_is_ex = False, found = True,
                                                source = ''BoringSSL byte-pattern''\<rparr>) }) }) }))"

section \<open>The code: browsertrace.c\<close>

fun mask_loop :: "bytes \<Rightarrow> nat \<Rightarrow> bytes \<Rightarrow> bytes \<Rightarrow> nat list \<Rightarrow> bool option" where
  "mask_loop data i pat msk [] = Some True"
| "mask_loop data i pat msk (j # js) =
     (if msk ! j = CHR ''x'' then
        (if i + j < length data then
           (if data ! (i + j) \<noteq> pat ! j then Some False else mask_loop data i pat msk js)
         else None)
      else mask_loop data i pat msk js)"

fun masked_loop :: "bytes \<Rightarrow> bytes \<Rightarrow> bytes \<Rightarrow> nat list \<Rightarrow> nat option option" where
  "masked_loop data pat msk [] = Some None"
| "masked_loop data pat msk (i # is) =
     (case mask_loop data i pat msk [0..<length pat] of
        None \<Rightarrow> None
      | Some True \<Rightarrow> Some (Some i)
      | Some False \<Rightarrow> masked_loop data pat msk is)"

definition find_masked_pattern :: "bytes \<Rightarrow> bytes \<Rightarrow> bytes \<Rightarrow> nat option option" where
  "find_masked_pattern data pat msk =
     (if length data < length pat \<or> length msk \<noteq> length pat then Some None
      else masked_loop data pat msk [0..<length data - length pat + 1])"

record chrome_plaintext_offsets =
  request_copy_1 :: "nat option"
  request_copy_2 :: "nat option"
  request_copy_3 :: "nat option"
  response_copy :: "nat option"
  chrome_found :: bool

definition request_copy_1_pat :: bytes where
  "request_copy_1_pat = map char_of [
     0x4c, 0x89, 0xe7, 0x4c, 0x89, 0xf6, 0x4c, 0x89,
     0xfa, 0xe8, 0x00, 0x00, 0x00, 0x00, 0x43, 0xc6,
     0x04, 0x3c, 0x00, 0x48, 0x8d, 0x5d, 0xb8, 0x80,
     0x7b, 0x17, 0x00 :: nat]"

definition request_copy_1_mask :: bytes where
  "request_copy_1_mask = ''xxxxxxxxxx????xxxxxxxxxxxxx''"

definition request_copy_2_pat :: bytes where
  "request_copy_2_pat = map char_of [
     0x4c, 0x89, 0xf7, 0x48, 0x89, 0xde, 0x4c, 0x89,
     0xea, 0xe8, 0x00, 0x00, 0x00, 0x00, 0x43, 0xc6,
     0x04, 0x2e, 0x00, 0x49, 0xbd, 0xf6, 0xff, 0xff,
     0xff, 0xff, 0xff, 0xff, 0x7f :: nat]"

definition request_copy_2_mask :: bytes where
  "request_copy_2_mask = ''xxxxxxxxxx????xxxxxxxxxxxxxxx''"

definition request_copy_3_pat :: bytes where
  "request_copy_3_pat = map char_of [
     0x48, 0x89, 0xdf, 0x4c, 0x89, 0xe6, 0x4c, 0x89,
     0xfa, 0xe8, 0x00, 0x00, 0x00, 0x00, 0x42, 0xc6,
     0x04, 0x3b, 0x00, 0x4c, 0x8b, 0x65, 0x90, 0x4d,
     0x8b, 0x7c, 0x24, 0x08 :: nat]"

definition request_copy_3_mask :: bytes where
  "request_copy_3_mask = ''xxxxxxxxxx????xxxxxxxxxxxxxx''"

definition response_copy_pat :: bytes where
  "response_copy_pat = map char_of [
     0x48, 0x8b, 0xb0, 0x80, 0x00, 0x00, 0x00, 0x48,
     0x8b, 0x7d, 0xb8, 0x4c, 0x89, 0xfa, 0xe8, 0x00,
     0x00, 0x00, 0x00, 0x49, 0x8b, 0x46, 0x30, 0x48,
     0x8b, 0x88, 0x88, 0x00, 0x00, 0x00 :: nat]"

definition response_copy_mask :: bytes where
  "response_copy_mask = ''xxxxxxxxxxxxxxx????xxxxxxxxxxx''"

definition find_chrome_plaintext_offsets :: "bytes option \<Rightarrow> chrome_plaintext_offsets option" where
  "find_chrome_plaintext_offsets file =
     (case file of
        None \<Rightarrow> Some \<lparr>request_copy_1 = Some 0, request_copy_2 = Some 0, request_copy_3 = Some 0,
                      response_copy = Some 0, chrome_found = False\<rparr>
      | Some data \<Rightarrow>
          do { r1 \<leftarrow> find_masked_pattern data request_copy_1_pat request_copy_1_mask;
               r2 \<leftarrow> find_masked_pattern data request_copy_2_pat request_copy_2_mask;
               r3 \<leftarrow> find_masked_pattern data request_copy_3_pat request_copy_3_mask;
               r4 \<leftarrow> find_masked_pattern data response_copy_pat response_copy_mask;
               Some \<lparr>request_copy_1 = map_option (\<lambda>o1. o1 + 9) r1,
                     request_copy_2 = map_option (\<lambda>o2. o2 + 9) r2,
                     request_copy_3 = map_option (\<lambda>o3. o3 + 9) r3,
                     response_copy = map_option (\<lambda>o4. o4 + 14) r4,
                     chrome_found = (r1 \<noteq> None \<and> r2 \<noteq> None \<and> r3 \<noteq> None \<and> r4 \<noteq> None)\<rparr> })"

section \<open>Searching for a pattern\<close>

text \<open>An exact and a masked occurrence of a pattern at an offset.\<close>

definition pat_at :: "bytes \<Rightarrow> bytes \<Rightarrow> nat \<Rightarrow> bool" where
  "pat_at pat data i \<longleftrightarrow> i + length pat \<le> length data \<and> take (length pat) (drop i data) = pat"

definition masked_at :: "bytes \<Rightarrow> bytes \<Rightarrow> bytes \<Rightarrow> nat \<Rightarrow> bool" where
  "masked_at pat msk data i \<longleftrightarrow> length msk = length pat \<and> i + length pat \<le> length data \<and>
     (\<forall>j<length pat. msk ! j = CHR ''x'' \<longrightarrow> data ! (i + j) = pat ! j)"

definition first_masked_at :: "bytes \<Rightarrow> bytes \<Rightarrow> bytes \<Rightarrow> nat \<Rightarrow> bool" where
  "first_masked_at pat msk data i \<longleftrightarrow> masked_at pat msk data i \<and> (\<forall>j<i. \<not> masked_at pat msk data j)"

locale pattern_finder =
  fixes search :: "bytes \<Rightarrow> nat option option"
    and occurs :: "bytes \<Rightarrow> nat \<Rightarrow> bool"
  assumes search_Some: "search d = Some (Some i) \<Longrightarrow> occurs d i \<and> (\<forall>j<i. \<not> occurs d j)"
    and search_None: "search d = Some None \<Longrightarrow> \<not> occurs d i"
    and search_safe: "search d \<noteq> None"
    and occurs_drop: "k \<le> length d \<Longrightarrow> occurs (drop k d) i \<longleftrightarrow> occurs d (k + i)"
    and occurs_bound: "occurs d i \<Longrightarrow> i < length d"
begin

lemma search_iff: "search d = Some r \<longleftrightarrow>
    (case r of None \<Rightarrow> \<forall>i. \<not> occurs d i | Some i \<Rightarrow> occurs d i \<and> (\<forall>j<i. \<not> occurs d j))"
proof -
  obtain r' where r': "search d = Some r'" using search_safe by auto
  show ?thesis
  proof (cases r')
    case None
    then show ?thesis using r' search_None by (auto split: option.splits)
  next
    case (Some i)
    then show ?thesis
      using r' search_Some[of d i] by (auto split: option.splits) (metis linorder_neqE_nat)
  qed
qed

lemma search_complete: "occurs d i \<Longrightarrow> \<exists>j. search d = Some (Some j) \<and> j \<le> i"
  using search_safe[of d] search_None[of d i] search_Some[of d]
  by (cases "search d"; cases "the (search d)") (auto simp: not_less[symmetric])

text \<open>One round of a loop that collects the occurrences from position \<open>s\<close> on.\<close>

lemma scan_stop:
  assumes "s \<le> length d" "search (drop s d) = Some None"
  shows "filter (\<lambda>i. occurs d i \<and> Q i) [s..<length d] = []"
  using assms search_None[of "drop s d"] occurs_drop[of s d]
  by (auto simp: filter_empty_conv dest!: le_Suc_ex)

lemma scan_step:
  assumes "s \<le> length d" "search (drop s d) = Some (Some r)"
  shows "filter (\<lambda>i. occurs d i \<and> Q i) [s..<length d] =
    (if Q (s + r) then [s + r] else []) @ filter (\<lambda>i. occurs d i \<and> Q i) [s + r + 1..<length d]"
proof -
  have o: "occurs d (s + r)" "\<And>j. j < r \<Longrightarrow> \<not> occurs d (s + j)"
    using search_Some[OF assms(2)] occurs_drop[OF assms(1)] by auto
  have "s + r < length d" using occurs_bound[OF o(1)] .
  then have "[s..<length d] = [s..<s + r] @ (s + r) # [s + r + 1..<length d]"
    by (intro upt_split) simp_all
  moreover have "filter (\<lambda>i. occurs d i \<and> Q i) [s..<s + r] = []"
    using o(2) by (auto simp: filter_empty_conv dest!: le_Suc_ex)
  ultimately show ?thesis using o(1) by simp
qed

end

lemma memcmp_pat_at: "memcmp_eq data i pat = (if i + length pat \<le> length data then Some (pat_at pat data i) else None)"
  by (simp add: memcmp_eq_def pat_at_def)

lemma pat_at_drop: "k \<le> length d \<Longrightarrow> pat_at pat (drop k d) i \<longleftrightarrow> pat_at pat d (k + i)"
  by (auto simp: pat_at_def add.commute)

lemma pat_at_hd: "pat_at pat data i \<Longrightarrow> pat \<noteq> [] \<Longrightarrow> data ! i = pat ! 0"
  by (cases pat) (auto simp: pat_at_def dest: arg_cong[of _ _ "\<lambda>xs. xs ! 0"])

text \<open>The \<open>memchr\<close> search finds the first occurrence at or after \<open>off\<close>.\<close>

lemma codex_find_loop_correct:
  assumes "pat \<noteq> []"
  shows "case codex_find_loop data pat off of
      None \<Rightarrow> False
    | Some None \<Rightarrow> \<forall>i\<ge>off. \<not> pat_at pat data i
    | Some (Some m) \<Rightarrow> off \<le> m \<and> pat_at pat data m \<and> (\<forall>i. off \<le> i \<longrightarrow> i < m \<longrightarrow> \<not> pat_at pat data i)"
  using assms
proof (induction data pat off rule: codex_find_loop.induct)
  case (1 data pat off)
  show ?case
  proof (cases "off + length pat \<le> length data")
    case False
    then show ?thesis by (subst codex_find_loop.simps) (auto simp: pat_at_def)
  next
    case True
    let ?n = "length data - off - length pat + 1"
    have n: "off + ?n \<le> length data" using True 1(2) by (cases pat) auto
    show ?thesis
    proof (cases "List.find (\<lambda>i. data ! i = pat ! 0) [off..<off + ?n]")
      case None
      then have "\<forall>i\<ge>off. \<not> pat_at pat data i"
        using pat_at_hd[of pat data] 1(2) by (fastforce simp: find_None_iff pat_at_def)
      with None True n 1(2) show ?thesis
        by (subst codex_find_loop.simps) (simp add: memchr_def)
    next
      case (Some m)
      note m = find_from_SomeD[OF Some]
      have skip: "\<And>j. off \<le> j \<Longrightarrow> j < m \<Longrightarrow> \<not> pat_at pat data j"
        using m(4) pat_at_hd[of pat data] 1(2) by blast
      have ml: "m + length pat \<le> length data" using m(2) True by linarith
      have mc: "memchr data off (pat ! 0) ?n = Some (Some m)" using Some n by (simp add: memchr_def)
      show ?thesis
      proof (cases "pat_at pat data m")
        case hit: True
        then have "codex_find_loop data pat off = Some (Some m)"
          using True 1(2) mc ml by (subst codex_find_loop.simps) (simp add: memcmp_pat_at)
        with hit m skip show ?thesis by simp
      next
        case miss: False
        then have eq: "codex_find_loop data pat off = codex_find_loop data pat (m + 1)"
          using True 1(2) mc ml by (subst codex_find_loop.simps) (simp add: memcmp_pat_at)
        have skip': "\<not> pat_at pat data i" if "off \<le> i" "i < m + 1" for i
          using that skip miss by (metis less_Suc_eq Suc_eq_plus1)
        have "memcmp_eq data m pat = Some False" using miss ml by (simp add: memcmp_pat_at)
        note ih = "1.IH"[OF True 1(2) mc refl this refl 1(2)]
        show ?thesis
        proof (cases "codex_find_loop data pat (m + 1)")
          case None
          then show ?thesis using ih by simp
        next
          case (Some r)
          then show ?thesis
            using ih skip' m(1) unfolding eq by (cases r) (auto simp: not_less[symmetric])
        qed
      qed
    qed
  qed
qed

lemma codex_finder: "pat \<noteq> [] \<Longrightarrow> pattern_finder (\<lambda>d. codex_find_pattern d pat) (pat_at pat)"
proof unfold_locales
  assume p: "pat \<noteq> []"
  note c = codex_find_loop_correct[OF p, where off = 0, folded codex_find_pattern_def]
  fix d i k
  show "codex_find_pattern d pat = Some (Some i) \<Longrightarrow> pat_at pat d i \<and> (\<forall>j<i. \<not> pat_at pat d j)"
    using c[of d] by simp
  show "codex_find_pattern d pat = Some None \<Longrightarrow> \<not> pat_at pat d i"
    using c[of d] by simp
  show "codex_find_pattern d pat \<noteq> None" using c[of d] by (cases "codex_find_pattern d pat") auto
  show "k \<le> length d \<Longrightarrow> pat_at pat (drop k d) i = pat_at pat d (k + i)" by (rule pat_at_drop)
  show "pat_at pat d i \<Longrightarrow> i < length d" using p by (cases pat) (auto simp: pat_at_def)
qed

lemma find_pattern_loop_find:
  "\<forall>i\<in>set is. i + length pat \<le> length data \<Longrightarrow>
     find_pattern_loop data pat is = Some (List.find (pat_at pat data) is)"
  by (induction "is") (simp_all add: memcmp_pat_at)

lemma mask_loop_all:
  "\<forall>j\<in>set js. i + j < length data \<Longrightarrow>
     mask_loop data i pat msk js = Some (\<forall>j\<in>set js. msk ! j = CHR ''x'' \<longrightarrow> data ! (i + j) = pat ! j)"
  by (induction js) auto

lemma masked_loop_find:
  "\<forall>i\<in>set is. i + length pat \<le> length data \<Longrightarrow> length msk = length pat \<Longrightarrow>
     masked_loop data pat msk is = Some (List.find (masked_at pat msk data) is)"
proof (induction "is")
  case (Cons i "is")
  then have "mask_loop data i pat msk [0..<length pat] = Some (masked_at pat msk data i)"
    by (subst mask_loop_all) (auto simp: masked_at_def)
  with Cons show ?case by simp
qed simp

text \<open>A search that tries every offset up to the last possible one.\<close>

lemma linear_finder:
  assumes s: "\<And>d. search d = Some (if length d < n then None else List.find (occ d) [0..<length d - n + 1])"
    and drop: "\<And>d i k. k \<le> length d \<Longrightarrow> occ (drop k d) i = occ d (k + i)"
    and bound: "\<And>d i. occ d i \<Longrightarrow> i + n \<le> length d" and n: "0 < n"
  shows "pattern_finder search occ"
proof unfold_locales
  fix d i k
  show "occ d i \<and> (\<forall>j<i. \<not> occ d j)" if "search d = Some (Some i)"
  proof -
    have "List.find (occ d) [0..<length d - n + 1] = Some i"
      using that unfolding s by (simp only: option.inject option.distinct split: if_splits)
    from find_upt_SomeD[OF this] show ?thesis by blast
  qed
  show "\<not> occ d i" if "search d = Some None"
  proof
    assume o: "occ d i"
    then have "n \<le> length d" "i < length d - n + 1" using bound[of d i] by simp_all
    moreover from this have "List.find (occ d) [0..<length d - n + 1] = None"
      using that unfolding s by (simp only: option.inject split: if_splits)
    ultimately show False using find_upt_NoneD o by metis
  qed
  show "search d \<noteq> None" by (simp add: s)
  show "k \<le> length d \<Longrightarrow> occ (drop k d) i = occ d (k + i)" by (rule drop)
  show "occ d i \<Longrightarrow> i < length d" using bound[of d i] n by simp
qed

lemma find_pattern_eq:
  "find_pattern d pat = Some (if length d < length pat then None else List.find (pat_at pat d) [0..<length d - length pat + 1])"
proof -
  have "\<forall>i\<in>set [0..<length d - length pat + 1]. i + length pat \<le> length d" if "\<not> length d < length pat"
    using that by auto
  then show ?thesis unfolding find_pattern_def using find_pattern_loop_find by auto
qed

lemma find_masked_pattern_eq:
  assumes "length msk = length pat"
  shows "find_masked_pattern d pat msk =
    Some (if length d < length pat then None else List.find (masked_at pat msk d) [0..<length d - length pat + 1])"
proof -
  have "\<forall>i\<in>set [0..<length d - length pat + 1]. i + length pat \<le> length d" if "\<not> length d < length pat"
    using that by auto
  then show ?thesis unfolding find_masked_pattern_def using masked_loop_find[OF _ assms] assms by auto
qed

lemma find_pattern_finder: "pat \<noteq> [] \<Longrightarrow> pattern_finder (\<lambda>d. find_pattern d pat) (pat_at pat)"
  by (rule linear_finder[OF find_pattern_eq pat_at_drop]) (auto simp: pat_at_def)

lemma masked_finder:
  "pat \<noteq> [] \<Longrightarrow> length msk = length pat \<Longrightarrow>
     pattern_finder (\<lambda>d. find_masked_pattern d pat msk) (masked_at pat msk)"
  by (rule linear_finder[OF find_masked_pattern_eq]) (auto simp: masked_at_def add.assoc)

interpretation writev: pattern_finder "\<lambda>d. codex_find_pattern d codex_rustls_writev_prefix" "pat_at codex_rustls_writev_prefix"
  by (rule codex_finder) (simp add: codex_rustls_writev_prefix_def)

interpretation rwrite: pattern_finder "\<lambda>d. codex_find_pattern d codex_rustls_write_prefix" "pat_at codex_rustls_write_prefix"
  by (rule codex_finder) (simp add: codex_rustls_write_prefix_def)

interpretation grok: pattern_finder "\<lambda>d. codex_find_pattern d grok_rustls_buffer_plaintext_prefix"
    "pat_at grok_rustls_buffer_plaintext_prefix"
  by (rule codex_finder) (simp add: grok_rustls_buffer_plaintext_prefix_def)

interpretation bread: pattern_finder "\<lambda>d. find_pattern d read_pat" "pat_at read_pat"
  by (rule find_pattern_finder) (simp add: read_pat_def)

interpretation bwrite: pattern_finder "\<lambda>d. find_pattern d write_pat" "pat_at write_pat"
  by (rule find_pattern_finder) (simp add: write_pat_def)

interpretation bhand: pattern_finder "\<lambda>d. find_pattern d handshake_pat" "pat_at handshake_pat"
  by (rule find_pattern_finder) (simp add: handshake_pat_def)

interpretation req1: pattern_finder "\<lambda>d. find_masked_pattern d request_copy_1_pat request_copy_1_mask"
    "masked_at request_copy_1_pat request_copy_1_mask"
  by (rule masked_finder) (simp_all add: request_copy_1_pat_def request_copy_1_mask_def)

interpretation req2: pattern_finder "\<lambda>d. find_masked_pattern d request_copy_2_pat request_copy_2_mask"
    "masked_at request_copy_2_pat request_copy_2_mask"
  by (rule masked_finder) (simp_all add: request_copy_2_pat_def request_copy_2_mask_def)

interpretation req3: pattern_finder "\<lambda>d. find_masked_pattern d request_copy_3_pat request_copy_3_mask"
    "masked_at request_copy_3_pat request_copy_3_mask"
  by (rule masked_finder) (simp_all add: request_copy_3_pat_def request_copy_3_mask_def)

interpretation resp: pattern_finder "\<lambda>d. find_masked_pattern d response_copy_pat response_copy_mask"
    "masked_at response_copy_pat response_copy_mask"
  by (rule masked_finder) (simp_all add: response_copy_pat_def response_copy_mask_def)

section \<open>The rustls call sites\<close>

definition writev_site :: "bytes \<Rightarrow> nat \<Rightarrow> bool" where
  "writev_site data i \<longleftrightarrow> pat_at codex_rustls_writev_iov data (i + 19) \<and> pat_at codex_rustls_writev_copy data (i + 28)"

definition rustls_sites :: "bytes \<Rightarrow> codex_rustls_offset list" where
  "rustls_sites data =
     map (\<lambda>i. \<lparr>offset = i, vectored = True\<rparr>)
       (filter (\<lambda>i. pat_at codex_rustls_writev_prefix data i \<and> writev_site data i) [0..<length data]) @
     map (\<lambda>i. \<lparr>offset = i, vectored = False\<rparr>)
       (filter (\<lambda>i. pat_at codex_rustls_write_prefix data i) [0..<length data])"

lemma writev_blocks_ok_eq: "writev_blocks_ok data i = Some (writev_site data i)"
proof (cases "i + 28 + length codex_rustls_writev_copy \<le> length data")
  case True
  then have "i + 19 + length codex_rustls_writev_iov \<le> length data"
    by (simp add: codex_rustls_writev_iov_def codex_rustls_writev_copy_def)
  with True show ?thesis
    by (simp add: writev_blocks_ok_def memcmp_pat_at writev_site_def)
next
  case False
  then show ?thesis by (auto simp: writev_blocks_ok_def writev_site_def pat_at_def)
qed

abbreviation max_offsets :: nat where
  "max_offsets \<equiv> CODEX_MAX_RUSTLS_OFFSETS"

lemma writev_scan_sites:
  assumes "s \<le> length data" "length out \<le> max_offsets"
  shows "writev_scan data s out = Some (take max_offsets (out @ map (\<lambda>i. \<lparr>offset = i, vectored = True\<rparr>)
    (filter (\<lambda>i. pat_at codex_rustls_writev_prefix data i \<and> writev_site data i) [s..<length data])))"
  using assms
proof (induction data s out rule: writev_scan.induct)
  case (1 data s out)
  let ?f = "codex_find_pattern (drop s data) codex_rustls_writev_prefix"
  obtain r where r: "?f = Some r" using writev.search_safe by blast
  show ?case
  proof (cases "s + length codex_rustls_writev_prefix \<le> length data")
    case False
    then have "filter (\<lambda>i. pat_at codex_rustls_writev_prefix data i \<and> writev_site data i) [s..<length data] = []"
      by (auto simp: filter_empty_conv pat_at_def)
    then show ?thesis using False "1.prems" by (subst writev_scan.simps) simp
  next
    case guard: True
    show ?thesis
    proof (cases r)
      case None
      then show ?thesis
        using r guard "1.prems" writev.scan_stop[of s data "writev_site data"]
        by (subst writev_scan.simps) simp
    next
      case (Some p)
      note f = r[unfolded Some]
      note step = writev.scan_step[OF "1.prems"(1) f, of "writev_site data"]
      have "pat_at codex_rustls_writev_prefix (drop s data) p" using writev.search_Some[OF f] by blast
      then have p: "s + p + 1 \<le> length data" using writev.occurs_bound[of "drop s data" p] by simp
      let ?add = "if writev_site data (s + p) then codex_add_rustls_offset out (s + p) True else (True, out)"
      have unf: "writev_scan data s out =
          (if fst ?add then writev_scan data (s + p + 1) (snd ?add) else Some (snd ?add))"
        using guard f by (subst writev_scan.simps) (simp add: writev_blocks_ok_eq case_prod_beta Let_def)
      show ?thesis
      proof (cases "fst ?add")
        case True
        then have "length (snd ?add) \<le> max_offsets"
          using "1.prems"(2) by (auto simp: codex_add_rustls_offset_def split: if_splits)
        from "1.IH"[OF guard f refl writev_blocks_ok_eq refl prod.collapse True p this]
        show ?thesis unfolding unf step using True by (auto simp: codex_add_rustls_offset_def simp del: take_append split: if_splits)
      next
        case False
        then show ?thesis unfolding unf step by (auto simp: codex_add_rustls_offset_def split: if_splits)
      qed
    qed
  qed
qed

lemma write_scan_sites:
  assumes "s \<le> length data" "length out \<le> max_offsets"
  shows "write_scan data s out = Some (take max_offsets (out @ map (\<lambda>i. \<lparr>offset = i, vectored = False\<rparr>)
    (filter (\<lambda>i. pat_at codex_rustls_write_prefix data i) [s..<length data])))"
  using assms
proof (induction data s out rule: write_scan.induct)
  case (1 data s out)
  let ?f = "codex_find_pattern (drop s data) codex_rustls_write_prefix"
  obtain r where r: "?f = Some r" using rwrite.search_safe by blast
  show ?case
  proof (cases "s + length codex_rustls_write_prefix \<le> length data")
    case False
    then have "filter (\<lambda>i. pat_at codex_rustls_write_prefix data i) [s..<length data] = []"
      by (auto simp: filter_empty_conv pat_at_def)
    then show ?thesis using False "1.prems" by (subst write_scan.simps) simp
  next
    case guard: True
    show ?thesis
    proof (cases r)
      case None
      then show ?thesis
        using r guard "1.prems" rwrite.scan_stop[of s data "\<lambda>_. True"]
        by (subst write_scan.simps) simp
    next
      case (Some p)
      note f = r[unfolded Some]
      note step = rwrite.scan_step[OF "1.prems"(1) f, of "\<lambda>_. True", simplified]
      have "pat_at codex_rustls_write_prefix (drop s data) p" using rwrite.search_Some[OF f] by blast
      then have p: "s + p + 1 \<le> length data" using rwrite.occurs_bound[of "drop s data" p] by simp
      let ?add = "codex_add_rustls_offset out (s + p) False"
      have unf: "write_scan data s out =
          (if fst ?add then write_scan data (s + p + 1) (snd ?add) else Some (snd ?add))"
        using guard f by (subst write_scan.simps) (simp add: case_prod_beta Let_def)
      show ?thesis
      proof (cases "fst ?add")
        case True
        then have "length (snd ?add) \<le> max_offsets"
          using "1.prems"(2) by (auto simp: codex_add_rustls_offset_def split: if_splits)
        from "1.IH"[OF guard f refl refl prod.collapse True p this]
        show ?thesis unfolding unf step using True by (auto simp: codex_add_rustls_offset_def simp del: take_append split: if_splits)
      next
        case False
        then show ?thesis unfolding unf step by (auto simp: codex_add_rustls_offset_def split: if_splits)
      qed
    qed
  qed
qed

section \<open>Markers across chunk boundaries\<close>

text \<open>What a run of \<open>read\<close> calls delivers before the end of the file or an error.\<close>

fun read_data :: "read_result list \<Rightarrow> bytes" where
  "read_data [] = []"
| "read_data (ReadErr # rs) = []"
| "read_data (ReadIntr # rs) = read_data rs"
| "read_data (ReadData d # rs) = (if d = [] then [] else d @ read_data rs)"

definition contains :: "bytes \<Rightarrow> bytes \<Rightarrow> bool" where
  "contains s w \<longleftrightarrow> w \<noteq> [] \<and> sublist w s"

definition contains_any :: "bytes \<Rightarrow> bytes \<Rightarrow> bytes option \<Rightarrow> bool" where
  "contains_any s a b \<longleftrightarrow> contains s a \<or> (\<exists>m. b = Some m \<and> contains s m)"

abbreviation last32 :: "bytes \<Rightarrow> bytes" where
  "last32 s \<equiv> drop (length s - 32) s"

lemma pat_at_sublist: "(\<exists>i. pat_at w s i) \<longleftrightarrow> sublist w s"
proof
  assume "\<exists>i. pat_at w s i"
  then obtain i where "take (length w) (drop i s) = w" by (auto simp: pat_at_def)
  then have "s = take i s @ w @ drop (length w) (drop i s)" by (metis append_take_drop_id)
  then show "sublist w s" by (metis sublist_def)
next
  assume "sublist w s"
  then obtain ps ss where "s = ps @ w @ ss" by (auto simp: sublist_def)
  then have "pat_at w s (length ps)" by (simp add: pat_at_def)
  then show "\<exists>i. pat_at w s i" ..
qed

lemma codex_buf_contains_eq: "codex_buf_contains buf w = Some (contains buf w)"
proof (cases "w = []")
  case False
  then have pf: "pattern_finder (\<lambda>d. codex_find_pattern d w) (pat_at w)" by (rule codex_finder)
  obtain r where r: "codex_find_pattern buf w = Some r"
    using pattern_finder.search_safe[OF pf] by blast
  have "r \<noteq> None \<longleftrightarrow> (\<exists>i. pat_at w buf i)"
    using r pattern_finder.search_iff[OF pf, of buf r] by (auto split: option.splits)
  moreover have "sublist w buf \<Longrightarrow> length w \<le> length buf" by (rule sublist_length_le)
  ultimately show ?thesis
    using False r by (auto simp: codex_buf_contains_def contains_def pat_at_sublist)
qed (simp add: codex_buf_contains_def contains_def)

lemma contains_append: "contains s w \<Longrightarrow> contains (s @ t) w" "contains t w \<Longrightarrow> contains (s @ t) w"
  by (auto simp: contains_def sublist_append)

lemma contains_chunk:
  assumes "length w \<le> 33"
  shows "contains (s @ d) w \<longleftrightarrow> contains s w \<or> contains (last32 s @ d) w"
proof
  assume c: "contains (s @ d) w"
  then obtain ps ss where e: "s @ d = ps @ w @ ss" by (auto simp: contains_def sublist_def)
  show "contains s w \<or> contains (last32 s @ d) w"
  proof (cases "length ps + length w \<le> length s")
    case True
    then have "s = ps @ w @ take (length s - length ps - length w) ss"
      using arg_cong[OF e, of "take (length s)"] by (simp add: take_append)
    then show ?thesis using c by (metis contains_def sublist_def)
  next
    case False
    then have "length s - 32 \<le> length ps" using assms by linarith
    then have "last32 s @ d = drop (length s - 32) ps @ w @ ss"
      using arg_cong[OF e, of "drop (length s - 32)"] by simp
    then show ?thesis using c by (metis contains_def sublist_def)
  qed
next
  assume "contains s w \<or> contains (last32 s @ d) w"
  then show "contains (s @ d) w"
    using contains_append(1)[of s w d] contains_append(2)[of "last32 s @ d" w "take (length s - 32) s"]
    by (auto simp flip: append_assoc)
qed

lemma contains_any_chunk:
  "length a \<le> 33 \<Longrightarrow> (\<forall>m. b = Some m \<longrightarrow> length m \<le> 33) \<Longrightarrow>
     contains_any (s @ d) a b \<longleftrightarrow> contains_any s a b \<or> contains_any (last32 s @ d) a b"
  using contains_chunk[of a s d] contains_chunk[of "the b" s d] by (cases b) (auto simp: contains_any_def)

lemma last32_carry: "drop (length (last32 s @ d) - min (length (last32 s @ d)) 32) (last32 s @ d) = last32 (s @ d)"
  by (cases "32 \<le> length s") (auto simp: min_def add.commute)

lemma markers_loop_exact:
  assumes "length a \<le> 33" "\<forall>m. b = Some m \<longrightarrow> length m \<le> 33"
    and "\<not> (contains_any s a b \<and> contains s ''rustls'')"
  shows "markers_loop a b rs (last32 s) (contains_any s a b) (contains s ''rustls'') =
    Some (contains_any (s @ read_data rs) a b \<and> contains (s @ read_data rs) ''rustls'')"
  using assms(3)
proof (induction rs arbitrary: s)
  case (Cons r rs)
  show ?case
  proof (cases r)
    case (ReadData d)
    show ?thesis
    proof (cases "d = []")
      case False
      let ?buf = "last32 s @ d"
      have agent: "contains_any (s @ d) a b \<longleftrightarrow> contains_any s a b \<or> contains_any ?buf a b"
        by (rule contains_any_chunk[OF assms(1,2)])
      have rustls: "contains (s @ d) ''rustls'' \<longleftrightarrow> contains s ''rustls'' \<or> contains ?buf ''rustls''"
        by (rule contains_chunk) simp
      have b: "(case b of None \<Rightarrow> Some False | Some m \<Rightarrow> codex_buf_contains ?buf m) =
          Some (\<exists>m. b = Some m \<and> contains ?buf m)"
        by (simp add: codex_buf_contains_eq split: option.splits)
      have step: "markers_loop a b (r # rs) (last32 s) (contains_any s a b) (contains s ''rustls'') =
          (if contains_any (s @ d) a b \<and> contains (s @ d) ''rustls'' then Some True
           else markers_loop a b rs (last32 (s @ d)) (contains_any (s @ d) a b) (contains (s @ d) ''rustls''))"
        using False unfolding ReadData agent rustls markers_loop.simps(4) Let_def b last32_carry
        by (auto simp: codex_buf_contains_eq contains_any_def)
      show ?thesis
      proof (cases "contains_any (s @ d) a b \<and> contains (s @ d) ''rustls''")
        case True
        moreover from this have "contains_any ((s @ d) @ t) a b \<and> contains ((s @ d) @ t) ''rustls''" for t
          using contains_append(1) unfolding contains_any_def by blast
        ultimately show ?thesis unfolding step using False ReadData by simp
      next
        case c: False
        then show ?thesis unfolding step using Cons.IH[OF c] False ReadData by (simp only: if_False read_data.simps append_assoc)
      qed
    qed (use Cons.prems ReadData in simp)
  qed (use Cons in auto)
qed simp

section \<open>BoringSSL\<close>

lemma locate_handshake_safe:
  assumes "pat_at read_pat data r"
  shows "\<exists>h. locate_handshake hs data r = Some h \<and>
    (case h of None \<Rightarrow> hs \<and> (\<forall>i. \<not> pat_at handshake_pat data i)
     | Some i \<Rightarrow> pat_at handshake_pat data i \<or> (i = 0 \<and> \<not> hs \<and> (\<forall>i. \<not> pat_at handshake_pat data i)))"
proof -
  let ?near = "if READ_HANDSHAKE_DELTA \<le> r \<and> pat_at handshake_pat data (r - READ_HANDSHAKE_DELTA)
    then r - READ_HANDSHAKE_DELTA else 0"
  have "r - READ_HANDSHAKE_DELTA + length handshake_pat \<le> length data" if "READ_HANDSHAKE_DELTA \<le> r"
    using that assms by (auto simp: pat_at_def READ_HANDSHAKE_DELTA_def handshake_pat_def)
  then have near: "locate_handshake hs data r =
      (if ?near = 0 then find_pattern data handshake_pat \<bind>
         (\<lambda>hs_off. Some (case hs_off of Some off \<Rightarrow> Some off | None \<Rightarrow> if hs then None else Some 0))
       else Some (Some ?near))"
    by (auto simp: locate_handshake_def memcmp_pat_at)
  obtain f where f: "find_pattern data handshake_pat = Some f" using bhand.search_safe by blast
  show ?thesis
  proof (cases "?near = 0")
    case True
    then show ?thesis
      using near f bhand.search_iff[of data f] by (auto split: option.splits)
  next
    case False
    then show ?thesis using near by (auto split: if_splits)
  qed
qed

lemma pat_at_window:
  assumes "a \<le> e" "e \<le> length data"
  shows "pat_at pat (take (e - a) (drop a data)) i \<longleftrightarrow> pat_at pat data (a + i) \<and> a + i + length pat \<le> e"
proof -
  have "take (length pat) (drop i (take (e - a) (drop a data))) = take (length pat) (drop (a + i) data)"
    if "a + i + length pat \<le> e"
    using that by (simp add: drop_take min_def add.commute)
  moreover have "length (take (e - a) (drop a data)) = e - a" using assms by simp
  ultimately show ?thesis using assms by (auto simp: pat_at_def)
qed

lemma locate_write_safe:
  assumes r: "pat_at read_pat data r"
  shows "\<exists>w. locate_write data r = Some w \<and>
    (case w of
       None \<Rightarrow> \<not> (\<exists>i. pat_at write_pat data i \<and> r \<le> i + 0x10000 \<and> i + length write_pat \<le> r + 0x10000)
     | Some i \<Rightarrow> pat_at write_pat data i \<and> r \<le> i + 0x10000 \<and> i + length write_pat \<le> r + 0x10000)"
proof (cases "pat_at write_pat data (r + WRITE_READ_DELTA)")
  case True
  then have "locate_write data r = Some (Some (r + WRITE_READ_DELTA))"
    by (simp add: locate_write_def memcmp_pat_at pat_at_def Let_def)
  with True show ?thesis by (simp add: WRITE_READ_DELTA_def write_pat_def)
next
  case False
  let ?a = "r - 0x10000" and ?e = "min (r + 0x10000) (length data)"
  let ?win = "take (?e - ?a) (drop ?a data)"
  obtain f where f: "find_pattern ?win write_pat = Some f" using bwrite.search_safe by blast
  have "(if 0x10000 < r then r - 0x10000 else 0) = ?a" by auto
  with False f have eq: "locate_write data r = Some (map_option (\<lambda>w. ?a + w) f)"
    by (simp add: locate_write_def memcmp_pat_at Let_def)
  have rl: "r \<le> length data" using r by (simp add: pat_at_def)
  then have "?a \<le> r + 0x10000" "?a \<le> length data" by linarith+
  then have ae: "?a \<le> ?e" "?e \<le> length data" by simp_all
  note win = pat_at_window[OF ae, of write_pat]
  show ?thesis
  proof (cases f)
    case None
    have "\<not> pat_at write_pat data i" if "r \<le> i + 0x10000" "i + length write_pat \<le> r + 0x10000" for i
    proof
      assume p: "pat_at write_pat data i"
      with that have "pat_at write_pat ?win (i - ?a)" unfolding win by (auto simp: pat_at_def)
      with bwrite.search_None[of ?win] f None show False by simp
    qed
    with eq None show ?thesis by auto
  next
    case (Some w)
    then have "pat_at write_pat ?win w" using f bwrite.search_Some[of ?win w] by simp
    then have "pat_at write_pat data (?a + w)" "?a + w + length write_pat \<le> ?e" unfolding win by auto
    with eq Some show ?thesis by auto
  qed
qed

section \<open>Properties\<close>

text \<open>
  C27: The \<open>memchr\<close>-based search of \<open>codex_offsets.h\<close> returns, for every non-empty pattern, the
  first offset at which the pattern stands in the data and "not found" exactly when it does not
  stand anywhere, without reading outside the data; it agrees with the plain search of \<open>sslsniff.c\<close>.
\<close>

theorem codex_find_pattern_first:
  assumes "pat \<noteq> []"
  shows "codex_find_pattern data pat = find_pattern data pat \<and> codex_find_pattern data pat \<noteq> None \<and>
    (codex_find_pattern data pat = Some None \<longleftrightarrow> \<not> sublist pat data) \<and>
    (\<forall>i. codex_find_pattern data pat = Some (Some i) \<longleftrightarrow> pat_at pat data i \<and> (\<forall>j<i. \<not> pat_at pat data j))"
proof -
  note c = pattern_finder.search_iff[OF codex_finder[OF assms], of data]
  note n = pattern_finder.search_iff[OF find_pattern_finder[OF assms], of data]
  have safe: "codex_find_pattern data pat \<noteq> None"
    using pattern_finder.search_safe[OF codex_finder[OF assms]] .
  then obtain r where r: "codex_find_pattern data pat = Some r" by blast
  then have "find_pattern data pat = Some r" unfolding c n .
  moreover have "codex_find_pattern data pat = Some None \<longleftrightarrow> \<not> sublist pat data"
    using c[of None] pat_at_sublist[of pat data] by auto
  ultimately show ?thesis using r safe c[of "Some i" for i] by simp
qed

theorem codex_find_pattern_first_witness:
  "codex_find_pattern ''aab'' ''ab'' = Some (Some 1)"
proof -
  have "pat_at ''ab'' ''aab'' 1 \<and> (\<forall>j<1. \<not> pat_at ''ab'' ''aab'' j)" by (simp add: pat_at_def)
  moreover have "codex_find_pattern ''aab'' ''ab'' = Some (Some i) \<longleftrightarrow> pat_at ''ab'' ''aab'' i \<and> (\<forall>j<i. \<not> pat_at ''ab'' ''aab'' j)" for i
    using codex_find_pattern_first[of "''ab''" "''aab''"] by blast
  ultimately show ?thesis by blast
qed

text \<open>
  C28: \<open>codex_find_rustls_offsets\<close> never reads outside the mapped file and returns all vectored write
  sites of the binary in ascending order, then all plain write sites in ascending order, cut off at
  the capacity of 64 entries; it succeeds exactly when there is a site.
\<close>

theorem codex_find_rustls_offsets_exact:
  "codex_find_rustls_offsets (Some data) = Some (rustls_sites data \<noteq> [], take 64 (rustls_sites data))"
proof (cases "data = []")
  case False
  let ?V = "map (\<lambda>i. \<lparr>offset = i, vectored = True\<rparr>)
    (filter (\<lambda>i. pat_at codex_rustls_writev_prefix data i \<and> writev_site data i) [0..<length data])"
  have v: "writev_scan data 0 [] = Some (take max_offsets ?V)" using writev_scan_sites[of 0 data "[]"] by simp
  have "take n (take n xs @ ys) = take n (xs @ ys)" for n and xs ys :: "codex_rustls_offset list"
    by (simp add: min_def)
  then have "write_scan data 0 (take max_offsets ?V) = Some (take max_offsets (rustls_sites data))"
    using write_scan_sites[of 0 data "take max_offsets ?V"] by (simp only: rustls_sites_def) simp
  with v False show ?thesis
    by (simp add: codex_find_rustls_offsets_def CODEX_MAX_RUSTLS_OFFSETS_def)
qed (simp add: codex_find_rustls_offsets_def rustls_sites_def)

text \<open>
  C29: Scanning a binary for its markers in chunks of any size, with the last 32 bytes carried over,
  gives the same answer as searching the whole file: no marker of at most 33 bytes is missed at a
  chunk boundary or reported without being there, and interrupted reads change nothing.
\<close>

theorem binary_has_rustls_markers_exact:
  assumes "length a \<le> 33" "\<forall>m. b = Some m \<longrightarrow> length m \<le> 33"
  shows "binary_has_rustls_markers (Some reads) a b =
    Some (contains_any (read_data reads) a b \<and> contains (read_data reads) ''rustls'')"
  using markers_loop_exact[OF assms, of "[]" reads]
  by (simp add: binary_has_rustls_markers_def contains_any_def contains_def)

theorem binary_has_rustls_markers_exact_witness:
  "binary_has_rustls_markers (Some [ReadData ''xcodex-'', ReadIntr, ReadData ''cli rus'', ReadData ''tls'']) ''codex-cli'' (Some ''@openai/codex'') =
     Some (contains_any ''xcodex-cli rustls'' ''codex-cli'' (Some ''@openai/codex'') \<and> contains ''xcodex-cli rustls'' ''rustls'')"
  using binary_has_rustls_markers_exact[of "''codex-cli''" "Some ''@openai/codex''"
      "[ReadData ''xcodex-'', ReadIntr, ReadData ''cli rus'', ReadData ''tls'']"] by simp

text \<open>
  C30: \<open>find_boringssl_offsets\<close> never reads outside the buffer, whatever the file. When it reports
  success, the \<open>SSL_read\<close> prologue stands at the read offset and nowhere earlier, the \<open>SSL_write\<close>
  prologue stands at the write offset, within 64 KiB of it, and the handshake prologue stands at
  its offset unless the binary has none and handshakes were not requested. It succeeds whenever
  such functions exist.
\<close>

theorem find_boringssl_offsets_correct:
  assumes "read_fully sz reads [] = Some data" "0 < sz"
  shows "\<exists>res. find_boringssl_offsets hs (Some sz) reads = Some res \<and>
    (found res \<longrightarrow> find_pattern data read_pat = Some (Some (ssl_read res)) \<and> pat_at read_pat data (ssl_read res) \<and>
       pat_at write_pat data (ssl_write res) \<and>
       ssl_read res \<le> ssl_write res + 0x10000 \<and> ssl_write res < ssl_read res + 0x10000 \<and>
       (pat_at handshake_pat data (ssl_do_handshake res) \<or> \<not> hs \<and> (\<forall>i. \<not> pat_at handshake_pat data i))) \<and>
    ((\<exists>r w. find_pattern data read_pat = Some (Some r) \<and> pat_at write_pat data w \<and>
        r \<le> w + 0x10000 \<and> w + length write_pat \<le> r + 0x10000) \<and>
       (hs \<longrightarrow> (\<exists>i. pat_at handshake_pat data i)) \<longrightarrow> found res)"
proof -
  obtain f where f: "find_pattern data read_pat = Some f" using bread.search_safe by blast
  show ?thesis
  proof (cases f)
    case None
    then show ?thesis using assms f by (simp add: find_boringssl_offsets_def no_offsets_def)
  next
    case (Some r)
    then have r: "pat_at read_pat data r" using f bread.search_Some[of data r] by simp
    obtain h where h: "locate_handshake hs data r = Some h"
      "case h of None \<Rightarrow> hs \<and> (\<forall>i. \<not> pat_at handshake_pat data i)
       | Some i \<Rightarrow> pat_at handshake_pat data i \<or> (i = 0 \<and> \<not> hs \<and> (\<forall>i. \<not> pat_at handshake_pat data i))"
      using locate_handshake_safe[OF r] by blast
    obtain w where w: "locate_write data r = Some w"
      "case w of None \<Rightarrow> \<not> (\<exists>i. pat_at write_pat data i \<and> r \<le> i + 0x10000 \<and> i + length write_pat \<le> r + 0x10000)
       | Some i \<Rightarrow> pat_at write_pat data i \<and> r \<le> i + 0x10000 \<and> i + length write_pat \<le> r + 0x10000"
      using locate_write_safe[OF r] by blast
    have l: "length write_pat = 26" by (simp add: write_pat_def)
    show ?thesis
    proof (cases h)
      case None
      then show ?thesis using assms f Some h by (simp add: find_boringssl_offsets_def no_offsets_def)
    next
      case hSome: (Some hoff)
      then show ?thesis
        using assms f Some r h w l
        by (cases w) (auto simp: find_boringssl_offsets_def no_offsets_def)
    qed
  qed
qed

theorem find_boringssl_offsets_correct_witness:
  "\<exists>res. find_boringssl_offsets False (Some (length (read_pat @ write_pat))) [ReadData (read_pat @ write_pat)] = Some res \<and>
     found res \<and> ssl_read res = 0"
proof -
  let ?d = "read_pat @ write_pat"
  have r: "pat_at read_pat ?d 0" and w: "pat_at write_pat ?d (length read_pat)" by (simp_all add: pat_at_def)
  then have f: "find_pattern ?d read_pat = Some (Some 0)" unfolding bread.search_iff by simp
  have len: "length write_pat = 26" "length read_pat \<le> 100" "0 < length read_pat" by (simp_all add: write_pat_def read_pat_def)
  have data: "read_fully (length ?d) [ReadData ?d] [] = Some ?d" "0 < length ?d" using len by simp_all
  have "\<exists>r w. find_pattern ?d read_pat = Some (Some r) \<and> pat_at write_pat ?d w \<and> r \<le> w + 0x10000 \<and> w + length write_pat \<le> r + 0x10000"
    using f w len by (intro exI[of _ 0] exI[of _ "length read_pat"]) simp
  with find_boringssl_offsets_correct[OF data, of False]
  obtain res where "find_boringssl_offsets False (Some (length ?d)) [ReadData ?d] = Some res" "found res"
    "find_pattern ?d read_pat = Some (Some (ssl_read res))" by blast
  with f show ?thesis by simp
qed

text \<open>A shifted search result: it is an offset exactly when the first occurrence stands that much before it.\<close>

lemma shifted_least:
  fixes M F :: "nat \<Rightarrow> bool"
  assumes F: "\<And>i. F i \<longleftrightarrow> M i \<and> (\<forall>j<i. \<not> M j)"
    and r: "case r of None \<Rightarrow> \<forall>i. \<not> M i | Some i \<Rightarrow> M i \<and> (\<forall>j<i. \<not> M j)"
  shows "map_option (\<lambda>i. i + k) r = Some c \<longleftrightarrow> k \<le> c \<and> F (c - k)"
proof (cases r)
  case None
  then show ?thesis using assms by simp
next
  case (Some i)
  then have i: "M i" "\<And>j. j < i \<Longrightarrow> \<not> M j" using r by simp_all
  have "F i' \<longleftrightarrow> i' = i" for i'
    unfolding F using i by (metis linorder_neqE_nat)
  then have "F (c - k) \<longleftrightarrow> c - k = i" .
  then show ?thesis unfolding Some by auto
qed

lemmas shifted_first = shifted_least[of "first_masked_at p m data" "masked_at p m data" for p m data, OF first_masked_at_def]

text \<open>
  C31: The Chrome search never reads outside the mapped file. It reports success exactly when all
  four masked instruction sequences occur. Each offset is there exactly when its sequence occurs, and
  is that of the call instruction inside the first occurrence: 9 bytes into the request copies, 14
  into the response copy. So on success all four offsets are there.
\<close>

theorem find_chrome_plaintext_offsets_correct:
  "\<exists>res. find_chrome_plaintext_offsets (Some data) = Some res \<and>
    (chrome_found res \<longleftrightarrow>
       (\<exists>i. masked_at request_copy_1_pat request_copy_1_mask data i) \<and>
       (\<exists>i. masked_at request_copy_2_pat request_copy_2_mask data i) \<and>
       (\<exists>i. masked_at request_copy_3_pat request_copy_3_mask data i) \<and>
       (\<exists>i. masked_at response_copy_pat response_copy_mask data i)) \<and>
    (chrome_found res \<longleftrightarrow>
       request_copy_1 res \<noteq> None \<and> request_copy_2 res \<noteq> None \<and> request_copy_3 res \<noteq> None \<and> response_copy res \<noteq> None) \<and>
    (\<forall>c. request_copy_1 res = Some c \<longleftrightarrow> 9 \<le> c \<and> first_masked_at request_copy_1_pat request_copy_1_mask data (c - 9)) \<and>
    (\<forall>c. request_copy_2 res = Some c \<longleftrightarrow> 9 \<le> c \<and> first_masked_at request_copy_2_pat request_copy_2_mask data (c - 9)) \<and>
    (\<forall>c. request_copy_3 res = Some c \<longleftrightarrow> 9 \<le> c \<and> first_masked_at request_copy_3_pat request_copy_3_mask data (c - 9)) \<and>
    (\<forall>c. response_copy res = Some c \<longleftrightarrow> 14 \<le> c \<and> first_masked_at response_copy_pat response_copy_mask data (c - 14)) \<and>
    (\<forall>c. Some c \<in> {request_copy_1 res, request_copy_2 res, request_copy_3 res, response_copy res} \<longrightarrow> data ! c = CHR 0xE8)"
proof -
  obtain r1 r2 r3 r4 where r:
    "find_masked_pattern data request_copy_1_pat request_copy_1_mask = Some r1"
    "find_masked_pattern data request_copy_2_pat request_copy_2_mask = Some r2"
    "find_masked_pattern data request_copy_3_pat request_copy_3_mask = Some r3"
    "find_masked_pattern data response_copy_pat response_copy_mask = Some r4"
    using req1.search_safe req2.search_safe req3.search_safe resp.search_safe by blast
  note s = req1.search_iff[of data r1, THEN iffD1, OF r(1)] req2.search_iff[of data r2, THEN iffD1, OF r(2)]
    req3.search_iff[of data r3, THEN iffD1, OF r(3)] resp.search_iff[of data r4, THEN iffD1, OF r(4)]
  note f = shifted_first[OF s(1), where k = 9] shifted_first[OF s(2), where k = 9] shifted_first[OF s(3), where k = 9]
    shifted_first[OF s(4), where k = 14]
  let ?res = "\<lparr>request_copy_1 = map_option (\<lambda>o1. o1 + 9) r1, request_copy_2 = map_option (\<lambda>o2. o2 + 9) r2,
    request_copy_3 = map_option (\<lambda>o3. o3 + 9) r3, response_copy = map_option (\<lambda>o4. o4 + 14) r4,
    chrome_found = (r1 \<noteq> None \<and> r2 \<noteq> None \<and> r3 \<noteq> None \<and> r4 \<noteq> None)\<rparr>"
  have res: "find_chrome_plaintext_offsets (Some data) = Some ?res" by (simp add: find_chrome_plaintext_offsets_def r)
  have call: "data ! c = CHR 0xE8"
    if "k \<le> c \<and> first_masked_at p m data (c - k)" "k < length p" "m ! k = CHR ''x''" "p ! k = CHR 0xE8" for p m c k
    using that by (auto simp: masked_at_def first_masked_at_def)
  have e8: "request_copy_1_pat ! 9 = CHR 0xE8" "request_copy_2_pat ! 9 = CHR 0xE8" "request_copy_3_pat ! 9 = CHR 0xE8"
    "response_copy_pat ! 14 = CHR 0xE8"
    "request_copy_1_mask ! 9 = CHR ''x''" "request_copy_2_mask ! 9 = CHR ''x''" "request_copy_3_mask ! 9 = CHR ''x''"
    "response_copy_mask ! 14 = CHR ''x''"
    "9 < length request_copy_1_pat" "9 < length request_copy_2_pat" "9 < length request_copy_3_pat" "14 < length response_copy_pat"
    by (simp_all add: request_copy_1_pat_def request_copy_2_pat_def request_copy_3_pat_def response_copy_pat_def
      request_copy_1_mask_def request_copy_2_mask_def request_copy_3_mask_def response_copy_mask_def
      char_of_eq_iff)
  have found: "r \<noteq> None \<longleftrightarrow> (\<exists>i. masked_at p m data i)"
    if "case r of None \<Rightarrow> \<forall>i. \<not> masked_at p m data i | Some i \<Rightarrow> masked_at p m data i \<and> (\<forall>j<i. \<not> masked_at p m data j)" for r p m
    using that by (auto split: option.splits)
  note calls = call[OF _ e8(9) e8(5) e8(1)] call[OF _ e8(10) e8(6) e8(2)] call[OF _ e8(11) e8(7) e8(3)] call[OF _ e8(12) e8(8) e8(4)]
  have "\<forall>c. Some c \<in> {request_copy_1 ?res, request_copy_2 ?res, request_copy_3 ?res, response_copy ?res} \<longrightarrow> data ! c = CHR 0xE8"
    using calls f by (simp only: chrome_plaintext_offsets.simps insert_iff empty_iff eq_commute[of "Some _"]) blast
  then show ?thesis
    using f found[OF s(1)] found[OF s(2)] found[OF s(3)] found[OF s(4)]
    by (intro exI[of _ ?res] conjI res) simp_all
qed

theorem find_chrome_plaintext_offsets_correct_witness:
  "\<exists>res. find_chrome_plaintext_offsets (Some (request_copy_1_pat @ request_copy_2_pat @ request_copy_3_pat @ response_copy_pat)) = Some res \<and>
    chrome_found res \<and> request_copy_1 res = Some 9 \<and> response_copy res \<noteq> None"
proof -
  let ?d = "request_copy_1_pat @ request_copy_2_pat @ request_copy_3_pat @ response_copy_pat"
  have len: "length request_copy_1_mask = length request_copy_1_pat" "length request_copy_2_mask = length request_copy_2_pat"
    "length request_copy_3_mask = length request_copy_3_pat" "length response_copy_mask = length response_copy_pat"
    by (simp_all add: request_copy_1_pat_def request_copy_2_pat_def request_copy_3_pat_def response_copy_pat_def
      request_copy_1_mask_def request_copy_2_mask_def request_copy_3_mask_def response_copy_mask_def)
  have at: "masked_at p m (a @ p @ b) (length a)" if "length m = length p" for p m a b
    using that by (auto simp: masked_at_def nth_append)
  have occ: "masked_at request_copy_1_pat request_copy_1_mask ?d 0"
    "masked_at request_copy_2_pat request_copy_2_mask ?d (length request_copy_1_pat)"
    "masked_at request_copy_3_pat request_copy_3_mask ?d (length (request_copy_1_pat @ request_copy_2_pat))"
    "masked_at response_copy_pat response_copy_mask ?d (length (request_copy_1_pat @ request_copy_2_pat @ request_copy_3_pat))"
    using at[OF len(1), of "[]"] at[OF len(2), of request_copy_1_pat] at[OF len(3), of "request_copy_1_pat @ request_copy_2_pat"]
      at[OF len(4), of "request_copy_1_pat @ request_copy_2_pat @ request_copy_3_pat" "[]"] by simp_all
  then have "9 \<le> (9 :: nat) \<and> first_masked_at request_copy_1_pat request_copy_1_mask ?d (9 - 9)" by (simp add: first_masked_at_def)
  with occ find_chrome_plaintext_offsets_correct[of ?d] show ?thesis by blast
qed

end
