(* ===== verification/C_Output.thy ===== *)
theory C_Output
  imports Proc_Info Bpf_Runtime
begin

text \<open>
  The parts of the C library that the payload tracers use besides those of \<open>Proc_Info\<close>: \<open>atoi\<close>, and
  the \<open>%.3f\<close> output of a duration that is converted to \<open>double\<close> and divided by a million. A double is a
  fraction with a 53-bit numerator; conversion, division and output each round to the nearest value,
  and to the even one in the middle.
\<close>

definition atoi :: "bytes \<Rightarrow> i32" where
  "atoi s = word_of_int (fst (strtol s))"

text \<open>\<open>strtoul\<close> of a string of digits; \<open>None\<close> when \<open>errno\<close> is set.\<close>

definition strtoul_digits :: "bytes \<Rightarrow> nat option" where
  "strtoul_digits ds = (if dec_value ds < 2 ^ 64 then Some (dec_value ds) else None)"

text \<open>\<open>strrchr\<close> and \<open>strstr\<close>: the text after the last occurrence of a character, and from the first occurrence of a word on.\<close>

definition after_last :: "char \<Rightarrow> bytes \<Rightarrow> bytes option" where
  "after_last c s = (if c \<in> set s then Some (rev (takeWhile (\<lambda>x. x \<noteq> c) (rev s))) else None)"

fun strstr :: "bytes \<Rightarrow> bytes \<Rightarrow> bytes option" where
  "strstr [] word = (if word = [] then Some [] else None)"
| "strstr (c # cs) word = (if take (length word) (c # cs) = word then Some (c # cs) else strstr cs word)"

definition strncmp_eq :: "bytes \<Rightarrow> bytes \<Rightarrow> bool" where
  "strncmp_eq s word \<longleftrightarrow> take (length word) s = word"

section \<open>Rounding\<close>

definition round_even :: "nat \<Rightarrow> nat \<Rightarrow> nat" where
  "round_even a b =
     (let q = a div b; r = a mod b in if 2 * r < b \<or> (2 * r = b \<and> even q) then q else q + 1)"

fun bit_len :: "nat \<Rightarrow> nat" where
  "bit_len n = (if n = 0 then 0 else Suc (bit_len (n div 2)))"

declare bit_len.simps [simp del]

text \<open>The double nearest to \<open>a / b\<close>, as a fraction; the magnitudes here are far from overflow and underflow.\<close>

definition to_double :: "nat \<Rightarrow> nat \<Rightarrow> nat \<times> nat" where
  "to_double a b =
     (if a = 0 then (0, 1)
      else
        let k0 = 53 + int (bit_len b) - int (bit_len a);
            k = (if 2 ^ 53 * (b * 2 ^ nat (- k0)) \<le> a * 2 ^ nat k0 then k0 - 1 else k0)
        in (round_even (a * 2 ^ nat k) (b * 2 ^ nat (- k)) * 2 ^ nat (- k), 2 ^ nat k))"

definition fixed3 :: "nat \<times> nat \<Rightarrow> bytes" where
  "fixed3 x =
     (let t = round_even (fst x * 1000) (snd x) in
      dec_nat (t div 1000) @ CHR ''.'' # [digit (t div 100 mod 10), digit (t div 10 mod 10), digit (t mod 10)])"

text \<open>\<open>printf("%.3f", (double)delta_ns / 1000000.0)\<close>.\<close>

definition latency_ms :: "u64 \<Rightarrow> bytes" where
  "latency_ms delta_ns = (case to_double (unat delta_ns) 1 of (a, b) \<Rightarrow> fixed3 (to_double a (b * 1000000)))"

section \<open>Rounding is close\<close>

lemma round_even_close:
  assumes "0 < b"
  shows "2 * a \<le> (2 * round_even a b + 1) * b" "2 * (round_even a b * b) \<le> 2 * a + b"
proof -
  obtain q r where q: "q = a div b" and r: "r = a mod b" by simp
  have a: "a = b * q + r" and less: "r < b" using assms by (simp_all add: q r)
  have m: "round_even a b * b = (if 2 * r < b \<or> (2 * r = b \<and> even q) then b * q else b * q + b)"
    by (simp add: round_even_def Let_def q r)
  have up: "(2 * round_even a b + 1) * b = 2 * (round_even a b * b) + b" by (simp add: algebra_simps)
  show "2 * a \<le> (2 * round_even a b + 1) * b" unfolding up m using a less by (auto split: if_split)
  show "2 * (round_even a b * b) \<le> 2 * a + b" unfolding m using a less by (auto split: if_split)
qed

lemma fixed3_text: "c \<in> set (fixed3 x) \<Longrightarrow> is_digit c \<or> c = CHR ''.''"
proof -
  have d: "is_digit (digit n)" if "n < 10" for n
    using that by (simp add: is_digit_def digit_def)
  have "is_digit c" if "c \<in> set (dec_nat n)" for n using dec_nat_ascii[OF that] by (simp add: is_digit_def)
  then show "c \<in> set (fixed3 x) \<Longrightarrow> is_digit c \<or> c = CHR ''.''" by (auto simp: fixed3_def Let_def d)
qed

end
