(* ===== verification/Json_Line.thy ===== *)
theory Json_Line
  imports Jsonl C_Output
begin

text \<open>
  JSON objects on one line, as the payload tracers print them: a parser for flat objects, with the
  strings still escaped, and the inverse rendering. The tracers' output is shown to be the rendering of
  their event's fields, so that the parser gets the fields back.
\<close>

datatype jval = JStr bytes | JLit bytes

abbreviation quote :: char where
  "quote \<equiv> CHR 0x22"

section \<open>Parsing\<close>

text \<open>The rest of a string after its opening quote: its escaped content and what follows the closing quote.\<close>

fun str_end :: "bytes \<Rightarrow> (bytes \<times> bytes) option" where
  "str_end [] = None"
| "str_end (c # cs) =
     (if c = quote then Some ([], cs)
      else if c = CHR 0x5C then (case cs of [] \<Rightarrow> None | d # ds \<Rightarrow> map_option (\<lambda>(a, r). (c # d # a, r)) (str_end ds))
      else map_option (\<lambda>(a, r). (c # a, r)) (str_end cs))"

definition json_natural :: "bytes \<Rightarrow> bool" where
  "json_natural s \<longleftrightarrow> s \<noteq> [] \<and> list_all is_digit s \<and> (hd s = CHR ''0'' \<longrightarrow> length s = 1)"

text \<open>Numbers without exponent, and the three names.\<close>

definition json_literal :: "bytes \<Rightarrow> bool" where
  "json_literal s \<longleftrightarrow> s \<in> {''true'', ''false'', ''null''} \<or>
     (let t = (if s \<noteq> [] \<and> hd s = CHR ''-'' then tl s else s);
          ip = takeWhile (\<lambda>c. c \<noteq> CHR ''.'') t; fp = dropWhile (\<lambda>c. c \<noteq> CHR ''.'') t
      in json_natural ip \<and> (fp = [] \<or> (tl fp \<noteq> [] \<and> list_all is_digit (tl fp))))"

definition lit_char :: "char \<Rightarrow> bool" where
  "lit_char c \<longleftrightarrow> c \<noteq> CHR '','' \<and> c \<noteq> CHR ''}'' \<and> c \<noteq> quote"

definition parse_value :: "bytes \<Rightarrow> (jval \<times> bytes) option" where
  "parse_value s =
     (if s \<noteq> [] \<and> hd s = quote then
        (case str_end (tl s) of Some (a, r) \<Rightarrow> if json_chars a then Some (JStr a, r) else None | None \<Rightarrow> None)
      else
        let l = takeWhile lit_char s in if json_literal l then Some (JLit l, dropWhile lit_char s) else None)"

text \<open>One member \<open>"key":value\<close>, and the members up to the closing brace; the fuel is the number of bytes left.\<close>

definition parse_member :: "bytes \<Rightarrow> ((bytes \<times> jval) \<times> bytes) option" where
  "parse_member s =
     (if s \<noteq> [] \<and> hd s = quote then
        (case str_end (tl s) of
           Some (k, c # r) \<Rightarrow>
             if json_chars k \<and> c = CHR '':'' then map_option (\<lambda>(v, r'). ((k, v), r')) (parse_value r) else None
         | _ \<Rightarrow> None)
      else None)"

fun parse_members :: "nat \<Rightarrow> bytes \<Rightarrow> ((bytes \<times> jval) list \<times> bytes) option" where
  "parse_members 0 s = None"
| "parse_members (Suc n) s =
     (case parse_member s of
        Some (m, c # r) \<Rightarrow>
          if c = CHR ''}'' then Some ([m], r)
          else if c = CHR '','' then map_option (\<lambda>(ms, r'). (m # ms, r')) (parse_members n r)
          else None
      | _ \<Rightarrow> None)"

text \<open>A line that holds one object.\<close>

definition parse_line :: "bytes \<Rightarrow> (bytes \<times> jval) list option" where
  "parse_line s =
     (if s \<noteq> [] \<and> hd s = CHR ''{'' then
        (case parse_members (length s) (tl s) of Some (ms, r) \<Rightarrow> if r = [CHR 0x0A] then Some ms else None | None \<Rightarrow> None)
      else None)"

section \<open>Rendering\<close>

fun render_value :: "jval \<Rightarrow> bytes" where
  "render_value (JStr s) = quote # s @ [quote]"
| "render_value (JLit s) = s"

definition render_member :: "bytes \<times> jval \<Rightarrow> bytes" where
  "render_member m = quote # fst m @ quote # CHR '':'' # render_value (snd m)"

fun render_members :: "(bytes \<times> jval) list \<Rightarrow> bytes" where
  "render_members [] = []"
| "render_members [m] = render_member m"
| "render_members (m # ms) = render_member m @ CHR '','' # render_members ms"

definition render_line :: "(bytes \<times> jval) list \<Rightarrow> bytes" where
  "render_line ms = CHR ''{'' # render_members ms @ [CHR ''}'', CHR 0x0A]"

fun value_ok :: "jval \<Rightarrow> bool" where
  "value_ok (JStr s) = json_chars s"
| "value_ok (JLit s) = json_literal s"

definition member_ok :: "bytes \<times> jval \<Rightarrow> bool" where
  "member_ok m \<longleftrightarrow> json_chars (fst m) \<and> value_ok (snd m)"

text \<open>The members after the first one, each with its comma.\<close>

definition render_tail :: "(bytes \<times> jval) list \<Rightarrow> bytes" where
  "render_tail ms = concat (map (\<lambda>m. CHR '','' # render_member m) ms)"

lemma render_tail_simps [simp]:
  "render_tail [] = []" "render_tail (m # ms) = CHR '','' # render_member m @ render_tail ms"
  "render_tail (xs @ ys) = render_tail xs @ render_tail ys"
  by (simp_all add: render_tail_def)

lemma render_members_tail: "render_members (m # ms) = render_member m @ render_tail ms"
  by (induction ms arbitrary: m) simp_all

section \<open>The round trip\<close>

lemma str_end_plain:
  "\<forall>x\<in>set xs. x \<noteq> quote \<and> x \<noteq> CHR 0x5C \<Longrightarrow> str_end (xs @ t) = map_option (\<lambda>(a, r). (xs @ a, r)) (str_end t)"
proof (induction xs)
  case Nil
  then show ?case by (cases "str_end t") auto
next
  case (Cons x xs)
  then have "x \<noteq> quote" "x \<noteq> CHR 0x5C" by auto
  with Cons show ?case by (cases "str_end t") auto
qed

lemma utf8_char_plain:
  assumes "0 < utf8_len (a # t)" "a \<noteq> quote" "a \<noteq> CHR 0x5C" "x \<in> set (take (utf8_len (a # t)) (a # t))"
  shows "x \<noteq> quote \<and> x \<noteq> CHR 0x5C"
  using assms utf8_len_high[of a x t] by (cases "ord a < 0x80") (auto simp: utf8_len.simps)

lemma str_end_json: "json_chars s \<Longrightarrow> str_end (s @ quote # r) = Some (s, r)"
proof (induction s rule: length_induct)
  case (1 s)
  show ?case
  proof (cases s)
    case (Cons a t)
    note s = Cons and j = "1.prems"[unfolded Cons json_chars.simps(2)]
    have q: "a \<noteq> quote" using j by (auto split: if_splits)
    show ?thesis
    proof (cases "a = CHR 0x5C")
      case True
      then obtain e es where t: "t = e # es" using j by (cases t) (auto split: if_splits)
      show ?thesis
      proof (cases "e = CHR ''u''")
        case u: True
        then have h: "json_chars (drop 4 es)" "list_all is_hex (take 4 es)" "4 \<le> length es" using j True by (simp_all add: t)
        have "str_end (drop 4 es @ quote # r) = Some (drop 4 es, r)" using "1.IH" h(1) by (simp add: s t)
        moreover have "\<forall>x\<in>set (take 4 es). x \<noteq> quote \<and> x \<noteq> CHR 0x5C" using h(2) by (auto simp: list_all_iff is_hex_def)
        ultimately have "str_end (take 4 es @ (drop 4 es @ quote # r)) = Some (take 4 es @ drop 4 es, r)" by (simp add: str_end_plain)
        then have "str_end (es @ quote # r) = Some (es, r)" by (simp only: append_assoc[symmetric] append_take_drop_id)
        then show ?thesis using q True by (simp add: s t)
      next
        case False
        then have "json_chars es" using j True by (auto simp: t split: if_splits)
        then have "str_end (es @ quote # r) = Some (es, r)" using "1.IH" by (simp add: s t)
        then show ?thesis using q True by (simp add: s t)
      qed
    next
      case False
      let ?n = "utf8_len (a # t)"
      have n: "0 < ?n" "json_chars (drop ?n (a # t))" using j False by (auto simp: Let_def split: if_splits)
      then have "str_end (drop ?n (a # t) @ quote # r) = Some (drop ?n (a # t), r)" using "1.IH" by (simp add: s)
      moreover have "\<forall>x\<in>set (take ?n (a # t)). x \<noteq> quote \<and> x \<noteq> CHR 0x5C" using utf8_char_plain[OF n(1) q False] by blast
      note str_end_plain[OF this, of "drop ?n (a # t) @ quote # r"]
      ultimately have "str_end (take ?n (a # t) @ (drop ?n (a # t) @ quote # r)) = Some (take ?n (a # t) @ drop ?n (a # t), r)"
        by (simp only: option.map prod.case)
      then show ?thesis unfolding s by (simp only: append_assoc[symmetric] append_take_drop_id)
    qed
  qed simp
qed

lemma digit_lit: "is_digit c \<Longrightarrow> lit_char c"
  by (auto simp: is_digit_def lit_char_def)

lemma dot_lit: "lit_char (CHR ''.'')"
  by (simp add: lit_char_def)

lemma json_literal_lit: "json_literal s \<Longrightarrow> s \<noteq> [] \<and> list_all lit_char s"
proof -
  assume l: "json_literal s"
  show ?thesis
  proof (cases "s \<in> {''true'', ''false'', ''null''}")
    case True
    then show ?thesis by (auto simp: lit_char_def)
  next
    case False
    define t where "t = (if s \<noteq> [] \<and> hd s = CHR ''-'' then tl s else s)"
    let ?P = "\<lambda>c. c \<noteq> CHR ''.''"
    have ip: "json_natural (takeWhile ?P t)" and fp: "dropWhile ?P t = [] \<or> list_all is_digit (tl (dropWhile ?P t))"
      using l False unfolding json_literal_def Let_def t_def[symmetric] by blast+
    have "lit_char c" if "c \<in> set (dropWhile ?P t)" for c
      using fp that hd_dropWhile[of ?P t] by (cases "dropWhile ?P t") (auto simp: list_all_iff digit_lit dot_lit)
    moreover have "lit_char c" if "c \<in> set (takeWhile ?P t)" for c
      using ip that by (auto simp: json_natural_def list_all_iff digit_lit)
    ultimately have "\<forall>c\<in>set t. lit_char c" by (metis Un_iff set_append takeWhile_dropWhile_id)
    moreover have "t \<noteq> []" using ip by (auto simp: json_natural_def)
    moreover have "set s \<subseteq> insert (CHR ''-'') (set t)" "s \<noteq> []" using \<open>t \<noteq> []\<close> by (cases s; auto simp: t_def split: if_splits)+
    ultimately show ?thesis by (auto simp: list_all_iff lit_char_def)
  qed
qed

lemma parse_value_render:
  assumes "value_ok v" "\<not> lit_char c" "c \<noteq> quote"
  shows "parse_value (render_value v @ c # r) = Some (v, c # r)"
proof (cases v)
  case (JStr s)
  then show ?thesis using assms(1) str_end_json[of s "c # r"] by (simp add: parse_value_def)
next
  case (JLit s)
  then have s: "s \<noteq> []" "list_all lit_char s" using assms(1) json_literal_lit[of s] by simp_all
  then have "hd s \<noteq> quote" by (cases s) (auto simp: lit_char_def)
  moreover have "takeWhile lit_char (s @ c # r) = s" "dropWhile lit_char (s @ c # r) = c # r"
    using s(2) assms(2) by (simp_all add: takeWhile_append dropWhile_append list_all_iff)
  ultimately show ?thesis using JLit assms(1) s(1) by (simp add: parse_value_def)
qed

lemma parse_member_render:
  assumes "member_ok m" "\<not> lit_char c" "c \<noteq> quote"
  shows "parse_member (render_member m @ c # r) = Some (m, c # r)"
  using assms str_end_json[of "fst m" "CHR '':'' # render_value (snd m) @ c # r"] parse_value_render[of "snd m" c r]
  by (simp add: parse_member_def render_member_def member_ok_def)

lemma parse_members_render:
  "ms \<noteq> [] \<Longrightarrow> list_all member_ok ms \<Longrightarrow> length ms \<le> n \<Longrightarrow>
    parse_members n (render_members ms @ CHR ''}'' # r) = Some (ms, r)"
proof (induction ms arbitrary: n rule: render_members.induct)
  case (2 m)
  then show ?case using parse_member_render[of m "CHR ''}''" r] by (cases n) (simp_all add: lit_char_def)
next
  case (3 m m' ms)
  then obtain k where k: "n = Suc k" by (cases n) auto
  have "parse_members k (render_members (m' # ms) @ CHR ''}'' # r) = Some (m' # ms, r)"
    using 3 by (simp add: k)
  then show ?case
    using 3(3) parse_member_render[of m "CHR '',''" "render_members (m' # ms) @ CHR ''}'' # r"]
    by (simp add: k lit_char_def del: render_members.simps(2))
qed simp

lemma length_render_members: "length ms \<le> length (render_members ms)"
  by (induction ms rule: render_members.induct) (simp_all add: render_member_def)

text \<open>Parsing a rendered line gives the members back.\<close>

lemma parse_line_render:
  assumes "ms \<noteq> []" "list_all member_ok ms"
  shows "parse_line (render_line ms) = Some ms"
proof -
  have "parse_members (length (render_line ms)) (render_members ms @ CHR ''}'' # [CHR 0x0A]) = Some (ms, [CHR 0x0A])"
    using assms length_render_members[of ms] by (intro parse_members_render) (simp_all add: render_line_def)
  then show ?thesis by (simp add: parse_line_def render_line_def)
qed

section \<open>Numbers\<close>

lemma list_all_dec_nat: "list_all is_digit (dec_nat n)"
  using dec_nat_ascii by (auto simp: list_all_iff is_digit_def)

lemma dec_nat_nonempty: "dec_nat n \<noteq> []"
  by (simp add: dec_nat.simps[of n])

lemma hd_dec_nat: "0 < n \<Longrightarrow> hd (dec_nat n) \<noteq> CHR ''0''"
proof (induction n rule: dec_nat.induct)
  case (1 n)
  show ?case
  proof (cases "n < 10")
    case True
    then have "dec_nat n = [digit n]" by (simp add: dec_nat.simps[of n])
    moreover have "of_char (digit n) = 48 + n" using True by (simp add: digit_def)
    ultimately show ?thesis using 1(2) by auto
  next
    case False
    then have "hd (dec_nat (n div 10)) \<noteq> CHR ''0''" using 1 by simp
    with False show ?thesis by (simp add: dec_nat.simps[of n] dec_nat_nonempty)
  qed
qed

lemma json_natural_dec: "json_natural (dec_nat n)"
proof (cases "n = 0")
  case True
  then have "dec_nat n = [digit 0]" using dec_nat.simps[of 0] by simp
  then show ?thesis using list_all_dec_nat[of n] by (simp add: json_natural_def)
next
  case False
  then show ?thesis using hd_dec_nat[of n] by (simp add: json_natural_def list_all_dec_nat dec_nat_nonempty)
qed

lemma digit_no_sign: "is_digit c \<Longrightarrow> c \<noteq> CHR ''.'' \<and> c \<noteq> CHR ''-''"
  by (auto simp: is_digit_def)

lemma digits_no_dot:
  assumes "list_all is_digit ds"
  shows "takeWhile (\<lambda>c. c \<noteq> CHR ''.'') (ds @ CHR ''.'' # r) = ds" "dropWhile (\<lambda>c. c \<noteq> CHR ''.'') (ds @ CHR ''.'' # r) = CHR ''.'' # r"
    and "takeWhile (\<lambda>c. c \<noteq> CHR ''.'') ds = ds" "dropWhile (\<lambda>c. c \<noteq> CHR ''.'') ds = []"
proof -
  have d: "\<forall>c\<in>set ds. c \<noteq> CHR ''.''" using assms digit_no_sign by (auto simp: list_all_iff)
  then show "takeWhile (\<lambda>c. c \<noteq> CHR ''.'') (ds @ CHR ''.'' # r) = ds" "dropWhile (\<lambda>c. c \<noteq> CHR ''.'') (ds @ CHR ''.'' # r) = CHR ''.'' # r"
    "takeWhile (\<lambda>c. c \<noteq> CHR ''.'') ds = ds" "dropWhile (\<lambda>c. c \<noteq> CHR ''.'') ds = []"
    by (simp_all add: takeWhile_append2 dropWhile_append2)
qed

lemma hd_natural: "json_natural s \<Longrightarrow> list_all is_digit s \<and> s \<noteq> [] \<and> hd s \<noteq> CHR ''-''"
  using digit_no_sign by (cases s) (auto simp: json_natural_def)

lemma json_literal_natural:
  assumes "json_natural s"
  shows "json_literal s" "json_literal (CHR ''-'' # s)"
proof -
  note h = hd_natural[OF assms]
  moreover from h have "\<forall>x\<in>set s. x \<noteq> CHR ''.''" using digit_no_sign by (auto simp: list_all_iff)
  ultimately show "json_literal s" "json_literal (CHR ''-'' # s)" using assms by (simp_all add: json_literal_def digits_no_dot(3))
qed

lemma json_literal_fixed:
  assumes "json_natural s" "list_all is_digit r" "r \<noteq> []"
  shows "json_literal (s @ CHR ''.'' # r)"
proof -
  note h = hd_natural[OF assms(1)]
  then have "hd (s @ CHR ''.'' # r) \<noteq> CHR ''-''" by simp
  moreover have "takeWhile (\<lambda>c. c \<noteq> CHR ''.'') (s @ CHR ''.'' # r) = s" "dropWhile (\<lambda>c. c \<noteq> CHR ''.'') (s @ CHR ''.'' # r) = CHR ''.'' # r"
    using h digits_no_dot(1,2) by blast+
  ultimately show ?thesis using assms by (simp only: json_literal_def Let_def) simp
qed

lemma json_literal_dec [simp]: "json_literal (dec_nat n)" "json_literal (dec_int i)"
  by (simp_all add: json_literal_natural json_natural_dec dec_int_def)

lemma json_literal_latency [simp]: "json_literal (latency_ms d)"
proof -
  have "is_digit (digit (n mod 10))" for n by (simp add: is_digit_def digit_def)
  then show ?thesis
    by (simp add: latency_ms_def fixed3_def Let_def json_literal_fixed json_natural_dec split: prod.split)
qed

lemma json_literal_names [simp]: "json_literal ''true''" "json_literal ''false''" "json_literal ''null''" "json_literal ''0''"
  by (simp_all add: json_literal_def json_natural_def is_digit_def)

lemma json_chars_ascii:
  "list_all (\<lambda>c. 32 \<le> ord c \<and> ord c < 0x80 \<and> c \<noteq> quote \<and> c \<noteq> CHR 0x5C) s \<Longrightarrow> json_chars s"
  by (induction s) auto

end
