(* ===== verification/Sslsniff.thy ===== *)
theory Sslsniff
  imports Ssl_Capture Pattern_Search Json_Line
begin

text \<open>
  The user side of the TLS tracer (\<open>bpf/sslsniff.c\<close>): command line, attaching of the probes to the
  libraries and to one binary, the JSON line of an event and the main loop. \<open>attach\<close> gives the result of
  \<open>bpf_program__attach_uprobe_opts\<close>, 0 for success; \<open>ssl_host\<close> is what the system answers while
  the probes are attached and \<open>ssl_world\<close> while an event is printed.
\<close>

unbundle bit_operations_syntax

section \<open>The code: command line\<close>

record ssl_opts =
  xo_pid :: i32
  xo_session_id :: i32
  xo_uid :: i32
  xo_comm :: "bytes option"
  xo_openssl :: bool
  xo_gnutls :: bool
  xo_nss :: bool
  xo_handshake :: bool
  xo_extra_lib :: "bytes option"
  xo_verbose :: bool

definition ssl_default_opts :: ssl_opts where
  "ssl_default_opts = \<lparr>xo_pid = -1, xo_session_id = -1, xo_uid = -1, xo_comm = None, xo_openssl = True, xo_gnutls = False,
     xo_nss = False, xo_handshake = False, xo_extra_lib = None, xo_verbose = False\<rparr>"

datatype ssl_arg =
    XA_p bytes | XA_session bytes | XA_u bytes | XA_c bytes | XA_no_openssl | XA_no_gnutls | XA_no_nss | XA_handshake | XA_v
  | XA_binary_path bytes | XA_unknown

datatype ssl_opt_error = XE_usage | XE_unknown

fun ssl_parse_arg :: "ssl_arg \<Rightarrow> ssl_opts \<Rightarrow> ssl_opt_error + ssl_opts" where
  "ssl_parse_arg (XA_p arg) env = Inr (env\<lparr>xo_pid := atoi arg\<rparr>)"
| "ssl_parse_arg (XA_session arg) env =
     (let n = word_of_int (fst (strtol arg)) :: i32 in
      if strtol_range arg \<or> sint n \<le> 0 then Inl XE_usage else Inr (env\<lparr>xo_session_id := n\<rparr>))"
| "ssl_parse_arg (XA_u arg) env = Inr (env\<lparr>xo_uid := atoi arg\<rparr>)"
| "ssl_parse_arg (XA_c arg) env = Inr (env\<lparr>xo_comm := Some arg\<rparr>)"
| "ssl_parse_arg XA_no_openssl env = Inr (env\<lparr>xo_openssl := False\<rparr>)"
| "ssl_parse_arg XA_no_gnutls env = Inr (env\<lparr>xo_gnutls := False\<rparr>)"
| "ssl_parse_arg XA_no_nss env = Inr (env\<lparr>xo_nss := False\<rparr>)"
| "ssl_parse_arg XA_handshake env = Inr (env\<lparr>xo_handshake := True\<rparr>)"
| "ssl_parse_arg XA_v env = Inr (env\<lparr>xo_verbose := True\<rparr>)"
| "ssl_parse_arg (XA_binary_path arg) env = Inr (env\<lparr>xo_extra_lib := Some arg\<rparr>)"
| "ssl_parse_arg XA_unknown env = Inl XE_unknown"

fun ssl_parse_args :: "ssl_arg list \<Rightarrow> ssl_opts \<Rightarrow> ssl_opt_error + ssl_opts" where
  "ssl_parse_args [] env = Inr env"
| "ssl_parse_args (a # as) env = (case ssl_parse_arg a env of Inl e \<Rightarrow> Inl e | Inr env' \<Rightarrow> ssl_parse_args as env')"

section \<open>The code: attaching\<close>

datatype ssl_program =
    Prog_rw_enter | Prog_read_exit | Prog_write_exit | Prog_write_ex_enter | Prog_write_ex_exit | Prog_read_ex_enter
  | Prog_read_ex_exit | Prog_handshake_enter | Prog_handshake_exit | Prog_rustls_write | Prog_rustls_writev | Prog_rustls_plaintext

datatype uprobe_target = Func bytes | Offset nat

type_synonym probe_req = "ssl_program \<times> uprobe_target \<times> bool"
type_synonym attach_fn = "bytes \<Rightarrow> probe_req \<Rightarrow> int"
type_synonym ssl_links = "(bytes \<times> probe_req) list"

text \<open>A sequence of \<open>ATTACH_..._CHECKED\<close>: the first failure returns its error, and what is attached stays.\<close>

fun attach_list :: "attach_fn \<Rightarrow> bytes \<Rightarrow> probe_req list \<Rightarrow> ssl_links \<Rightarrow> int \<times> ssl_links" where
  "attach_list attach lib [] links = (0, links)"
| "attach_list attach lib (r # rs) links =
     (let err = attach lib r in if err \<noteq> 0 then (err, links) else attach_list attach lib rs (links @ [(lib, r)]))"

definition on_entry :: "ssl_program \<Rightarrow> bytes \<Rightarrow> probe_req" where
  "on_entry prog f = (prog, Func f, False)"

definition on_return :: "ssl_program \<Rightarrow> bytes \<Rightarrow> probe_req" where
  "on_return prog f = (prog, Func f, True)"

definition openssl_reqs :: "probe_req list" where
  "openssl_reqs =
     [on_entry Prog_rw_enter ''SSL_write'', on_return Prog_write_exit ''SSL_write'',
      on_entry Prog_rw_enter ''SSL_read'', on_return Prog_read_exit ''SSL_read'',
      on_entry Prog_write_ex_enter ''SSL_write_ex'', on_return Prog_write_ex_exit ''SSL_write_ex'',
      on_entry Prog_read_ex_enter ''SSL_read_ex'', on_return Prog_read_ex_exit ''SSL_read_ex'',
      on_entry Prog_handshake_enter ''SSL_do_handshake'', on_return Prog_handshake_exit ''SSL_do_handshake'']"

definition attach_openssl :: "attach_fn \<Rightarrow> bytes \<Rightarrow> ssl_links \<Rightarrow> int \<times> ssl_links" where
  "attach_openssl attach lib = attach_list attach lib openssl_reqs"

definition attach_gnutls :: "attach_fn \<Rightarrow> bytes \<Rightarrow> ssl_links \<Rightarrow> int \<times> ssl_links" where
  "attach_gnutls attach lib = attach_list attach lib
     [on_entry Prog_rw_enter ''gnutls_record_send'', on_return Prog_write_exit ''gnutls_record_send'',
      on_entry Prog_rw_enter ''gnutls_record_recv'', on_return Prog_read_exit ''gnutls_record_recv'']"

definition attach_nss :: "attach_fn \<Rightarrow> bytes \<Rightarrow> ssl_links \<Rightarrow> int \<times> ssl_links" where
  "attach_nss attach lib = attach_list attach lib
     [on_entry Prog_rw_enter ''PR_Write'', on_return Prog_write_exit ''PR_Write'',
      on_entry Prog_rw_enter ''PR_Send'', on_return Prog_write_exit ''PR_Send'',
      on_entry Prog_rw_enter ''PR_Read'', on_return Prog_read_exit ''PR_Read'',
      on_entry Prog_rw_enter ''PR_Recv'', on_return Prog_read_exit ''PR_Recv'']"

definition codex_req :: "codex_rustls_offset \<Rightarrow> probe_req" where
  "codex_req e = (if vectored e then Prog_rustls_writev else Prog_rustls_write, Offset (offset e), False)"

text \<open>On a failure all links of this function are destroyed.\<close>

definition attach_codex_rustls :: "attach_fn \<Rightarrow> bytes \<Rightarrow> codex_rustls_offset list \<Rightarrow> ssl_links \<Rightarrow> int \<times> ssl_links" where
  "attach_codex_rustls attach lib offsets links =
     (case attach_list attach lib (map codex_req offsets) links of
        (err, links') \<Rightarrow> if err \<noteq> 0 then (err, links) else (0, links'))"

definition attach_grok_rustls :: "attach_fn \<Rightarrow> bytes \<Rightarrow> nat \<Rightarrow> ssl_links \<Rightarrow> int \<times> ssl_links" where
  "attach_grok_rustls attach lib off links = attach_list attach lib [(Prog_rustls_plaintext, Offset off, False)] links"

definition offset_reqs :: "bool \<Rightarrow> boringssl_offsets \<Rightarrow> probe_req list" where
  "offset_reqs env_handshake offs =
     (if write_is_ex offs
      then [(Prog_write_ex_enter, Offset (ssl_write offs), False), (Prog_write_ex_exit, Offset (ssl_write offs), True)]
      else [(Prog_rw_enter, Offset (ssl_write offs), False), (Prog_write_exit, Offset (ssl_write offs), True)]) @
     (if read_is_ex offs
      then [(Prog_read_ex_enter, Offset (ssl_read offs), False), (Prog_read_ex_exit, Offset (ssl_read offs), True)]
      else [(Prog_rw_enter, Offset (ssl_read offs), False), (Prog_read_exit, Offset (ssl_read offs), True)]) @
     (if env_handshake
      then [(Prog_handshake_enter, Offset (ssl_do_handshake offs), False), (Prog_handshake_exit, Offset (ssl_do_handshake offs), True)]
      else [])"

definition attach_openssl_by_offset :: "attach_fn \<Rightarrow> bool \<Rightarrow> bytes \<Rightarrow> boringssl_offsets \<Rightarrow> ssl_links \<Rightarrow> int \<times> ssl_links" where
  "attach_openssl_by_offset attach env_handshake lib offs = attach_list attach lib (offset_reqs env_handshake offs)"

text \<open>\<open>find_library_path\<close>: the argument is the output of the command, \<open>None\<close> when it could not be run.\<close>

definition ldconfig_cmd :: "bytes \<Rightarrow> bytes" where
  "ldconfig_cmd libname = take 127 (''ldconfig -p | grep '' @ libname)"

definition find_library_path :: "bytes option \<Rightarrow> bytes option" where
  "find_library_path out =
     (case out of
        None \<Rightarrow> None
      | Some s \<Rightarrow>
          if s = [] then None
          else (case after_last (CHR ''>'') (c_str (fgets_line 510 s)) of
              Some (b # rest) \<Rightarrow> if b = CHR '' '' then Some (takeWhile (\<lambda>c. c \<noteq> CHR 0x0A) rest) else None
            | _ \<Rightarrow> None))"

section \<open>The code: events\<close>

record ssl_world =
  xw_getsid :: "u32 \<Rightarrow> i32"
  xw_status :: "u32 \<Rightarrow> bytes option"
  xw_cgroup :: "u32 \<Rightarrow> bytes option"
  xw_mbrtowc :: mbrtowc_fn

text \<open>The table of event names; \<open>None\<close> is an index outside of it.\<close>

definition rw_name :: "int \<Rightarrow> bytes option" where
  "rw_name rw = (if rw = 0 then Some ''READ/RECV'' else if rw = 1 then Some ''WRITE/SEND'' else if rw = 2 then Some ''HANDSHAKE'' else None)"

definition hex2 :: "char \<Rightarrow> bytes" where
  "hex2 c = [hex_digit (ord c div 16), hex_digit (ord c mod 16)]"

text \<open>The test for a masked WebSocket frame; \<open>event_buf\<close> are the captured bytes.\<close>

definition masked_frame :: "bytes \<Rightarrow> bool" where
  "masked_frame event_buf \<longleftrightarrow> 2 \<le> length event_buf \<and>
     ord (event_buf ! 0) AND 0x80 \<noteq> 0 \<and> ord (event_buf ! 0) AND 0x30 = 0 \<and> ord (event_buf ! 0) AND 0x0f \<le> 2 \<and>
     ord (event_buf ! 1) AND 0x80 \<noteq> 0"

definition ssl_print_event :: "ssl_world \<Rightarrow> ssl_opts \<Rightarrow> probe_SSL_data_t \<Rightarrow> bytes option" where
  "ssl_print_event w env event =
     (let buf_size = (if sd_buf_filled event then min (unat (sd_buf_size event)) SSL_MAX_BUF_SIZE else 0);
          event_buf = take buf_size (sd_buf event)
      in if xo_comm env \<noteq> None \<and> the (xo_comm env) \<noteq> c_str (sd_comm event) then Some []
         else if 0 < sint (xo_session_id env) \<and> xw_getsid w (sd_pid event) \<noteq> xo_session_id env then Some []
         else (case rw_name (sd_rw event) of
             None \<Rightarrow> None
           | Some name \<Rightarrow> Some (
               ''{'' @ ''\"function\":\"'' @ name @ ''\",'' @
               ''\"timestamp_ns\":'' @ dec_nat (unat (sd_timestamp_ns event)) @ '','' @
               ''\"comm\":\"'' @ c_str (sd_comm event) @ ''\",'' @
               ''\"pid\":'' @ dec_int (sint (sd_pid event)) @ '','' @
               ''\"len\":'' @ dec_int (sint (sd_len event)) @ '','' @
               ''\"buf_size\":'' @ dec_nat (unat (sd_buf_size event)) @ '','' @
               ''\"uid\":'' @ dec_int (sint (sd_uid event)) @ '','' @
               ''\"tid\":'' @ dec_int (sint (sd_tid event)) @ '','' @
               (if sd_delta_ns event \<noteq> 0 then ''\"latency_ms\":'' @ latency_ms (sd_delta_ns event) @ '','' else ''\"latency_ms\":0,'') @
               ''\"is_handshake\":'' @ (if sd_is_handshake event then ''true'' else ''false'') @ '','' @
               (if 0 < buf_size then
                  ''\"data\":'' @ json_print_escaped_quoted (xw_mbrtowc w) event_buf buf_size @ '','' @
                  (if masked_frame event_buf then ''\"data_hex\":\"'' @ concat (map hex2 event_buf) @ ''\",'' else []) @
                  (if buf_size < unat (sd_len event)
                   then ''\"truncated\":true,\"bytes_lost\":'' @ dec_int (sint (sd_len event - of_nat buf_size)) else ''\"truncated\":false'')
                else ''\"data\":null,\"truncated\":false'') @
               print_container_fields (xw_status w (sd_pid event)) (xw_cgroup w (sd_pid event)) @ ''}'' @ [CHR 0x0A])))"

definition ssl_handle_event :: "ssl_world \<Rightarrow> ssl_opts \<Rightarrow> probe_SSL_data_t \<Rightarrow> bytes option" where
  "ssl_handle_event w env e =
     (if sd_is_handshake e then (if xo_handshake env then ssl_print_event w env e else Some []) else ssl_print_event w env e)"

fun ssl_handle_events :: "ssl_opts \<Rightarrow> (ssl_world \<times> probe_SSL_data_t) list \<Rightarrow> bytes option" where
  "ssl_handle_events env [] = Some []"
| "ssl_handle_events env ((w, e) # es) =
     do { a \<leftarrow> ssl_handle_event w env e; b \<leftarrow> ssl_handle_events env es; Some (a @ b) }"

section \<open>The code: main\<close>

record ssl_host =
  xh_open :: bool
  xh_load :: int
  xh_alloc :: bool
  xh_ring :: "int option"
  xh_signal :: bool
  xh_attach :: attach_fn
  xh_popen :: "bytes \<Rightarrow> bytes option"
  xh_access :: "int option"
  xh_codex_reads :: "read_result list option"
  xh_grok_reads :: "read_result list option"
  xh_codex_map :: "bytes option"
  xh_grok_map :: "bytes option"
  xh_stat :: "nat option"
  xh_reads :: "read_result list"

definition ENOENT :: int where
  "ENOENT = 2"

definition ssl_rodata :: "ssl_opts \<Rightarrow> ssl_config" where
  "ssl_rodata env = \<lparr>targ_pid = (if xo_pid env = -1 then 0 else xo_pid env), targ_uid = xo_uid env\<rparr>"

text \<open>What is known of the binary: \<open>is_codex\<close> with the offsets, \<open>is_grok\<close> with the offset.\<close>

definition inspect_binary :: "ssl_host \<Rightarrow> (bool \<times> codex_rustls_offset list option \<times> bool \<times> nat option) option" where
  "inspect_binary h =
     do { is_codex \<leftarrow> codex_binary_has_tls_markers (xh_codex_reads h);
          codex \<leftarrow> (if is_codex then do { (ok, offs) \<leftarrow> codex_find_rustls_offsets (xh_codex_map h); Some (if ok then Some offs else None) }
                    else Some None);
          is_grok \<leftarrow> grok_binary_has_tls_markers (xh_grok_reads h);
          grok \<leftarrow> (if is_grok then grok_find_rustls_buffer_plaintext_offset (xh_grok_map h) else Some None);
          Some (is_codex, codex, is_grok, grok) }"

text \<open>Attaching to the libraries that \<open>ldconfig\<close> knows; failures are ignored.\<close>

definition attach_library :: "ssl_host \<Rightarrow> bool \<Rightarrow> bytes \<Rightarrow> (attach_fn \<Rightarrow> bytes \<Rightarrow> ssl_links \<Rightarrow> int \<times> ssl_links) \<Rightarrow> ssl_links \<Rightarrow> ssl_links" where
  "attach_library h enabled libname attacher links =
     (if enabled then
        (case find_library_path (xh_popen h (ldconfig_cmd libname)) of
           Some path \<Rightarrow> snd (attacher (xh_attach h) path links)
         | None \<Rightarrow> links)
      else links)"

definition attach_binary ::
  "ssl_host \<Rightarrow> ssl_opts \<Rightarrow> bytes \<Rightarrow> codex_rustls_offset list option \<Rightarrow> nat option \<Rightarrow> ssl_links \<Rightarrow> (int \<times> ssl_links) option" where
  "attach_binary h env lib codex grok links =
     (case xh_access h of
        Some errno \<Rightarrow> Some (- errno, links)
      | None \<Rightarrow>
          let test_err = xh_attach h lib (on_entry Prog_rw_enter ''SSL_write'') in
          if test_err = 0 then Some (attach_openssl (xh_attach h) lib links)
          else if test_err \<noteq> - ENOENT then Some (test_err, links)
          else (case codex of
              Some offs \<Rightarrow> Some (attach_codex_rustls (xh_attach h) lib offs links)
            | None \<Rightarrow>
                (case grok of
                   Some off \<Rightarrow> Some (attach_grok_rustls (xh_attach h) lib off links)
                 | None \<Rightarrow>
                     do { offs \<leftarrow> find_boringssl_offsets (xo_handshake env) (xh_stat h) (xh_reads h);
                          Some (if found offs then attach_openssl_by_offset (xh_attach h) (xo_handshake env) lib offs links
                                else (- ENOENT, links)) })))"

record ssl_turn =
  xt_calls :: "(ssl_prog \<times> ssl_env) list"
  xt_poll :: int
  xt_worlds :: "nat \<Rightarrow> ssl_world"

definition SSL_EINTR :: int where
  "SSL_EINTR = 4"

fun ssl_loop :: "ssl_opts \<Rightarrow> ssl_turn list \<Rightarrow> int \<Rightarrow> ssl_state \<Rightarrow> (int \<times> ssl_state \<times> bytes) option" where
  "ssl_loop env [] err st = Some (err, st, [])"
| "ssl_loop env (t # ts) err st =
     (let st1 = fold (run_ssl (ssl_rodata env)) (xt_calls t) st in
      if xt_poll t < 0 \<and> xt_poll t \<noteq> - SSL_EINTR then Some (xt_poll t, st1, [])
      else
        let n = nat (xt_poll t); evs = take n (ssl_rb st1) in
        do { out \<leftarrow> ssl_handle_events env (zip (map (xt_worlds t) [0..<length evs]) evs);
             (err', st', out') \<leftarrow> ssl_loop env ts 0 (st1\<lparr>ssl_rb := drop n (ssl_rb st1)\<rparr>);
             Some (err', st', out @ out') })"

datatype ssl_result = Ssl_usage ssl_opt_error | Ssl_exit int "(ssl_links \<times> ssl_state) option" bytes

definition ssl_status :: "int \<Rightarrow> int" where
  "ssl_status err = (if err \<noteq> 0 then 1 else 0)"

definition ssl_empty :: ssl_state where
  "ssl_empty = \<lparr>readbytes_ptrs = Map.empty, start_ns = Map.empty, bufs = Map.empty, ssl_rb = []\<rparr>"

definition ssl_loaded ::
  "ssl_host \<Rightarrow> ssl_opts \<Rightarrow> codex_rustls_offset list option \<Rightarrow> nat option \<Rightarrow> ssl_turn list \<Rightarrow> ssl_result option" where
  "ssl_loaded h env codex grok turns =
     (let links1 = attach_library h (xo_openssl env) ''libssl.so'' attach_openssl [];
          links2 = attach_library h (xo_gnutls env) ''libgnutls.so'' attach_gnutls links1;
          links3 = attach_library h (xo_nss env) ''libnspr4.so'' attach_nss links2
      in do { (err, links) \<leftarrow> (case xo_extra_lib env of None \<Rightarrow> Some (0, links3) | Some lib \<Rightarrow> attach_binary h env lib codex grok links3);
              if err \<noteq> 0 then Some (Ssl_exit (ssl_status err) None [])
              else (case xh_ring h of
                  Some errno \<Rightarrow> Some (Ssl_exit (ssl_status (- errno)) None [])
                | None \<Rightarrow>
                    if \<not> xh_signal h then Some (Ssl_exit (ssl_status 1) None [])
                    else do { (err', st, out) \<leftarrow> ssl_loop env turns 0 ssl_empty;
                              Some (Ssl_exit (ssl_status err') (Some (links, st)) out) }) })"

definition ssl_main :: "ssl_host \<Rightarrow> ssl_arg list \<Rightarrow> ssl_turn list \<Rightarrow> ssl_result option" where
  "ssl_main h argv turns =
     (case ssl_parse_args argv ssl_default_opts of
        Inl e \<Rightarrow> Some (Ssl_usage e)
      | Inr env \<Rightarrow>
          do { (is_codex, codex, is_grok, grok) \<leftarrow>
                 (if xo_extra_lib env \<noteq> None then inspect_binary h else Some (False, None, False, None));
               if \<not> xh_open h then Some (Ssl_exit (ssl_status 0) None [])
               else if xh_load h \<noteq> 0 then Some (Ssl_exit (ssl_status (xh_load h)) None [])
               else if \<not> xh_alloc h then Some (Ssl_exit (ssl_status (-12)) None [])
               else ssl_loaded h env codex grok turns })"

section \<open>The line of an event\<close>

definition container_members :: "bytes option \<Rightarrow> bytes option \<Rightarrow> (bytes \<times> jval) list" where
  "container_members status cgroup =
     (if 0 < sint (get_ns_pid status) then
        (''ns_pid'', JLit (dec_int (sint (get_ns_pid status)))) #
        (case get_container_id cgroup 16 of Some cid \<Rightarrow> if cid \<noteq> [] then [(''container_id'', JStr cid)] else [] | None \<Rightarrow> [])
      else [])"

definition ssl_payload_size :: "probe_SSL_data_t \<Rightarrow> nat" where
  "ssl_payload_size e = (if sd_buf_filled e then min (unat (sd_buf_size e)) SSL_MAX_BUF_SIZE else 0)"

definition ssl_payload :: "probe_SSL_data_t \<Rightarrow> bytes" where
  "ssl_payload e = take (ssl_payload_size e) (sd_buf e)"

definition data_members :: "mbrtowc_fn \<Rightarrow> probe_SSL_data_t \<Rightarrow> (bytes \<times> jval) list" where
  "data_members mb e =
     (if 0 < ssl_payload_size e then
        [(''data'', JStr (json_print_escaped mb (ssl_payload e) (ssl_payload_size e)))] @
        (if masked_frame (ssl_payload e) then [(''data_hex'', JStr (concat (map hex2 (ssl_payload e))))] else []) @
        (if ssl_payload_size e < unat (sd_len e)
         then [(''truncated'', JLit ''true''), (''bytes_lost'', JLit (dec_int (sint (sd_len e - of_nat (ssl_payload_size e)))))]
         else [(''truncated'', JLit ''false'')])
      else [(''data'', JLit ''null''), (''truncated'', JLit ''false'')])"

definition ssl_fields :: "ssl_world \<Rightarrow> bytes \<Rightarrow> probe_SSL_data_t \<Rightarrow> (bytes \<times> jval) list" where
  "ssl_fields w name e =
     [(''function'', JStr name), (''timestamp_ns'', JLit (dec_nat (unat (sd_timestamp_ns e)))), (''comm'', JStr (c_str (sd_comm e))),
      (''pid'', JLit (dec_int (sint (sd_pid e)))), (''len'', JLit (dec_int (sint (sd_len e)))),
      (''buf_size'', JLit (dec_nat (unat (sd_buf_size e)))), (''uid'', JLit (dec_int (sint (sd_uid e)))),
      (''tid'', JLit (dec_int (sint (sd_tid e)))),
      (''latency_ms'', JLit (if sd_delta_ns e \<noteq> 0 then latency_ms (sd_delta_ns e) else ''0'')),
      (''is_handshake'', JLit (if sd_is_handshake e then ''true'' else ''false''))] @
     data_members (xw_mbrtowc w) e @ container_members (xw_status w (sd_pid e)) (xw_cgroup w (sd_pid e))"

definition ssl_selected :: "ssl_world \<Rightarrow> ssl_opts \<Rightarrow> probe_SSL_data_t \<Rightarrow> bool" where
  "ssl_selected w env e \<longleftrightarrow>
     (case xo_comm env of None \<Rightarrow> True | Some c \<Rightarrow> c = c_str (sd_comm e)) \<and>
     (0 < sint (xo_session_id env) \<longrightarrow> xw_getsid w (sd_pid e) = xo_session_id env)"

lemma render_container: "render_tail (container_members status cgroup) = print_container_fields status cgroup"
  by (auto simp: container_members_def print_container_fields_def render_member_def Let_def split: option.split)

lemma render_data:
  "render_tail (data_members mb e) = CHR '','' # 
     (if 0 < ssl_payload_size e then
        ''\"data\":'' @ json_print_escaped_quoted mb (ssl_payload e) (ssl_payload_size e) @ '','' @
        (if masked_frame (ssl_payload e) then ''\"data_hex\":\"'' @ concat (map hex2 (ssl_payload e)) @ ''\",'' else []) @
        (if ssl_payload_size e < unat (sd_len e)
         then ''\"truncated\":true,\"bytes_lost\":'' @ dec_int (sint (sd_len e - of_nat (ssl_payload_size e))) else ''\"truncated\":false'')
      else ''\"data\":null,\"truncated\":false'')"
  by (simp add: data_members_def render_member_def json_print_escaped_quoted_def)

lemma ssl_print_event_render:
  "ssl_print_event w env e =
     (if ssl_selected w env e then map_option (\<lambda>name. render_line (ssl_fields w name e)) (rw_name (sd_rw e)) else Some [])"
proof -
  have sel: "ssl_selected w env e \<longleftrightarrow> \<not> (xo_comm env \<noteq> None \<and> the (xo_comm env) \<noteq> c_str (sd_comm e)) \<and>
      \<not> (0 < sint (xo_session_id env) \<and> xw_getsid w (sd_pid e) \<noteq> xo_session_id env)"
    by (auto simp: ssl_selected_def split: option.split)
  show ?thesis
  proof (cases "rw_name (sd_rw e)")
    case None
    then show ?thesis unfolding ssl_print_event_def sel Let_def by auto
  next
    case (Some name)
    have "render_line (ssl_fields w name e) = CHR ''{'' # render_members (ssl_fields w name e) @ [CHR ''}'', CHR 0x0A]"
      by (simp add: render_line_def)
    with Some show ?thesis
      unfolding ssl_print_event_def sel Let_def ssl_fields_def ssl_payload_size_def[symmetric] ssl_payload_def[symmetric] append_Cons append_Nil
        render_members_tail render_tail_simps render_container render_data
      by (simp add: render_member_def)
  qed
qed

lemma json_chars_hex: "list_all (\<lambda>c. is_hex c) s \<Longrightarrow> json_chars s"
proof (rule json_chars_ascii)
  assume "list_all (\<lambda>c. is_hex c) s"
  moreover have "is_hex c \<Longrightarrow> 32 \<le> ord c \<and> ord c < 0x80 \<and> c \<noteq> quote \<and> c \<noteq> CHR 0x5C" for c
    by (auto simp: is_hex_def)
  ultimately show "list_all (\<lambda>c. 32 \<le> ord c \<and> ord c < 0x80 \<and> c \<noteq> quote \<and> c \<noteq> CHR 0x5C) s" by (simp add: list_all_iff)
qed

lemma hex2_hex: "list_all is_hex (concat (map hex2 b))"
  using byte_nibbles by (induction b) (simp_all add: hex2_def is_hex_digit)

lemma container_id_hex: "get_container_id cgroup n = Some cid \<Longrightarrow> list_all is_hex cid"
proof -
  assume "get_container_id cgroup n = Some cid"
  then obtain ls where "cid_lines ls n = Some cid" by (auto simp: get_container_id_def split: option.splits)
  then obtain l run where "run \<in> id_runs (c_str l)" "cid = take (min (n - 1) 12) run" using cid_lines_iff[of ls n] by auto
  moreover from this(1) have "list_all is_lower_hex run" by (auto simp: id_runs_def hex_run_def)
  moreover have "is_lower_hex c \<Longrightarrow> is_hex c" for c by (auto simp: is_lower_hex_def is_digit_def is_hex_def)
  ultimately show ?thesis by (auto simp: list_all_iff dest: in_set_takeD)
qed

lemma ssl_fields_ok:
  assumes "multibyte (xw_mbrtowc w)" "json_chars (c_str (sd_comm e))" "rw_name rw = Some name"
  shows "list_all member_ok (ssl_fields w name e)"
proof -
  have "json_chars (json_print_escaped (xw_mbrtowc w) b n)" for b n
    unfolding json_print_escaped_def by (rule multibyte.escape_loop_json[OF assms(1)])
  moreover have keys: "json_chars s" if "s \<in> {''function'', ''timestamp_ns'', ''comm'', ''pid'', ''len'', ''buf_size'', ''uid'', ''tid'',
      ''latency_ms'', ''is_handshake'', ''data'', ''data_hex'', ''truncated'', ''bytes_lost'', ''ns_pid'', ''container_id''}" for s
    using that by (auto intro!: json_chars_ascii)
  ultimately have "list_all member_ok (data_members (xw_mbrtowc w) e)"
    by (simp add: data_members_def member_ok_def json_chars_hex[OF hex2_hex])
  moreover have "list_all member_ok (container_members status cgroup)" for status cgroup
    using keys json_chars_hex[OF container_id_hex] by (auto simp: container_members_def member_ok_def split: option.split)
  moreover have "json_chars name" using assms(3) by (auto simp: rw_name_def intro!: json_chars_ascii split: if_splits)
  ultimately show ?thesis using assms(2) keys by (simp add: ssl_fields_def member_ok_def)
qed

lemma ssl_line_parses:
  assumes "multibyte (xw_mbrtowc w)" "json_chars (c_str (sd_comm e))" "ssl_selected w env e" "rw_name (sd_rw e) = Some name"
  shows "\<exists>line. ssl_print_event w env e = Some line \<and> parse_line line = Some (ssl_fields w name e)"
  using parse_line_render[OF _ ssl_fields_ok[OF assms(1,2,4)]] assms(3,4)
  by (simp add: ssl_print_event_render) (simp add: ssl_fields_def)

text \<open>
  C10: The line of a TLS event is a JSON object for any captured bytes, provided the command name needs no
  escape. It names the kind of call; when the captured bytes are UTF-8 text, reading the object back
  gives exactly these bytes, and the object says whether the call moved more than was captured.
\<close>

theorem ssl_line_roundtrip:
  assumes "event_ok e" "multibyte (xw_mbrtowc w)" "json_chars (c_str (sd_comm e))" "ssl_selected w env e" "sd_buf_filled e"
  shows "\<exists>line ms. ssl_print_event w env e = Some line \<and> parse_line line = Some ms \<and>
    map_of ms ''function'' = Some (JStr ([''READ/RECV'', ''WRITE/SEND'', ''HANDSHAKE''] ! nat (sd_rw e))) \<and>
    (utf8_mbrtowc (xw_mbrtowc w) \<longrightarrow> 0 < sd_buf_size e \<longrightarrow> utf8_text (take (unat (sd_buf_size e)) (sd_buf e)) \<longrightarrow>
      (\<exists>s. map_of ms ''data'' = Some (JStr s) \<and> json_unescape s = Some (take (unat (sd_buf_size e)) (sd_buf e)) \<and>
        map_of ms ''truncated'' = Some (JLit (if sd_buf_size e < sd_len e then ''true'' else ''false''))))"
proof -
  have rw: "rw_name (sd_rw e) = Some ([''READ/RECV'', ''WRITE/SEND'', ''HANDSHAKE''] ! nat (sd_rw e))"
    using assms(1) by (auto simp: event_ok_def rw_name_def)
  have k: "ssl_payload_size e = unat (sd_buf_size e)" using assms(1,5) by (simp add: ssl_payload_size_def event_ok_def)
  show ?thesis
    using ssl_line_parses[OF assms(2-4) rw]
      utf8_mbrtowc.escape_loop_unescape[of "xw_mbrtowc w" "take (unat (sd_buf_size e)) (sd_buf e)"]
    by (auto simp: ssl_fields_def data_members_def ssl_payload_def k json_print_escaped_def word_less_nat_alt word_gt_0_no)
qed

definition demo_event :: probe_SSL_data_t where
  "demo_event = demo_slot\<lparr>sd_pid := 5, sd_len := 9, sd_buf_size := 2, sd_buf_filled := True, sd_rw := 1, sd_comm := ''curl'',
     sd_buf := ''hi'' @ replicate (SSL_MAX_BUF_SIZE - 2) NUL\<rparr>"

definition demo_world :: ssl_world where
  "demo_world = \<lparr>xw_getsid = (\<lambda>_. 1), xw_status = (\<lambda>_. None), xw_cgroup = (\<lambda>_. None), xw_mbrtowc = mbrtowc_utf8\<rparr>"

theorem ssl_line_roundtrip_witness:
  "\<exists>line ms s. ssl_print_event demo_world ssl_default_opts demo_event = Some line \<and> parse_line line = Some ms \<and>
    map_of ms ''function'' = Some (JStr ''WRITE/SEND'') \<and> map_of ms ''data'' = Some (JStr s) \<and> json_unescape s = Some ''hi'' \<and>
    map_of ms ''truncated'' = Some (JLit ''true'')"
proof -
  have size: "SSL_MAX_BUF_SIZE = Suc (Suc (SSL_MAX_BUF_SIZE - 2))" by (simp add: SSL_MAX_BUF_SIZE_def)
  have e: "event_ok demo_event" "json_chars (c_str (sd_comm demo_event))" "ssl_selected demo_world ssl_default_opts demo_event"
    "sd_buf_filled demo_event" "sd_rw demo_event = 1" "0 < sd_buf_size demo_event" "sd_buf_size demo_event < sd_len demo_event"
    "take (unat (sd_buf_size demo_event)) (sd_buf demo_event) = ''hi''"
    using size by (simp_all add: demo_event_def event_ok_def ssl_selected_def ssl_default_opts_def)
  have mb: "multibyte (xw_mbrtowc demo_world)" "utf8_mbrtowc (xw_mbrtowc demo_world)"
    by (simp_all add: demo_world_def utf8_locale.multibyte_axioms utf8_locale.utf8_mbrtowc_axioms)
  have "utf8_text ''hi''" by (simp add: Let_def utf8_len.simps)
  then show ?thesis using ssl_line_roundtrip[OF e(1) mb(1) e(2-4)] mb(2) e(5-8) by auto
qed

section \<open>No access outside of a buffer or table\<close>

lemma markers_safe: "\<exists>b. codex_binary_has_tls_markers f = Some b" "\<exists>b. grok_binary_has_tls_markers f = Some b"
proof -
  have "\<exists>r. binary_has_rustls_markers f a b = Some r" if "length a \<le> 33" "\<forall>m. b = Some m \<longrightarrow> length m \<le> 33" for a b
  proof (cases f)
    case (Some rs)
    have "\<not> (contains_any [] a b \<and> contains [] ''rustls'')" by (simp add: contains_def)
    from markers_loop_exact[OF that this] show ?thesis
      using Some by (cases rs) (auto simp: binary_has_rustls_markers_def codex_buf_contains_eq Let_def contains_any_def contains_def)
  qed (auto simp: binary_has_rustls_markers_def)
  then show "\<exists>b. codex_binary_has_tls_markers f = Some b" "\<exists>b. grok_binary_has_tls_markers f = Some b"
    by (simp_all add: codex_binary_has_tls_markers_def grok_binary_has_tls_markers_def)
qed

lemma codex_offsets_safe: "\<exists>r. codex_find_rustls_offsets f = Some r"
proof (cases f)
  case (Some data)
  obtain out where "writev_scan data 0 [] = Some out" "length out \<le> max_offsets"
    using writev_scan_sites[of 0 data "[]"] by simp
  then show ?thesis using Some write_scan_sites[of 0 data out] by (auto simp: codex_find_rustls_offsets_def)
qed (auto simp: codex_find_rustls_offsets_def)

lemma grok_offset_safe: "\<exists>r. grok_find_rustls_buffer_plaintext_offset f = Some r"
proof (cases f)
  case (Some data)
  obtain r where r: "codex_find_pattern data grok_rustls_buffer_plaintext_prefix = Some r" using grok.search_safe by blast
  have cmp: "memcmp_eq data i p = Some (take (length p) (drop i data) = p)" if "i + length p \<le> length data" for i p
    using that by (simp add: memcmp_eq_def)
  have lens: "GROK_RUSTLS_OUTBOUND_TAG_OFFSET + length grok_rustls_outbound_tag \<le> GROK_RUSTLS_OUTBOUND_DATA_OFFSET + length grok_rustls_outbound_data"
    "GROK_RUSTLS_OUTBOUND_RANGE_OFFSET + length grok_rustls_outbound_range \<le> GROK_RUSTLS_OUTBOUND_DATA_OFFSET + length grok_rustls_outbound_data"
    by (simp_all add: GROK_RUSTLS_OUTBOUND_TAG_OFFSET_def GROK_RUSTLS_OUTBOUND_RANGE_OFFSET_def GROK_RUSTLS_OUTBOUND_DATA_OFFSET_def
        grok_rustls_outbound_tag_def grok_rustls_outbound_range_def grok_rustls_outbound_data_def)
  show ?thesis
  proof (cases "\<exists>off. r = Some off \<and> off + GROK_RUSTLS_OUTBOUND_DATA_OFFSET + length grok_rustls_outbound_data \<le> length data")
    case True
    then obtain off where off: "r = Some off" "off + GROK_RUSTLS_OUTBOUND_DATA_OFFSET + length grok_rustls_outbound_data \<le> length data" by blast
    then show ?thesis
      using Some r lens by (simp add: grok_find_rustls_buffer_plaintext_offset_def cmp)
  next
    case False
    then show ?thesis using Some r by (auto simp: grok_find_rustls_buffer_plaintext_offset_def split: option.split)
  qed
qed (simp add: grok_find_rustls_buffer_plaintext_offset_def)

lemma boringssl_safe: "\<exists>r. find_boringssl_offsets hs sz reads = Some r"
proof (cases "\<exists>n data. sz = Some n \<and> n \<noteq> 0 \<and> read_fully n reads [] = Some data")
  case True
  then obtain n data where n: "sz = Some n" "n \<noteq> 0" "read_fully n reads [] = Some data" by blast
  obtain f where f: "find_pattern data read_pat = Some f" using bread.search_safe by blast
  show ?thesis
  proof (cases f)
    case (Some r)
    then have r: "pat_at read_pat data r" using f bread.search_Some[of data r] by simp
    obtain h w where "locate_handshake hs data r = Some h" "locate_write data r = Some w"
      using locate_handshake_safe[OF r] locate_write_safe[OF r] by blast
    then show ?thesis using n f Some by (simp add: find_boringssl_offsets_def split: option.split)
  qed (use n f in \<open>simp add: find_boringssl_offsets_def\<close>)
qed (auto simp: find_boringssl_offsets_def split: option.split)

lemma inspect_binary_safe: "\<exists>r. inspect_binary h = Some r"
proof -
  obtain b1 b2 where "codex_binary_has_tls_markers (xh_codex_reads h) = Some b1" "grok_binary_has_tls_markers (xh_grok_reads h) = Some b2"
    using markers_safe by blast
  moreover obtain r1 r2 where "codex_find_rustls_offsets (xh_codex_map h) = Some r1"
    "grok_find_rustls_buffer_plaintext_offset (xh_grok_map h) = Some r2"
    using codex_offsets_safe grok_offset_safe by blast
  ultimately have "inspect_binary h \<noteq> None" by (cases r1; cases b1; cases b2) (simp_all add: inspect_binary_def)
  then show ?thesis by blast
qed

lemma attach_binary_safe: "\<exists>err links'. attach_binary h env lib codex grok links = Some (err, links')"
proof -
  obtain offs where "find_boringssl_offsets (xo_handshake env) (xh_stat h) (xh_reads h) = Some offs" using boringssl_safe by blast
  then have "\<exists>r. attach_binary h env lib codex grok links = Some r" by (simp add: attach_binary_def Let_def split: option.split)
  then show ?thesis by (metis prod.exhaust)
qed

lemma ssl_handle_events_safe: "\<forall>(w, e)\<in>set wes. event_ok e \<Longrightarrow> \<exists>out. ssl_handle_events env wes = Some out"
proof (induction wes)
  case (Cons we wes)
  obtain w e where we: "we = (w, e)" by (cases we)
  then have "event_ok e" using Cons.prems by simp
  then obtain name where "rw_name (sd_rw e) = Some name" by (auto simp: event_ok_def rw_name_def)
  then have "\<exists>out. ssl_handle_event w env e = Some out" by (simp add: ssl_handle_event_def ssl_print_event_render)
  with Cons show ?case by (auto simp: we)
qed simp

lemma run_ssl_list_ok:
  assumes "\<forall>p\<in>set ps. slot_ok (snd p)" "list_all event_ok (ssl_rb st)"
  shows "list_all event_ok (ssl_rb (fold (run_ssl cfg) ps st))"
  using assms by (induction ps arbitrary: st) (simp_all add: run_ssl_ok)

lemma ssl_loop_safe:
  assumes "\<forall>t\<in>set ts. \<forall>p\<in>set (xt_calls t). slot_ok (snd p)" "list_all event_ok (ssl_rb st)"
  shows "\<exists>err' st' out. ssl_loop env ts err st = Some (err', st', out)"
  using assms
proof (induction ts arbitrary: err st)
  case (Cons t ts)
  let ?st1 = "fold (run_ssl (ssl_rodata env)) (xt_calls t) st"
  have ok: "list_all event_ok (ssl_rb ?st1)" using Cons.prems by (intro run_ssl_list_ok) simp_all
  show ?case
  proof (cases "xt_poll t < 0 \<and> xt_poll t \<noteq> - SSL_EINTR")
    case False
    let ?n = "nat (xt_poll t)"
    let ?evs = "take ?n (ssl_rb ?st1)"
    have "list_all event_ok (drop ?n (ssl_rb ?st1))" using ok by (auto simp: list_all_iff dest: in_set_dropD)
    then obtain err' st' out' where "ssl_loop env ts 0 (?st1\<lparr>ssl_rb := drop ?n (ssl_rb ?st1)\<rparr>) = Some (err', st', out')"
      using Cons.IH[of "?st1\<lparr>ssl_rb := drop ?n (ssl_rb ?st1)\<rparr>" 0] Cons.prems by auto
    moreover obtain out where "ssl_handle_events env (zip (map (xt_worlds t) [0..<length ?evs]) ?evs) = Some out"
      using ok ssl_handle_events_safe[of "zip (map (xt_worlds t) [0..<length ?evs]) ?evs" env]
      by (auto simp: list_all_iff dest!: set_zip_rightD in_set_takeD)
    ultimately show ?thesis using False by (simp add: Let_def)
  qed (simp add: Let_def)
qed simp

text \<open>
  C11: A run of the TLS tracer never reads outside the binary it searches or the buffers it fills, and
  never indexes the table of event names out of range: whatever the host answers and whatever the
  traced processes do, it ends with a usage message or an exit status.
\<close>

theorem ssl_main_returns:
  assumes "\<forall>t\<in>set turns. \<forall>p\<in>set (xt_calls t). slot_ok (snd p)"
  shows "\<exists>res. ssl_main h argv turns = Some res \<and> (case res of Ssl_usage e \<Rightarrow> True | Ssl_exit status r out \<Rightarrow> status \<in> {0, 1})"
proof -
  have status: "ssl_status e \<in> {0, 1}" for e by (simp add: ssl_status_def)
  have "\<exists>res. ssl_loaded h env codex grok turns = Some res \<and> (case res of Ssl_usage e \<Rightarrow> True | Ssl_exit status r out \<Rightarrow> status \<in> {0, 1})"
    for env codex grok
  proof -
    obtain err' st' out where loop: "ssl_loop env turns 0 ssl_empty = Some (err', st', out)"
      using ssl_loop_safe[OF assms, of ssl_empty env 0] by (auto simp: ssl_empty_def)
    show ?thesis
    proof (cases "xo_extra_lib env")
      case None
      then show ?thesis using loop status by (auto simp: ssl_loaded_def Let_def split: option.split)
    next
      case (Some lib)
      obtain err links where "attach_binary h env lib codex grok
          (attach_library h (xo_nss env) ''libnspr4.so'' attach_nss (attach_library h (xo_gnutls env) ''libgnutls.so'' attach_gnutls
            (attach_library h (xo_openssl env) ''libssl.so'' attach_openssl []))) = Some (err, links)"
        using attach_binary_safe by blast
      then show ?thesis using Some loop status by (auto simp: ssl_loaded_def Let_def split: option.split)
    qed
  qed
  moreover obtain r where "inspect_binary h = Some r" using inspect_binary_safe by blast
  ultimately show ?thesis using status by (auto simp: ssl_main_def split: sum.split prod.split)
qed

definition quiet_host :: ssl_host where
  "quiet_host = \<lparr>xh_open = True, xh_load = 0, xh_alloc = True, xh_ring = None, xh_signal = True, xh_attach = (\<lambda>_ _. 0),
     xh_popen = (\<lambda>_. None), xh_access = None, xh_codex_reads = None, xh_grok_reads = None, xh_codex_map = None,
     xh_grok_map = None, xh_stat = None, xh_reads = []\<rparr>"

theorem ssl_main_returns_witness:
  "\<exists>res. ssl_main quiet_host [XA_binary_path ''/opt/agent'']
      [\<lparr>xt_calls = [(S_rw_enter 300, demo_env), (S_write_exit, demo_env)], xt_poll = 1, xt_worlds = (\<lambda>_. demo_world)\<rparr>] = Some res \<and>
    (case res of Ssl_usage e \<Rightarrow> True | Ssl_exit status r out \<Rightarrow> status \<in> {0, 1})"
  by (rule ssl_main_returns) (simp add: slot_ok_def demo_env_facts)

section \<open>Attaching to a binary\<close>

lemma attach_list_all:
  "attach_list attach lib rs links = (0, links') \<Longrightarrow> links' = links @ map (Pair lib) rs \<and> (\<forall>r\<in>set rs. attach lib r = 0)"
  by (induction rs arbitrary: links) (fastforce simp: Let_def split: if_splits)+

text \<open>The probes that capture the traffic of a binary: by symbol, or by what was found in its code.\<close>

definition complete_probes :: "ssl_host \<Rightarrow> ssl_opts \<Rightarrow> probe_req list \<Rightarrow> bool" where
  "complete_probes h env rs \<longleftrightarrow>
     rs = openssl_reqs \<or>
     (\<exists>offs. codex_find_rustls_offsets (xh_codex_map h) = Some (True, offs) \<and> rs = map codex_req offs) \<or>
     (\<exists>off. grok_find_rustls_buffer_plaintext_offset (xh_grok_map h) = Some (Some off) \<and> rs = [(Prog_rustls_plaintext, Offset off, False)]) \<or>
     (\<exists>offs. find_boringssl_offsets (xo_handshake env) (xh_stat h) (xh_reads h) = Some offs \<and> found offs \<and> rs = offset_reqs (xo_handshake env) offs)"

lemma attach_binary_complete:
  assumes "attach_binary h env lib codex grok links = Some (0, links')"
    and "\<forall>offs. codex = Some offs \<longrightarrow> codex_find_rustls_offsets (xh_codex_map h) = Some (True, offs)"
    and "\<forall>off. grok = Some off \<longrightarrow> grok_find_rustls_buffer_plaintext_offset (xh_grok_map h) = Some (Some off)"
    and "\<forall>e. xh_access h = Some e \<longrightarrow> e \<noteq> 0"
  shows "\<exists>rs. complete_probes h env rs \<and> links' = links @ map (Pair lib) rs \<and> (\<forall>r\<in>set rs. xh_attach h lib r = 0)"
proof -
  have by_list: ?thesis if "complete_probes h env rs" "attach_list (xh_attach h) lib rs links = (0, links')" for rs
    using that attach_list_all by blast
  have acc: "xh_access h = None" using assms(1,4) by (auto simp: attach_binary_def split: option.splits)
  consider (sym) "attach_openssl (xh_attach h) lib links = (0, links')"
    | (codex) offs where "codex = Some offs" "attach_codex_rustls (xh_attach h) lib offs links = (0, links')"
    | (grok) off where "grok = Some off" "attach_grok_rustls (xh_attach h) lib off links = (0, links')"
    | (boring) offs where "find_boringssl_offsets (xo_handshake env) (xh_stat h) (xh_reads h) = Some offs" "found offs"
        "attach_openssl_by_offset (xh_attach h) (xo_handshake env) lib offs links = (0, links')"
    using assms(1) acc
    by (auto simp: attach_binary_def Let_def ENOENT_def bind_eq_Some_conv split: if_splits option.splits)
  then show ?thesis
  proof cases
    case sym
    then show ?thesis by (intro by_list) (simp_all add: complete_probes_def attach_openssl_def)
  next
    case codex
    then have "attach_list (xh_attach h) lib (map codex_req offs) links = (0, links')"
      by (auto simp: attach_codex_rustls_def split: prod.splits if_splits)
    then show ?thesis using codex(1) assms(2) by (intro by_list) (auto simp: complete_probes_def)
  next
    case grok
    then show ?thesis using assms(3) by (intro by_list) (auto simp: complete_probes_def attach_grok_rustls_def)
  next
    case boring
    then show ?thesis by (intro by_list) (auto simp: complete_probes_def attach_openssl_by_offset_def)
  qed
qed

lemma inspect_binary_found:
  assumes "inspect_binary h = Some (ic, codex, ig, grok)"
  shows "(\<forall>offs. codex = Some offs \<longrightarrow> codex_find_rustls_offsets (xh_codex_map h) = Some (True, offs)) \<and>
    (\<forall>off. grok = Some off \<longrightarrow> grok_find_rustls_buffer_plaintext_offset (xh_grok_map h) = Some (Some off))"
  using assms by (auto simp: inspect_binary_def bind_eq_Some_conv split: if_splits)

text \<open>
  C12: With a binary on the command line the tracer never starts on partial capture. When it gets to its
  loop, every probe of one complete set is attached to that binary: the symbols of OpenSSL, all call
  sites of Codex's rustls, Grok's plaintext buffer, or the BoringSSL functions found by pattern.
\<close>

theorem ssl_binary_attached_completely:
  assumes "ssl_main h argv turns = Some (Ssl_exit status (Some (links, st)) out)"
    and "ssl_parse_args argv ssl_default_opts = Inr env" "xo_extra_lib env = Some lib" "\<forall>e. xh_access h = Some e \<longrightarrow> e \<noteq> 0"
  shows "\<exists>rs before. complete_probes h env rs \<and> links = before @ map (Pair lib) rs \<and> (\<forall>r\<in>set rs. xh_attach h lib r = 0)"
proof -
  obtain ic codex ig grok where ins: "inspect_binary h = Some (ic, codex, ig, grok)" and
    ld: "ssl_loaded h env codex grok turns = Some (Ssl_exit status (Some (links, st)) out)"
    using assms(1-3) by (auto simp: ssl_main_def bind_eq_Some_conv split: if_splits)
  let ?links3 = "attach_library h (xo_nss env) ''libnspr4.so'' attach_nss (attach_library h (xo_gnutls env) ''libgnutls.so'' attach_gnutls
            (attach_library h (xo_openssl env) ''libssl.so'' attach_openssl []))"
  have "attach_binary h env lib codex grok ?links3 = Some (0, links)"
    using ld assms(3) by (auto simp: ssl_loaded_def Let_def bind_eq_Some_conv split: if_splits option.splits)
  from attach_binary_complete[OF this _ _ assms(4)] inspect_binary_found[OF ins] show ?thesis by blast
qed

theorem ssl_binary_attached_completely_witness:
  "\<exists>rs before. complete_probes quiet_host (ssl_default_opts\<lparr>xo_extra_lib := Some ''/opt/agent''\<rparr>) rs \<and>
    map (Pair ''/opt/agent'') openssl_reqs = before @ map (Pair ''/opt/agent'') rs \<and> (\<forall>r\<in>set rs. xh_attach quiet_host ''/opt/agent'' r = 0)"
proof (rule ssl_binary_attached_completely)
  show "ssl_parse_args [XA_binary_path ''/opt/agent''] ssl_default_opts = Inr (ssl_default_opts\<lparr>xo_extra_lib := Some ''/opt/agent''\<rparr>)"
    "xo_extra_lib (ssl_default_opts\<lparr>xo_extra_lib := Some ''/opt/agent''\<rparr>) = Some ''/opt/agent''" by simp_all
  show "\<forall>e. xh_access quiet_host = Some e \<longrightarrow> e \<noteq> 0" by (simp add: quiet_host_def)
  have ok: "attach_list (\<lambda>_ _. 0) lib rs links = (0, links @ map (Pair lib) rs)" for lib rs links
    by (induction rs arbitrary: links) (simp_all add: Let_def)
  show "ssl_main quiet_host [XA_binary_path ''/opt/agent''] [] =
      Some (Ssl_exit 0 (Some (map (Pair ''/opt/agent'') openssl_reqs, ssl_empty)) [])"
    by (simp add: ssl_main_def ssl_loaded_def inspect_binary_def codex_binary_has_tls_markers_def grok_binary_has_tls_markers_def
        binary_has_rustls_markers_def attach_library_def find_library_path_def attach_binary_def quiet_host_def ssl_default_opts_def
        attach_openssl_def ok ssl_status_def Let_def)
qed

section \<open>The library path\<close>

text \<open>A line of \<open>ldconfig -p\<close>, such as \<open>libssl.so.3 (libc6,x86-64) => /lib/libssl.so.3\<close>, gives the path after the arrow.\<close>

lemma find_library_path_line:
  assumes "CHR ''>'' \<notin> set path" "NUL \<notin> set (desc @ path)" "CHR 0x0A \<notin> set (desc @ path)" "length desc + length path + 5 \<le> 510"
  shows "find_library_path (Some (desc @ '' => '' @ path @ [CHR 0x0A] @ rest)) = Some path"
proof -
  let ?line = "desc @ '' => '' @ path"
  have "fgets_line 510 (?line @ CHR 0x0A # rest) = ?line @ [CHR 0x0A]"
    using assms by (intro fgets_line_newline) auto
  moreover have "c_str (?line @ [CHR 0x0A]) = ?line @ [CHR 0x0A]" using assms(2) by (intro c_str_fix) auto
  moreover have "rev (takeWhile (\<lambda>x. x \<noteq> CHR ''>'') (rev (?line @ [CHR 0x0A]))) = '' '' @ path @ [CHR 0x0A]"
  proof -
    have "takeWhile (\<lambda>x. x \<noteq> CHR ''>'') (rev path @ CHR '' '' # CHR ''>'' # r) = rev path @ '' ''" for r
      using assms(1) by (subst takeWhile_append2) auto
    then show ?thesis by simp
  qed
  ultimately have "after_last (CHR ''>'') (c_str (fgets_line 510 (?line @ CHR 0x0A # rest))) = Some ('' '' @ path @ [CHR 0x0A])"
    by (simp add: after_last_def)
  moreover have "takeWhile (\<lambda>c. c \<noteq> CHR 0x0A) (path @ [CHR 0x0A]) = path" using assms(3) by (subst takeWhile_append2) auto
  ultimately show ?thesis by (simp add: find_library_path_def)
qed

text \<open>Nothing turns the GnuTLS and NSS probes on: after parsing any command line both are off.\<close>

lemma gnutls_nss_never_enabled:
  "ssl_parse_args as env = Inr env' \<Longrightarrow> \<not> xo_gnutls env \<Longrightarrow> \<not> xo_nss env \<Longrightarrow> \<not> xo_gnutls env' \<and> \<not> xo_nss env'"
proof (induction "as" arbitrary: env)
  case (Cons a "as")
  then obtain env1 where env1: "ssl_parse_arg a env = Inr env1" "ssl_parse_args as env1 = Inr env'" by (auto split: sum.splits)
  then have "\<not> xo_gnutls env1 \<and> \<not> xo_nss env1" using Cons.prems by (cases a) (auto simp: Let_def split: if_splits)
  with env1 Cons.IH show ?case by blast
qed simp

end
