(* ===== verification/Stdio_Bpf.thy ===== *)
theory Stdio_Bpf
  imports Bpf_Runtime Paired_Calls
begin

text \<open>
  The kernel side of the standard-stream tracer (\<open>bpf/stdiocap.bpf.c\<close> with \<open>bpf/stdiocap.h\<close>):
  tracepoints on the entry and exit of \<open>read\<close> and \<open>write\<close>. The environment adds the chain of parent
  processes (\<open>ancestor i\<close> is the thread group of the i-th \<open>real_parent\<close>, \<open>None\<close> for a null pointer), the
  return value of the system call, whether the two maps have room, and the reserved event.
\<close>

section \<open>The code\<close>

definition STDIO_MAX_BUF_SIZE :: nat where
  "STDIO_MAX_BUF_SIZE = 8192"

record stdiocap_event_t =
  se_timestamp_ns :: u64
  se_delta_ns :: u64
  se_pid :: u32
  se_tid :: u32
  se_uid :: u32
  se_fd :: i32
  se_len :: u32
  se_buf_size :: u32
  se_is_read :: bool
  se_comm :: bytes
  se_buf :: bytes

record io_args_t =
  ia_buf :: u64
  ia_start_ns :: u64
  ia_fd :: i32
  ia_is_read :: bool

record stdio_state =
  io_args :: "u64 \<rightharpoonup> io_args_t"
  stdio_tracked_pids :: "u32 \<rightharpoonup> u64"
  stdio_rb :: "stdiocap_event_t list"

record stdio_config =
  sc_targ_pid :: u32
  sc_targ_uid :: u32
  trace_stdio_only :: bool
  max_capture_bytes :: u32
  use_tracked_pids :: bool

record stdio_env = bpf_env +
  ancestor :: "nat \<Rightarrow> u32 option"
  sys_ret :: u64
  room_io :: bool
  room_tracked :: bool
  stdio_slot :: "stdiocap_event_t option"

text \<open>The loop over the parents: whether it reaches its \<open>return true\<close>.\<close>

fun ancestor_loop :: "stdio_env \<Rightarrow> (u32 \<rightharpoonup> u64) \<Rightarrow> u32 \<Rightarrow> nat list \<Rightarrow> bool" where
  "ancestor_loop env m pid [] = False"
| "ancestor_loop env m pid (i # is) =
     (case ancestor env i of
        None \<Rightarrow> False
      | Some ppid \<Rightarrow>
          if ppid = 0 \<or> ppid = pid then False
          else if m ppid \<noteq> None then True
          else ancestor_loop env m pid is)"

definition tracked_or_descendant :: "stdio_env \<Rightarrow> u32 \<Rightarrow> stdio_state \<Rightarrow> bool \<times> stdio_state" where
  "tracked_or_descendant env pid st =
     (let m = stdio_tracked_pids st in
      if m pid \<noteq> None then (True, st)
      else if ancestor_loop env m pid [0..<8]
      then (True, st\<lparr>stdio_tracked_pids := snd (map_update (room_tracked env) m pid 1 BPF_ANY)\<rparr>)
      else (False, st))"

definition stdio_trace_allowed :: "stdio_config \<Rightarrow> stdio_env \<Rightarrow> u32 \<Rightarrow> u32 \<Rightarrow> i32 \<Rightarrow> stdio_state \<Rightarrow> bool \<times> stdio_state" where
  "stdio_trace_allowed cfg env uid pid fd st =
     (if sc_targ_uid cfg \<noteq> 0xffffffff \<and> sc_targ_uid cfg \<noteq> uid then (False, st)
      else if trace_stdio_only cfg \<and> (sint fd < 0 \<or> 2 < sint fd) then (False, st)
      else if use_tracked_pids cfg then tracked_or_descendant env pid st
      else if sc_targ_pid cfg \<noteq> 0 \<and> sc_targ_pid cfg \<noteq> pid then (False, st)
      else (True, st))"

definition enter_common :: "stdio_config \<Rightarrow> stdio_env \<Rightarrow> i32 \<Rightarrow> u64 \<Rightarrow> bool \<Rightarrow> stdio_state \<Rightarrow> stdio_state" where
  "enter_common cfg env fd buf is_read st =
     (case stdio_trace_allowed cfg env (ucast (uid_gid env)) (cur_tgid env) fd st of (allowed, st1) \<Rightarrow>
        if \<not> allowed then st1
        else st1\<lparr>io_args := snd (map_update (room_io env) (io_args st1) (pid_tgid env)
               \<lparr>ia_buf = buf, ia_start_ns = ktime env, ia_fd = fd, ia_is_read = is_read\<rparr> BPF_ANY)\<rparr>)"

text \<open>The number of bytes that are copied.\<close>

definition capture_size :: "stdio_config \<Rightarrow> u32 \<Rightarrow> u32" where
  "capture_size cfg len =
     (let c1 = (if max_capture_bytes cfg < len then max_capture_bytes cfg else len)
      in if of_nat STDIO_MAX_BUF_SIZE < c1 then of_nat STDIO_MAX_BUF_SIZE else c1)"

definition stdio_event :: "stdio_config \<Rightarrow> stdio_env \<Rightarrow> io_args_t \<Rightarrow> stdiocap_event_t \<Rightarrow> stdiocap_event_t" where
  "stdio_event cfg env a event =
     (let ret = sint (sys_ret env);
          len = (if 0xffffffff < ret then 0xffffffff else word_of_int ret) :: u32;
          copy_size = capture_size cfg len;
          e1 = event\<lparr>se_timestamp_ns := ktime env, se_delta_ns := ktime env - ia_start_ns a, se_pid := cur_tgid env,
            se_tid := cur_tid env, se_uid := ucast (uid_gid env), se_fd := ia_fd a, se_len := len,
            se_is_read := ia_is_read a, se_comm := cur_comm env, se_buf_size := copy_size\<rparr>
      in if 0 < copy_size then e1\<lparr>se_buf := snd (read_into env (se_buf event) 0 (unat copy_size) (ia_buf a))\<rparr> else e1)"

definition exit_common :: "stdio_config \<Rightarrow> stdio_env \<Rightarrow> stdio_state \<Rightarrow> stdio_state" where
  "exit_common cfg env st =
     (case io_args st (pid_tgid env) of
        None \<Rightarrow> st
      | Some a \<Rightarrow>
          let deleted = st\<lparr>io_args := map_delete (io_args st) (pid_tgid env)\<rparr> in
          if sint (sys_ret env) \<le> 0 then deleted
          else (case stdio_slot env of
              None \<Rightarrow> deleted
            | Some event \<Rightarrow> deleted\<lparr>stdio_rb := stdio_rb st @ [stdio_event cfg env a event]\<rparr>))"

text \<open>The four programs.\<close>

datatype stdio_prog = Enter_read | Exit_read | Enter_write | Exit_write

fun run_stdio :: "stdio_config \<Rightarrow> stdio_prog \<times> stdio_env \<Rightarrow> stdio_state \<Rightarrow> stdio_state" where
  "run_stdio cfg (Enter_read, env) st = enter_common cfg env (arg_int env 0) (args env 1) True st"
| "run_stdio cfg (Exit_read, env) st = exit_common cfg env st"
| "run_stdio cfg (Enter_write, env) st = enter_common cfg env (arg_int env 0) (args env 1) False st"
| "run_stdio cfg (Exit_write, env) st = exit_common cfg env st"

lemmas stdio_defs [bpf_defs] = enter_common_def stdio_trace_allowed_def tracked_or_descendant_def exit_common_def

section \<open>Pairing of entry and return\<close>

definition stdio_thread :: "stdio_prog \<times> stdio_env \<Rightarrow> u64" where
  "stdio_thread p = pid_tgid (snd p)"

fun stdio_enters :: "stdio_config \<Rightarrow> stdio_prog \<times> stdio_env \<Rightarrow> stdio_state \<Rightarrow> io_args_t option" where
  "stdio_enters cfg (prog, env) st =
     (if prog \<in> {Enter_read, Enter_write} \<and> room_io env \<and>
         fst (stdio_trace_allowed cfg env (ucast (uid_gid env)) (cur_tgid env) (arg_int env 0) st)
      then Some \<lparr>ia_buf = args env 1, ia_start_ns = ktime env, ia_fd = arg_int env 0, ia_is_read = (prog = Enter_read)\<rparr>
      else None)"

fun stdio_leaves :: "stdio_config \<Rightarrow> stdio_prog \<times> stdio_env \<Rightarrow> io_args_t \<Rightarrow> stdiocap_event_t option" where
  "stdio_leaves cfg (prog, env) a =
     (if prog \<in> {Exit_read, Exit_write} \<and> 0 < sint (sys_ret env) then map_option (stdio_event cfg env a) (stdio_slot env) else None)"

lemma io_args_allowed [simp]: "io_args (snd (stdio_trace_allowed cfg env uid pid fd st)) = io_args st"
  by (simp add: stdio_trace_allowed_def tracked_or_descendant_def Let_def)

lemma stdio_rb_allowed [simp]: "stdio_rb (snd (stdio_trace_allowed cfg env uid pid fd st)) = stdio_rb st"
  by (simp add: stdio_trace_allowed_def tracked_or_descendant_def Let_def)

lemma io_args_enter:
  "io_args (enter_common cfg env fd buf is_read st) =
    (if fst (stdio_trace_allowed cfg env (ucast (uid_gid env)) (cur_tgid env) fd st)
     then snd (map_update (room_io env) (io_args st) (pid_tgid env)
        \<lparr>ia_buf = buf, ia_start_ns = ktime env, ia_fd = fd, ia_is_read = is_read\<rparr> BPF_ANY) else io_args st)"
proof -
  obtain al st1 where ta: "stdio_trace_allowed cfg env (ucast (uid_gid env)) (cur_tgid env) fd st = (al, st1)" by fastforce
  then have "io_args st1 = io_args st" by (metis io_args_allowed snd_conv)
  with ta show ?thesis by (simp add: enter_common_def)
qed

lemma stdio_rb_enter [simp]: "stdio_rb (enter_common cfg env fd buf is_read st) = stdio_rb st"
  using stdio_rb_allowed[of cfg env "ucast (uid_gid env)" "cur_tgid env" fd st]
  by (cases "stdio_trace_allowed cfg env (ucast (uid_gid env)) (cur_tgid env) fd st") (simp add: enter_common_def)

lemma io_args_exit: "io_args (exit_common cfg env st) = map_delete (io_args st) (pid_tgid env)"
  by (auto simp: exit_common_def map_delete_def Let_def split: option.split)

interpretation stdio: emitting_calls "run_stdio cfg" stdio_thread io_args stdio_rb "stdio_enters cfg" "stdio_leaves cfg" for cfg
proof unfold_locales
  fix p q :: "stdio_prog \<times> stdio_env" and k s a e
  show "stdio_thread p \<noteq> k \<Longrightarrow> io_args (run_stdio cfg p s) k = io_args s k"
    by (cases "(cfg, p, s)" rule: run_stdio.cases)
      (auto simp: stdio_thread_def io_args_enter io_args_exit map_update_other map_delete_def)
  show "stdio_enters cfg p s = Some a \<Longrightarrow> io_args (run_stdio cfg p s) (stdio_thread p) = Some a"
    by (cases "(cfg, p, s)" rule: run_stdio.cases)
      (auto simp: stdio_thread_def io_args_enter map_update_def split: if_splits option.split)
  show "io_args s (stdio_thread q) = Some a \<Longrightarrow> stdio_leaves cfg q a = Some e \<Longrightarrow>
      stdio_rb (run_stdio cfg q s) = stdio_rb s @ [e] \<and> io_args (run_stdio cfg q s) (stdio_thread q) = None"
    by (cases "(cfg, q, s)" rule: run_stdio.cases)
      (auto simp: stdio_thread_def exit_common_def map_delete_def Let_def split: if_splits)
qed

section \<open>Which processes are captured\<close>

text \<open>Some process among the eight nearest ancestors is tracked, and the chain up to it neither ends nor comes back.\<close>

definition tracked_ancestor :: "stdio_env \<Rightarrow> (u32 \<rightharpoonup> u64) \<Rightarrow> u32 \<Rightarrow> nat \<Rightarrow> nat \<Rightarrow> bool" where
  "tracked_ancestor env m pid lo hi \<longleftrightarrow>
     (\<exists>i q. lo \<le> i \<and> i < hi \<and> ancestor env i = Some q \<and> m q \<noteq> None \<and>
        (\<forall>j. lo \<le> j \<longrightarrow> j \<le> i \<longrightarrow> (\<exists>r. ancestor env j = Some r \<and> r \<noteq> 0 \<and> r \<noteq> pid)))"

lemma tracked_ancestor_step:
  "lo < hi \<Longrightarrow> tracked_ancestor env m pid lo hi \<longleftrightarrow>
     (\<exists>q. ancestor env lo = Some q \<and> q \<noteq> 0 \<and> q \<noteq> pid \<and> (m q \<noteq> None \<or> tracked_ancestor env m pid (Suc lo) hi))"
proof
  assume "lo < hi" "tracked_ancestor env m pid lo hi"
  then obtain i q where i: "lo \<le> i" "i < hi" "ancestor env i = Some q" "m q \<noteq> None"
    "\<And>j. lo \<le> j \<Longrightarrow> j \<le> i \<Longrightarrow> \<exists>r. ancestor env j = Some r \<and> r \<noteq> 0 \<and> r \<noteq> pid"
    by (auto simp: tracked_ancestor_def)
  from i(5)[of lo] i(1) obtain r where r: "ancestor env lo = Some r" "r \<noteq> 0" "r \<noteq> pid" by auto
  moreover have "tracked_ancestor env m pid (Suc lo) hi" if "i \<noteq> lo"
    using i that unfolding tracked_ancestor_def by (intro exI[of _ i]) auto
  ultimately show "\<exists>q. ancestor env lo = Some q \<and> q \<noteq> 0 \<and> q \<noteq> pid \<and> (m q \<noteq> None \<or> tracked_ancestor env m pid (Suc lo) hi)"
    using i by (cases "i = lo") auto
next
  assume lt: "lo < hi" and "\<exists>q. ancestor env lo = Some q \<and> q \<noteq> 0 \<and> q \<noteq> pid \<and> (m q \<noteq> None \<or> tracked_ancestor env m pid (Suc lo) hi)"
  then obtain q where q: "ancestor env lo = Some q" "q \<noteq> 0" "q \<noteq> pid" "m q \<noteq> None \<or> tracked_ancestor env m pid (Suc lo) hi" by auto
  show "tracked_ancestor env m pid lo hi"
  proof (cases "m q \<noteq> None")
    case True
    with q lt show ?thesis unfolding tracked_ancestor_def by (intro exI[of _ lo]) auto
  next
    case False
    then obtain i r where i: "Suc lo \<le> i" "i < hi" "ancestor env i = Some r" "m r \<noteq> None"
      "\<forall>j. Suc lo \<le> j \<longrightarrow> j \<le> i \<longrightarrow> (\<exists>r. ancestor env j = Some r \<and> r \<noteq> 0 \<and> r \<noteq> pid)"
      using q(4) by (auto simp: tracked_ancestor_def)
    have "\<exists>r. ancestor env j = Some r \<and> r \<noteq> 0 \<and> r \<noteq> pid" if "lo \<le> j" "j \<le> i" for j
      using that q i(5) by (cases "j = lo") auto
    with i show ?thesis unfolding tracked_ancestor_def by (intro exI[of _ i] exI[of _ r]) auto
  qed
qed

lemma ancestor_loop_iff: "ancestor_loop env m pid [lo..<hi] \<longleftrightarrow> tracked_ancestor env m pid lo hi"
proof (induction "hi - lo" arbitrary: lo)
  case 0
  then show ?case by (simp add: tracked_ancestor_def)
next
  case (Suc n)
  then have "lo < hi" by simp
  with Suc(1)[of "Suc lo"] Suc(2) show ?case
    by (auto simp: upt_conv_Cons tracked_ancestor_step split: option.split)
qed

text \<open>
  With a session filter a process is captured exactly if it is tracked or one of its eight nearest
  ancestors is (the walk ends at a missing parent, at process 0 and at the process itself); it is then
  tracked itself while the map has room, and no other entry changes.
\<close>

theorem tracked_or_descendant_exact:
  "fst (tracked_or_descendant env pid st) = (pid \<in> dom (stdio_tracked_pids st) \<or> tracked_ancestor env (stdio_tracked_pids st) pid 0 8) \<and>
   snd (tracked_or_descendant env pid st) =
     (if pid \<notin> dom (stdio_tracked_pids st) \<and> tracked_ancestor env (stdio_tracked_pids st) pid 0 8 \<and> room_tracked env
      then st\<lparr>stdio_tracked_pids := (stdio_tracked_pids st)(pid \<mapsto> 1)\<rparr> else st)"
  by (auto simp: tracked_or_descendant_def Let_def ancestor_loop_iff map_update_def domIff)

section \<open>Invariant\<close>

text \<open>
  What a run may capture is said over its calls \<open>H\<close> and the processes \<open>S\<close> that userspace put into the map:
  the family of \<open>S\<close> are these and, step by step, the processes that made a call with a member among their
  eight nearest ancestors. A call is selected when its user, its descriptor and its process are.
\<close>

type_synonym stdio_call = "stdio_prog \<times> stdio_env"

definition reaches :: "stdio_env \<Rightarrow> u32 \<Rightarrow> u32 \<Rightarrow> bool" where
  "reaches env pid q \<longleftrightarrow>
     (\<exists>i<8. ancestor env i = Some q \<and> (\<forall>j\<le>i. \<exists>r. ancestor env j = Some r \<and> r \<noteq> 0 \<and> r \<noteq> pid))"

inductive family :: "stdio_call set \<Rightarrow> u32 set \<Rightarrow> u32 \<Rightarrow> bool" for H S where
  found: "q \<in> S \<Longrightarrow> family H S q"
| child: "(prog, env) \<in> H \<Longrightarrow> prog \<in> {Enter_read, Enter_write} \<Longrightarrow> reaches env (cur_tgid env) q \<Longrightarrow> family H S q \<Longrightarrow>
    family H S (cur_tgid env)"

definition user_ok :: "stdio_config \<Rightarrow> u32 \<Rightarrow> bool" where
  "user_ok cfg uid \<longleftrightarrow> sc_targ_uid cfg = 0xffffffff \<or> sc_targ_uid cfg = uid"

definition fd_ok :: "stdio_config \<Rightarrow> i32 \<Rightarrow> bool" where
  "fd_ok cfg fd \<longleftrightarrow> (trace_stdio_only cfg \<longrightarrow> 0 \<le> sint fd \<and> sint fd \<le> 2)"

definition call_selected :: "stdio_config \<Rightarrow> stdio_call set \<Rightarrow> u32 set \<Rightarrow> stdio_env \<Rightarrow> bool" where
  "call_selected cfg H S env \<longleftrightarrow>
     user_ok cfg (ucast (uid_gid env)) \<and> fd_ok cfg (arg_int env 0) \<and>
     (if use_tracked_pids cfg then family H S (cur_tgid env) else sc_targ_pid cfg = 0 \<or> sc_targ_pid cfg = cur_tgid env)"

text \<open>The entry of a selected call with this thread and these stored arguments.\<close>

definition started :: "stdio_config \<Rightarrow> stdio_call set \<Rightarrow> u32 set \<Rightarrow> u64 \<Rightarrow> io_args_t \<Rightarrow> stdio_call \<Rightarrow> bool" where
  "started cfg H S k a c \<longleftrightarrow> c \<in> H \<and> fst c \<in> {Enter_read, Enter_write} \<and> pid_tgid (snd c) = k \<and> call_selected cfg H S (snd c) \<and>
     a = \<lparr>ia_buf = args (snd c) 1, ia_start_ns = ktime (snd c), ia_fd = arg_int (snd c) 0, ia_is_read = (fst c = Enter_read)\<rparr>"

text \<open>An event goes back to a selected entry and a successful return of the same thread.\<close>

definition stdio_origin :: "stdio_config \<Rightarrow> stdio_call set \<Rightarrow> u32 set \<Rightarrow> stdiocap_event_t \<Rightarrow> bool" where
  "stdio_origin cfg H S e \<longleftrightarrow>
     (\<exists>p e1 q e2. (p, e1) \<in> H \<and> (q, e2) \<in> H \<and> p \<in> {Enter_read, Enter_write} \<and> q \<in> {Exit_read, Exit_write} \<and> pid_tgid e2 = pid_tgid e1 \<and>
        call_selected cfg H S e1 \<and> 0 < sint (sys_ret e2) \<and>
        se_pid e = cur_tgid e1 \<and> se_tid e = cur_tid e1 \<and> se_uid e = ucast (uid_gid e2) \<and> se_fd e = arg_int e1 0 \<and>
        se_is_read e = (p = Enter_read) \<and> se_delta_ns e = ktime e2 - ktime e1)"

definition stdio_event_ok :: "stdio_config \<Rightarrow> stdio_call set \<Rightarrow> u32 set \<Rightarrow> stdiocap_event_t \<Rightarrow> bool" where
  "stdio_event_ok cfg H S e \<longleftrightarrow> stdio_origin cfg H S e \<and>
     length (se_buf e) = STDIO_MAX_BUF_SIZE \<and> unat (se_buf_size e) \<le> STDIO_MAX_BUF_SIZE \<and>
     se_buf_size e \<le> max_capture_bytes cfg \<and> se_buf_size e \<le> se_len e"

definition stdio_inv :: "stdio_config \<Rightarrow> stdio_call set \<Rightarrow> u32 set \<Rightarrow> stdio_state \<Rightarrow> bool" where
  "stdio_inv cfg H S st \<longleftrightarrow>
     (\<forall>pid\<in>dom (stdio_tracked_pids st). family H S pid) \<and>
     (\<forall>k a. io_args st k = Some a \<longrightarrow> (\<exists>c. started cfg H S k a c)) \<and>
     (\<forall>e\<in>set (stdio_rb st). stdio_event_ok cfg H S e)"

text \<open>What the model relies on: reads return as many bytes as asked for and a reserved event has its full size.\<close>

definition stdio_env_ok :: "stdio_env \<Rightarrow> bool" where
  "stdio_env_ok env \<longleftrightarrow> reads_exact env \<and> (\<forall>d. stdio_slot env = Some d \<longrightarrow> length (se_buf d) = STDIO_MAX_BUF_SIZE)"

lemma tracked_ancestor_reaches: "tracked_ancestor env m pid 0 8 \<longleftrightarrow> (\<exists>q. reaches env pid q \<and> m q \<noteq> None)"
  by (auto simp: tracked_ancestor_def reaches_def)

lemma family_mono:
  assumes "family H S pid" "H \<subseteq> H'" "S \<subseteq> S'"
  shows "family H' S' pid"
  using assms(1)
proof induction
  case (child prog env q)
  then show ?case using assms(2) by (intro family.child[of prog env _ q]) auto
qed (use assms(3) in \<open>auto intro: family.found\<close>)

lemma call_selected_mono: "call_selected cfg H S env \<Longrightarrow> H \<subseteq> H' \<Longrightarrow> S \<subseteq> S' \<Longrightarrow> call_selected cfg H' S' env"
  using family_mono by (auto simp: call_selected_def)

lemma stdio_event_ok_mono:
  assumes "stdio_event_ok cfg H S e" "H \<subseteq> H'" "S \<subseteq> S'"
  shows "stdio_event_ok cfg H' S' e"
proof -
  have sub: "x \<in> H'" if "x \<in> H" for x using that assms(2) by blast
  have "stdio_origin cfg H S e" using assms(1) by (simp add: stdio_event_ok_def)
  then have "stdio_origin cfg H' S' e"
    unfolding stdio_origin_def
    by (elim exE conjE, intro exI conjI) (assumption | rule sub call_selected_mono[OF _ assms(2,3)])+
  then show ?thesis using assms(1) by (simp add: stdio_event_ok_def)
qed

lemma started_mono: "started cfg H S k a c \<Longrightarrow> H \<subseteq> H' \<Longrightarrow> S \<subseteq> S' \<Longrightarrow> started cfg H' S' k a c"
  using call_selected_mono by (auto simp: started_def)

lemma stdio_inv_mono:
  assumes "stdio_inv cfg H S st" "H \<subseteq> H'" "S \<subseteq> S'"
  shows "stdio_inv cfg H' S' st"
  using assms(1) family_mono[OF _ assms(2,3)] started_mono[OF _ assms(2,3)] stdio_event_ok_mono[OF _ assms(2,3)]
  unfolding stdio_inv_def by meson

text \<open>The filter of the programs lets through exactly the selected calls, whether or not the map has room.\<close>

lemma stdio_trace_allowed_exact:
  assumes "stdio_trace_allowed cfg env (ucast (uid_gid env)) (cur_tgid env) (arg_int env 0) st = (al, st1)"
  shows "al \<longleftrightarrow> user_ok cfg (ucast (uid_gid env)) \<and> fd_ok cfg (arg_int env 0) \<and>
      (if use_tracked_pids cfg then cur_tgid env \<in> dom (stdio_tracked_pids st) \<or> tracked_ancestor env (stdio_tracked_pids st) (cur_tgid env) 0 8
       else sc_targ_pid cfg = 0 \<or> sc_targ_pid cfg = cur_tgid env)"
    and "dom (stdio_tracked_pids st1) \<subseteq> dom (stdio_tracked_pids st) \<union> (if al \<and> use_tracked_pids cfg then {cur_tgid env} else {})"
    and "io_args st1 = io_args st" "stdio_rb st1 = stdio_rb st"
  using assms tracked_or_descendant_exact[of env "cur_tgid env" st]
  by (auto simp: stdio_trace_allowed_def user_ok_def fd_ok_def not_less not_le linorder_not_le split: if_splits)

lemma enter_common_inv:
  assumes inv: "stdio_inv cfg H S st" and prog: "(prog, env) \<in> H" "prog \<in> {Enter_read, Enter_write}"
  shows "stdio_inv cfg H S (enter_common cfg env (arg_int env 0) (args env 1) (prog = Enter_read) st)"
proof -
  obtain al st1 where ta: "stdio_trace_allowed cfg env (ucast (uid_gid env)) (cur_tgid env) (arg_int env 0) st = (al, st1)" by fastforce
  note ex = stdio_trace_allowed_exact[OF ta]
  have fam: "family H S q" if "stdio_tracked_pids st q \<noteq> None" for q using inv that by (auto simp: stdio_inv_def)
  have sel: "call_selected cfg H S env" if al
    using that ex(1) fam family.child[OF prog] unfolding tracked_ancestor_reaches call_selected_def by (auto simp: domIff split: if_splits)
  have "\<forall>pid\<in>dom (stdio_tracked_pids st1). family H S pid"
    using ex(2) fam sel by (auto simp: call_selected_def domIff split: if_splits)
  then have inv1: "stdio_inv cfg H S st1" using inv ex(3,4) by (simp add: stdio_inv_def)
  have "started cfg H S (pid_tgid env) \<lparr>ia_buf = args env 1, ia_start_ns = ktime env, ia_fd = arg_int env 0, ia_is_read = (prog = Enter_read)\<rparr> (prog, env)"
    if al using sel[OF that] prog by (simp add: started_def)
  then have "stdio_inv cfg H S (st1\<lparr>io_args := snd (map_update r (io_args st1) (pid_tgid env)
      \<lparr>ia_buf = args env 1, ia_start_ns = ktime env, ia_fd = arg_int env 0, ia_is_read = (prog = Enter_read)\<rparr> BPF_ANY)\<rparr>)" if al for r
    using inv1 that by (auto simp: stdio_inv_def map_update_def split: option.split)
  with inv1 show ?thesis by (simp add: enter_common_def ta)
qed

lemma capture_size_le:
  "unat (capture_size cfg len) \<le> STDIO_MAX_BUF_SIZE" "capture_size cfg len \<le> max_capture_bytes cfg" "capture_size cfg len \<le> len"
proof -
  have m: "unat (of_nat STDIO_MAX_BUF_SIZE :: u32) = 8192" by (simp add: STDIO_MAX_BUF_SIZE_def)
  have s: "STDIO_MAX_BUF_SIZE = 8192" by (simp add: STDIO_MAX_BUF_SIZE_def)
  show "unat (capture_size cfg len) \<le> STDIO_MAX_BUF_SIZE" "capture_size cfg len \<le> max_capture_bytes cfg" "capture_size cfg len \<le> len"
    using m by (auto simp: capture_size_def Let_def word_le_nat_alt word_less_nat_alt not_less) (simp_all add: s)
qed

lemma stdio_event_fields:
  "se_pid (stdio_event cfg env a d) = cur_tgid env" "se_tid (stdio_event cfg env a d) = cur_tid env"
  "se_fd (stdio_event cfg env a d) = ia_fd a" "se_is_read (stdio_event cfg env a d) = ia_is_read a"
  "se_delta_ns (stdio_event cfg env a d) = ktime env - ia_start_ns a"
  "se_len (stdio_event cfg env a d) = (if 0xffffffff < sint (sys_ret env) then 0xffffffff else word_of_int (sint (sys_ret env)))"
  "se_uid (stdio_event cfg env a d) = ucast (uid_gid env)"
  "se_buf_size (stdio_event cfg env a d) = capture_size cfg (se_len (stdio_event cfg env a d))"
  by (simp_all add: stdio_event_def Let_def)

lemma se_buf_stdio_event:
  "se_buf (stdio_event cfg env a d) =
    (let n = se_buf_size (stdio_event cfg env a d) in
     if 0 < n then snd (read_into env (se_buf d) 0 (unat n) (ia_buf a)) else se_buf d)"
  by (simp add: stdio_event_def Let_def)

lemma stdio_event_ok_new:
  assumes env: "stdio_env_ok env" "stdio_slot env = Some d" and ret: "0 < sint (sys_ret env)"
    and call: "(q, env) \<in> H" "q \<in> {Exit_read, Exit_write}" "started cfg H S (pid_tgid env) a c"
  shows "stdio_event_ok cfg H S (stdio_event cfg env a d)"
proof -
  let ?n = "capture_size cfg (se_len (stdio_event cfg env a d))"
  have "length (se_buf d) = STDIO_MAX_BUF_SIZE" "reads_exact env" using env by (auto simp: stdio_env_ok_def)
  then have len: "length (se_buf (stdio_event cfg env a d)) = STDIO_MAX_BUF_SIZE"
    using capture_size_le(1)[of cfg] read_into_length[of env 0 "unat ?n" "se_buf d"]
    by (simp add: se_buf_stdio_event stdio_event_fields(8) Let_def)
  obtain p e1 where c: "c = (p, e1)" by (cases c)
  have "cur_tgid env = cur_tgid e1" "cur_tid env = cur_tid e1" using call(3) by (simp_all add: c started_def cur_tgid_def cur_tid_def)
  then have "stdio_origin cfg H S (stdio_event cfg env a d)"
    unfolding stdio_origin_def using call ret
    by (intro exI[of _ p] exI[of _ e1] exI[of _ q] exI[of _ env]) (auto simp: c started_def stdio_event_fields)
  with len capture_size_le[of cfg] show ?thesis unfolding stdio_event_ok_def stdio_event_fields(8) by simp
qed

lemma exit_common_inv:
  assumes inv: "stdio_inv cfg H S st" and env: "stdio_env_ok env" and call: "(q, env) \<in> H" "q \<in> {Exit_read, Exit_write}"
  shows "stdio_inv cfg H S (exit_common cfg env st)"
proof (cases "io_args st (pid_tgid env)")
  case None
  then show ?thesis using inv by (simp add: exit_common_def)
next
  case (Some a)
  have del: "stdio_inv cfg H S (st\<lparr>io_args := map_delete (io_args st) (pid_tgid env)\<rparr>)"
    using inv by (auto simp: stdio_inv_def map_delete_def)
  obtain c where "started cfg H S (pid_tgid env) a c" using inv Some unfolding stdio_inv_def by meson
  then have "stdio_event_ok cfg H S (stdio_event cfg env a d)" if "stdio_slot env = Some d" "0 < sint (sys_ret env)" for d
    using stdio_event_ok_new[OF env that call] by blast
  with Some del show ?thesis by (auto simp: exit_common_def stdio_inv_def Let_def split: option.split)
qed

lemma run_stdio_inv:
  assumes "stdio_env_ok (snd p)" "stdio_inv cfg H S st" "p \<in> H"
  shows "stdio_inv cfg H S (run_stdio cfg p st)"
  using assms enter_common_inv[of cfg H S st "fst p" "snd p"] exit_common_inv[of cfg H S st "snd p" "fst p"]
  by (cases "(cfg, p, st)" rule: run_stdio.cases) auto

lemma stdio_runs_inv:
  assumes "stdio_inv cfg H S st" "\<forall>p\<in>set ps. stdio_env_ok (snd p)" "set ps \<subseteq> H"
  shows "stdio_inv cfg H S (fold (run_stdio cfg) ps st)"
  using assms by (induction ps arbitrary: st) (simp_all add: run_stdio_inv)

text \<open>
  C13: An invariant of the tracer over the calls of a run, whether or not the maps and the ring buffer have
  room. Every stored call was made by a selected entry of its thread: its user is the one asked for,
  if any, its descriptor is 0 to 2 unless all are captured, and its process is of the family of the
  processes that userspace tracks with a session filter, and the target otherwise. Every event goes
  back to such an entry and a successful return of the same thread; its buffer is intact and states at
  most as many bytes as the call moved, as the limit allows and as the buffer holds.
\<close>

theorem stdio_runs_keep_invariant:
  assumes "stdio_inv cfg H S st" "\<forall>p\<in>set ps. stdio_env_ok (snd p)"
  shows "stdio_inv cfg (H \<union> set ps) S (fold (run_stdio cfg) ps st)"
proof -
  have "stdio_inv cfg (H \<union> set ps) S st" by (rule stdio_inv_mono[OF assms(1)]) simp_all
  then show ?thesis by (rule stdio_runs_inv[OF _ assms(2)]) simp
qed

text \<open>A process that writes three bytes to its standard output, traced by its pid.\<close>

definition stdio_demo_mem :: "u64 \<Rightarrow> char" where
  "stdio_demo_mem a = (if a = 64 then CHR ''o'' else if a = 65 then CHR ''k'' else CHR 0x0A)"

definition stdio_demo_slot :: stdiocap_event_t where
  "stdio_demo_slot = \<lparr>se_timestamp_ns = 0, se_delta_ns = 0, se_pid = 0, se_tid = 0, se_uid = 0, se_fd = 0, se_len = 0,
     se_buf_size = 0, se_is_read = False, se_comm = [], se_buf = replicate STDIO_MAX_BUF_SIZE NUL\<rparr>"

definition stdio_demo_env :: stdio_env where
  "stdio_demo_env = \<lparr>pid_tgid = 0x500000007, uid_gid = 0, ktime = 9, cur_comm = ''sh'', cgroup_id = 0, cpu = 0,
     args = (\<lambda>i. if i = 0 then 1 else 64), user_str = (\<lambda>_. None), user_mem = (\<lambda>a n. Some (seg stdio_demo_mem a n)), room = True,
     ancestor = (\<lambda>_. None), sys_ret = 3, room_io = True, room_tracked = True, stdio_slot = Some stdio_demo_slot\<rparr>"

definition stdio_demo_cfg :: stdio_config where
  "stdio_demo_cfg = \<lparr>sc_targ_pid = 5, sc_targ_uid = 0xffffffff, trace_stdio_only = True, max_capture_bytes = 8192, use_tracked_pids = False\<rparr>"

definition stdio_demo_st :: stdio_state where
  "stdio_demo_st = \<lparr>io_args = (\<lambda>_. None), stdio_tracked_pids = (\<lambda>_. None), stdio_rb = []\<rparr>"

lemma stdio_demo_env_ok: "stdio_env_ok stdio_demo_env"
  by (auto simp: stdio_env_ok_def stdio_demo_env_def stdio_demo_slot_def reads_exact_def)

theorem stdio_runs_keep_invariant_witness:
  "stdio_inv stdio_demo_cfg (set [(Enter_write, stdio_demo_env), (Exit_write, stdio_demo_env)]) {}
     (fold (run_stdio stdio_demo_cfg) [(Enter_write, stdio_demo_env), (Exit_write, stdio_demo_env)] stdio_demo_st)"
proof -
  have "stdio_inv stdio_demo_cfg {} {} stdio_demo_st" by (simp add: stdio_inv_def stdio_demo_st_def)
  moreover have "\<forall>p\<in>set [(Enter_write, stdio_demo_env), (Exit_write, stdio_demo_env)]. stdio_env_ok (snd p)"
    by (simp add: stdio_demo_env_ok)
  ultimately have "stdio_inv stdio_demo_cfg ({} \<union> set [(Enter_write, stdio_demo_env), (Exit_write, stdio_demo_env)]) {}
      (fold (run_stdio stdio_demo_cfg) [(Enter_write, stdio_demo_env), (Exit_write, stdio_demo_env)] stdio_demo_st)"
    by (rule stdio_runs_keep_invariant)
  then show ?thesis by (simp only: Un_empty_left)
qed

text \<open>
  C14: a \<open>read\<close> or \<open>write\<close> that passes the filters at entry and returns a positive count gives exactly
  one event at its return, whatever other threads do in between: with the descriptor and buffer of the
  entry, the returned count, and the first bytes of the buffer up to the count, the limit and 8192.
\<close>

theorem stdio_pairing:
  assumes "fst (stdio_trace_allowed cfg e1 (ucast (uid_gid e1)) (cur_tgid e1) (arg_int e1 0) st)" "room_io e1"
    and "pid_tgid e2 = pid_tgid e1" "\<forall>r\<in>set rs. stdio_thread r \<noteq> pid_tgid e1" "0 < sint (sys_ret e2)"
    and "stdio_slot e2 = Some d" "length (se_buf d) = STDIO_MAX_BUF_SIZE" "readable e2 mem"
    and "(p, q, rd) \<in> {(Enter_read, Exit_read, True), (Enter_write, Exit_write, False)}"
    and "st1 = fold (run_stdio cfg) rs (run_stdio cfg (p, e1) st)" "st2 = run_stdio cfg (q, e2) st1"
    and "n = min (nat (sint (sys_ret e2))) 0xffffffff" "k = min n (min (unat (max_capture_bytes cfg)) 8192)"
  shows "\<exists>e. stdio_rb st2 = stdio_rb st1 @ [e] \<and> io_args st2 (pid_tgid e1) = None \<and>
    se_is_read e = rd \<and> se_fd e = arg_int e1 0 \<and> se_delta_ns e = ktime e2 - ktime e1 \<and>
    unat (se_len e) = n \<and> unat (se_buf_size e) = k \<and> take k (se_buf e) = seg mem (args e1 1) k"
proof -
  let ?a = "\<lparr>ia_buf = args e1 1, ia_start_ns = ktime e1, ia_fd = arg_int e1 0, ia_is_read = rd\<rparr>"
  let ?e = "stdio_event cfg e2 ?a d"
  have "stdio_enters cfg (p, e1) st = Some ?a" using assms(1,2,9) by auto
  moreover have "stdio_leaves cfg (q, e2) ?a = Some ?e" using assms(5,6,9) by auto
  ultimately have emit: "stdio_rb st2 = stdio_rb st1 @ [?e] \<and> io_args st2 (pid_tgid e1) = None"
    using stdio.pair_emits[of cfg "(p, e1)" st ?a "(q, e2)" rs ?e] assms(3,4) unfolding assms(10,11) by (simp add: stdio_thread_def)
  have "unat (if 0xffffffff < i then 0xffffffff else word_of_int i :: u32) = min (nat i) 0xffffffff" if "0 < i" for i
    using that by (auto simp: unat_word_of_int_u32)
  from this[OF assms(5)] have len: "unat (se_len ?e) = n" unfolding assms(12) stdio_event_fields(6) .
  have size: "unat (se_buf_size ?e) = k"
    unfolding stdio_event_fields(8) capture_size_def Let_def assms(13) len[symmetric]
    by (simp only: unat_if_less) (simp add: STDIO_MAX_BUF_SIZE_def)
  have "take k (se_buf ?e) = seg mem (args e1 1) k"
    using size assms(7,13) unat_eq_0[of "se_buf_size ?e"]
    by (cases "k = 0") (auto simp: se_buf_stdio_event Let_def read_into_readable[OF assms(8)] word_gt_0)
  with emit len size show ?thesis by (intro exI[of _ ?e]) (simp add: stdio_event_fields)
qed

theorem stdio_pairing_witness:
  "\<exists>e. stdio_rb (run_stdio stdio_demo_cfg (Exit_write, stdio_demo_env) (run_stdio stdio_demo_cfg (Enter_write, stdio_demo_env) stdio_demo_st)) =
      stdio_rb (run_stdio stdio_demo_cfg (Enter_write, stdio_demo_env) stdio_demo_st) @ [e] \<and>
    se_fd e = 1 \<and> unat (se_len e) = 3 \<and> take 3 (se_buf e) = ''ok'' @ [CHR 0x0A]"
proof -
  have allowed: "fst (stdio_trace_allowed stdio_demo_cfg stdio_demo_env (ucast (uid_gid stdio_demo_env)) (cur_tgid stdio_demo_env)
      (arg_int stdio_demo_env 0) stdio_demo_st)"
    by (simp add: stdio_trace_allowed_def stdio_demo_cfg_def stdio_demo_env_def arg_int_def cur_tgid_def)
  have env: "room_io stdio_demo_env" "stdio_slot stdio_demo_env = Some stdio_demo_slot" "readable stdio_demo_env stdio_demo_mem"
    "length (se_buf stdio_demo_slot) = STDIO_MAX_BUF_SIZE" "sys_ret stdio_demo_env = 3" "args stdio_demo_env 1 = 64"
    "arg_int stdio_demo_env 0 = 1" "max_capture_bytes stdio_demo_cfg = 8192"
    by (simp_all add: stdio_demo_env_def readable_def stdio_demo_slot_def arg_int_def stdio_demo_cfg_def)
  have "seg stdio_demo_mem 64 3 = ''ok'' @ [CHR 0x0A]" by (simp add: seg_def stdio_demo_mem_def upt_conv_Cons)
  with stdio_pairing[OF allowed env(1) refl _ _ env(2,4,3) _ refl refl refl refl, of "[]" Enter_write Exit_write False]
  show ?thesis by (auto simp: env env(6)[simplified])
qed

end
