(* ===== verification/Stdiocap.thy ===== *)
theory Stdiocap
  imports Stdio_Bpf Json_Line
begin

text \<open>
  The user side of the standard-stream tracer (\<open>bpf/stdiocap.c\<close>): the command line, the session scan of
  \<open>/proc\<close>, the JSON line of an event, and the main loop. \<open>stdio_world\<close> is what the system calls
  answer; a turn of the loop has the BPF programs that run before the scan and after it.
\<close>

section \<open>The code: command line\<close>

record stdio_opts =
  so_pid :: i32
  so_session_id :: i32
  so_uid :: i32
  so_comm :: "bytes option"
  so_all_fds :: bool
  so_max_bytes :: i32
  so_verbose :: bool

definition stdio_default_opts :: stdio_opts where
  "stdio_default_opts = \<lparr>so_pid = -1, so_session_id = -1, so_uid = -1, so_comm = None, so_all_fds = False,
     so_max_bytes = of_nat STDIO_MAX_BUF_SIZE, so_verbose = False\<rparr>"

datatype stdio_arg =
    SA_p bytes | SA_session bytes | SA_u bytes | SA_c bytes | SA_v | SA_all_fds | SA_max_bytes bytes | SA_key_end | SA_unknown

datatype stdio_opt_error = SE_usage | SE_unknown

fun stdio_parse_arg :: "stdio_arg \<Rightarrow> stdio_opts \<Rightarrow> stdio_opt_error + stdio_opts" where
  "stdio_parse_arg (SA_p arg) env = Inr (env\<lparr>so_pid := atoi arg\<rparr>)"
| "stdio_parse_arg (SA_session arg) env = Inr (env\<lparr>so_session_id := atoi arg\<rparr>)"
| "stdio_parse_arg (SA_u arg) env = Inr (env\<lparr>so_uid := atoi arg\<rparr>)"
| "stdio_parse_arg (SA_c arg) env = Inr (env\<lparr>so_comm := Some arg\<rparr>)"
| "stdio_parse_arg SA_v env = Inr (env\<lparr>so_verbose := True\<rparr>)"
| "stdio_parse_arg SA_all_fds env = Inr (env\<lparr>so_all_fds := True\<rparr>)"
| "stdio_parse_arg (SA_max_bytes arg) env =
     (let m0 = atoi arg;
          m1 = (if sint m0 \<le> 0 then of_nat STDIO_MAX_BUF_SIZE else m0);
          m2 = (if int STDIO_MAX_BUF_SIZE < sint m1 then of_nat STDIO_MAX_BUF_SIZE else m1)
      in Inr (env\<lparr>so_max_bytes := m2\<rparr>))"
| "stdio_parse_arg SA_key_end env =
     (if so_pid env = -1 \<and> so_session_id env = -1 then Inl SE_usage else Inr env)"
| "stdio_parse_arg SA_unknown env = Inl SE_unknown"

text \<open>\<open>argp_parse\<close> hands over the options in order and then the end key.\<close>

fun stdio_parse_args :: "stdio_arg list \<Rightarrow> stdio_opts \<Rightarrow> stdio_opt_error + stdio_opts" where
  "stdio_parse_args [] env = stdio_parse_arg SA_key_end env"
| "stdio_parse_args (a # as) env = (case stdio_parse_arg a env of Inl e \<Rightarrow> Inl e | Inr env' \<Rightarrow> stdio_parse_args as env')"

section \<open>The code: the session scan\<close>

record stdio_world =
  sw_proc :: "int + bytes list"
  sw_getsid :: "i32 \<Rightarrow> i32"
  sw_room :: "(u32 \<rightharpoonup> u64) \<Rightarrow> bool"
  sw_readlink :: "bytes \<Rightarrow> bytes option"
  sw_mbrtowc :: mbrtowc_fn

definition fd_role :: "i32 \<Rightarrow> bytes" where
  "fd_role fd = (if fd = 0 then ''stdin'' else if fd = 1 then ''stdout'' else if fd = 2 then ''stderr'' else ''fd'')"

definition PATH_MAX :: nat where
  "PATH_MAX = 4096"

text \<open>The target as the string in a buffer of \<open>buf_size\<close> bytes.\<close>

definition resolve_fd_target :: "stdio_world \<Rightarrow> u32 \<Rightarrow> i32 \<Rightarrow> nat \<Rightarrow> bytes option" where
  "resolve_fd_target w pid fd buf_size =
     (let proc_fd = take 127 (''/proc/'' @ dec_int (sint pid) @ ''/fd/'' @ dec_int (sint fd))
      in map_option (\<lambda>t. c_str (take (buf_size - 1) t)) (sw_readlink w proc_fd))"

definition is_numeric_name :: "bytes \<Rightarrow> bool" where
  "is_numeric_name name \<longleftrightarrow> name \<noteq> [] \<and> list_all is_digit name"

fun refresh_loop :: "stdio_world \<Rightarrow> i32 \<Rightarrow> bytes list \<Rightarrow> int \<times> (u32 \<rightharpoonup> u64) \<Rightarrow> int \<times> (u32 \<rightharpoonup> u64)" where
  "refresh_loop w session_id [] cm = cm"
| "refresh_loop w session_id (name # names) (n, m) =
     (if \<not> is_numeric_name name then refresh_loop w session_id names (n, m)
      else (case strtoul_digits name of
          None \<Rightarrow> refresh_loop w session_id names (n, m)
        | Some raw_pid \<Rightarrow>
            if raw_pid = 0 \<or> 4294967295 < raw_pid then refresh_loop w session_id names (n, m)
            else
              let pid = of_nat raw_pid :: u32 in
              if sw_getsid w pid \<noteq> session_id then refresh_loop w session_id names (n, m)
              else (case map_update (sw_room w m) m pid 1 BPF_ANY of (ok, m') \<Rightarrow>
                      refresh_loop w session_id names (if ok then (n + 1, m') else (n, m')))))"

definition refresh_session_pids :: "stdio_world \<Rightarrow> bool \<Rightarrow> i32 \<Rightarrow> (u32 \<rightharpoonup> u64) \<Rightarrow> int \<times> (u32 \<rightharpoonup> u64)" where
  "refresh_session_pids w map_ok session_id m =
     (if \<not> map_ok \<or> sint session_id \<le> 0 then (0, m)
      else (case sw_proc w of Inl errno \<Rightarrow> (- errno, m) | Inr names \<Rightarrow> refresh_loop w session_id names (0, m)))"

section \<open>The code: events\<close>

definition stdio_print_event :: "stdio_world \<Rightarrow> stdio_opts \<Rightarrow> stdiocap_event_t \<Rightarrow> bytes" where
  "stdio_print_event w env event =
     (if so_comm env \<noteq> None \<and> the (so_comm env) \<noteq> c_str (se_comm event) then []
      else
        let buf_size = min (unat (se_buf_size event)) STDIO_MAX_BUF_SIZE;
            event_buf = take buf_size (se_buf event)
        in ''{'' @ ''\"direction\":\"'' @ (if se_is_read event then ''READ'' else ''WRITE'') @ ''\",'' @
           ''\"timestamp_ns\":'' @ dec_nat (unat (se_timestamp_ns event)) @ '','' @
           ''\"comm\":\"'' @ c_str (se_comm event) @ ''\",'' @
           ''\"pid\":'' @ dec_nat (unat (se_pid event)) @ '','' @
           ''\"tid\":'' @ dec_nat (unat (se_tid event)) @ '','' @
           ''\"uid\":'' @ dec_nat (unat (se_uid event)) @ '','' @
           ''\"fd\":'' @ dec_int (sint (se_fd event)) @ '','' @
           ''\"fd_role\":\"'' @ fd_role (se_fd event) @ ''\",'' @
           (case resolve_fd_target w (se_pid event) (se_fd event) PATH_MAX of
              Some t \<Rightarrow> ''\"fd_target\":'' @ json_print_escaped_quoted (sw_mbrtowc w) t (length t) @ '',''
            | None \<Rightarrow> ''\"fd_target\":null,'') @
           ''\"len\":'' @ dec_nat (unat (se_len event)) @ '','' @
           ''\"buf_size\":'' @ dec_nat buf_size @ '','' @
           ''\"latency_ms\":'' @ latency_ms (se_delta_ns event) @ '','' @
           ''\"data\":'' @
           (if buf_size = 0 then ''null,\"truncated\":false}'' @ [CHR 0x0A]
            else json_print_escaped_quoted (sw_mbrtowc w) event_buf buf_size @
              (if buf_size < unat (se_len event)
               then '',\"truncated\":true,\"bytes_lost\":'' @ dec_nat (unat (se_len event) - buf_size) @ ''}'' @ [CHR 0x0A]
               else '',\"truncated\":false}'' @ [CHR 0x0A])))"

definition stdio_handle_event :: "stdio_world \<Rightarrow> stdio_opts \<Rightarrow> stdiocap_event_t \<Rightarrow> int \<times> bytes" where
  "stdio_handle_event w env event = (0, stdio_print_event w env event)"

section \<open>The code: main\<close>

definition stdio_rodata :: "stdio_opts \<Rightarrow> stdio_config" where
  "stdio_rodata env = \<lparr>sc_targ_pid = (if so_pid env = -1 then 0 else so_pid env),
     sc_targ_uid = (if so_uid env = -1 then 0xffffffff else so_uid env), trace_stdio_only = (\<not> so_all_fds env),
     max_capture_bytes = so_max_bytes env, use_tracked_pids = (so_session_id env \<noteq> -1)\<rparr>"

record stdio_turn =
  su_before :: "(stdio_prog \<times> stdio_env) list"
  su_scan :: stdio_world
  su_after :: "(stdio_prog \<times> stdio_env) list"
  su_poll :: int
  su_worlds :: "nat \<Rightarrow> stdio_world"

definition stdio_scan :: "stdio_world \<Rightarrow> stdio_opts \<Rightarrow> stdio_state \<Rightarrow> int \<times> stdio_state" where
  "stdio_scan w env st =
     (if so_session_id env \<noteq> -1 then
        (case refresh_session_pids w True (so_session_id env) (stdio_tracked_pids st) of (n, m) \<Rightarrow> (n, st\<lparr>stdio_tracked_pids := m\<rparr>))
      else (0, st))"

definition stdio_handle_events :: "stdio_opts \<Rightarrow> (stdio_world \<times> stdiocap_event_t) list \<Rightarrow> bytes" where
  "stdio_handle_events env evs = concat (map (\<lambda>(w, e). snd (stdio_handle_event w env e)) evs)"

text \<open>
  The loop of \<open>main\<close>; the list of turns ends when \<open>exiting\<close> is set. The poll hands the oldest
  records to the handler, as many as it returns.
\<close>

definition STDIO_EINTR :: int where
  "STDIO_EINTR = 4"

fun stdio_loop :: "stdio_opts \<Rightarrow> stdio_turn list \<Rightarrow> int \<Rightarrow> stdio_state \<Rightarrow> int \<times> stdio_state \<times> bytes" where
  "stdio_loop env [] err st = (err, st, [])"
| "stdio_loop env (t # ts) err st =
     (let cfg = stdio_rodata env;
          st1 = fold (run_stdio cfg) (su_before t) st;
          (_, st2) = stdio_scan (su_scan t) env st1;
          st3 = fold (run_stdio cfg) (su_after t) st2
      in if su_poll t = - STDIO_EINTR then (0, st3, [])
         else if su_poll t < 0 then (su_poll t, st3, [])
         else
           let n = nat (su_poll t);
               evs = take n (stdio_rb st3);
               out = stdio_handle_events env (zip (map (su_worlds t) [0..<length evs]) evs);
               (err', st', out') = stdio_loop env ts 0 (st3\<lparr>stdio_rb := drop n (stdio_rb st3)\<rparr>)
           in (err', st', out @ out'))"

text \<open>The results of the set-up calls: \<open>errno\<close> values for the load, attach and ring buffer calls.\<close>

record stdio_setup =
  sl_open :: bool
  sl_load :: int
  sl_attach :: int
  sl_alloc :: bool
  sl_ring :: "int option"
  sl_signal :: bool

datatype stdio_result = Stdio_usage stdio_opt_error | Stdio_exit int "stdio_state option" bytes

definition stdio_status :: "int \<Rightarrow> int" where
  "stdio_status err = (if err \<noteq> 0 then 1 else 0)"

definition stdio_empty :: stdio_state where
  "stdio_empty = \<lparr>io_args = Map.empty, stdio_tracked_pids = Map.empty, stdio_rb = []\<rparr>"

definition ENOMEM :: int where
  "ENOMEM = 12"

text \<open>Between attaching and the loop; the programs run from the moment they are attached.\<close>

definition stdio_attached :: "stdio_setup \<Rightarrow> stdio_world \<Rightarrow> stdio_opts \<Rightarrow> (stdio_prog \<times> stdio_env) list \<Rightarrow> stdio_turn list \<Rightarrow> stdio_result" where
  "stdio_attached su w0 env early turns =
     (let (n, st1) = stdio_scan w0 env (fold (run_stdio (stdio_rodata env)) early stdio_empty);
          err = (if so_session_id env \<noteq> -1 then n else 0)
      in if \<not> sl_alloc su then Stdio_exit (stdio_status (- ENOMEM)) None []
         else (case sl_ring su of
             Some errno \<Rightarrow> Stdio_exit (stdio_status (- errno)) None []
           | None \<Rightarrow>
               if \<not> sl_signal su then Stdio_exit (stdio_status 1) None []
               else (case stdio_loop env turns err st1 of (err', st', out) \<Rightarrow> Stdio_exit (stdio_status err') (Some st') out)))"

definition stdio_main :: "stdio_setup \<Rightarrow> stdio_world \<Rightarrow> stdio_arg list \<Rightarrow> (stdio_prog \<times> stdio_env) list \<Rightarrow> stdio_turn list \<Rightarrow> stdio_result" where
  "stdio_main su w0 argv early turns =
     (case stdio_parse_args argv stdio_default_opts of
        Inl e \<Rightarrow> Stdio_usage e
      | Inr env \<Rightarrow>
          if \<not> sl_open su then Stdio_exit (stdio_status 0) None []
          else if sl_load su \<noteq> 0 then Stdio_exit (stdio_status (sl_load su)) None []
          else if sl_attach su \<noteq> 0 then Stdio_exit (stdio_status (sl_attach su)) None []
          else stdio_attached su w0 env early turns)"

section \<open>Accepted command lines\<close>

lemma stdio_parse_arg_max:
  assumes "stdio_parse_arg a env = Inr env'" "0 < sint (so_max_bytes env)" "sint (so_max_bytes env) \<le> 8192"
  shows "0 < sint (so_max_bytes env') \<and> sint (so_max_bytes env') \<le> 8192"
  using assms by (cases a) (auto simp: Let_def STDIO_MAX_BUF_SIZE_def split: if_splits)

text \<open>An accepted command line names a process or a session, and the limit is between 1 and 8192 bytes.\<close>

lemma stdio_parse_args_ok:
  assumes "stdio_parse_args as env = Inr env'" "0 < sint (so_max_bytes env)" "sint (so_max_bytes env) \<le> 8192"
  shows "(so_pid env' \<noteq> -1 \<or> so_session_id env' \<noteq> -1) \<and> 0 < sint (so_max_bytes env') \<and> sint (so_max_bytes env') \<le> 8192"
  using assms
proof (induction "as" arbitrary: env)
  case Nil
  then show ?case by (auto split: if_splits)
next
  case (Cons a "as")
  then obtain env1 where "stdio_parse_arg a env = Inr env1" "stdio_parse_args as env1 = Inr env'" by (auto split: sum.splits)
  with Cons stdio_parse_arg_max show ?case by blast
qed

section \<open>The line of an event\<close>

text \<open>The members of the JSON object, strings in escaped form.\<close>

definition stdio_fields :: "stdio_world \<Rightarrow> stdiocap_event_t \<Rightarrow> (bytes \<times> jval) list" where
  "stdio_fields w e =
     (let buf_size = min (unat (se_buf_size e)) STDIO_MAX_BUF_SIZE; esc = json_print_escaped (sw_mbrtowc w)
      in [(''direction'', JStr (if se_is_read e then ''READ'' else ''WRITE'')),
          (''timestamp_ns'', JLit (dec_nat (unat (se_timestamp_ns e)))), (''comm'', JStr (c_str (se_comm e))),
          (''pid'', JLit (dec_nat (unat (se_pid e)))), (''tid'', JLit (dec_nat (unat (se_tid e)))),
          (''uid'', JLit (dec_nat (unat (se_uid e)))), (''fd'', JLit (dec_int (sint (se_fd e)))),
          (''fd_role'', JStr (fd_role (se_fd e))),
          (''fd_target'', case resolve_fd_target w (se_pid e) (se_fd e) PATH_MAX of Some t \<Rightarrow> JStr (esc t (length t)) | None \<Rightarrow> JLit ''null''),
          (''len'', JLit (dec_nat (unat (se_len e)))), (''buf_size'', JLit (dec_nat buf_size)),
          (''latency_ms'', JLit (latency_ms (se_delta_ns e)))] @
         (if buf_size = 0 then [(''data'', JLit ''null''), (''truncated'', JLit ''false'')]
          else if buf_size < unat (se_len e)
          then [(''data'', JStr (esc (take buf_size (se_buf e)) buf_size)), (''truncated'', JLit ''true''),
                (''bytes_lost'', JLit (dec_nat (unat (se_len e) - buf_size)))]
          else [(''data'', JStr (esc (take buf_size (se_buf e)) buf_size)), (''truncated'', JLit ''false'')]))"

definition comm_selected :: "stdio_opts \<Rightarrow> stdiocap_event_t \<Rightarrow> bool" where
  "comm_selected env e \<longleftrightarrow> (case so_comm env of None \<Rightarrow> True | Some c \<Rightarrow> c = c_str (se_comm e))"

lemma stdio_print_event_render:
  "stdio_print_event w env e = (if comm_selected env e then render_line (stdio_fields w e) else [])"
  by (auto simp: stdio_print_event_def stdio_fields_def comm_selected_def render_line_def render_member_def
      json_print_escaped_quoted_def Let_def split: option.split)

lemma stdio_fields_ok:
  assumes "multibyte (sw_mbrtowc w)" "json_chars (c_str (se_comm e))"
  shows "list_all member_ok (stdio_fields w e)"
proof -
  have esc: "json_chars (json_print_escaped (sw_mbrtowc w) b n)" for b n
    unfolding json_print_escaped_def by (rule multibyte.escape_loop_json[OF assms(1)])
  have "json_chars (fd_role fd)" for fd by (simp add: fd_role_def json_chars_ascii)
  moreover have "json_chars s" if "s \<in> {''direction'', ''timestamp_ns'', ''comm'', ''pid'', ''tid'', ''uid'', ''fd'', ''fd_role'', ''fd_target'',
      ''len'', ''buf_size'', ''latency_ms'', ''data'', ''truncated'', ''bytes_lost'', ''READ'', ''WRITE''}" for s
    using that by (auto intro!: json_chars_ascii)
  ultimately show ?thesis
    using assms(2) esc by (simp add: stdio_fields_def member_ok_def Let_def split: option.split)
qed

lemma stdio_line_parses:
  assumes "multibyte (sw_mbrtowc w)" "json_chars (c_str (se_comm e))" "comm_selected env e"
  shows "parse_line (stdio_print_event w env e) = Some (stdio_fields w e)"
  using parse_line_render[OF _ stdio_fields_ok[OF assms(1,2)]] assms(3)
  by (simp add: stdio_print_event_render) (simp add: stdio_fields_def Let_def)

text \<open>
  The line of an event is a JSON object for any captured bytes, provided only that the command name
  needs no escape; and when they are UTF-8 text, reading the object back gives exactly the captured
  bytes, the process and whether bytes were lost.
\<close>

theorem stdio_line_roundtrip:
  assumes "multibyte (sw_mbrtowc w)" "json_chars (c_str (se_comm e))" "comm_selected env e" "se_buf_size e \<le> of_nat STDIO_MAX_BUF_SIZE"
  shows "\<exists>ms. parse_line (stdio_print_event w env e) = Some ms \<and>
    map_of ms ''pid'' = Some (JLit (dec_nat (unat (se_pid e)))) \<and> map_of ms ''fd'' = Some (JLit (dec_int (sint (se_fd e)))) \<and>
    (utf8_mbrtowc (sw_mbrtowc w) \<longrightarrow> 0 < se_buf_size e \<longrightarrow> utf8_text (take (unat (se_buf_size e)) (se_buf e)) \<longrightarrow>
      (\<exists>s. map_of ms ''data'' = Some (JStr s) \<and> json_unescape s = Some (take (unat (se_buf_size e)) (se_buf e)) \<and>
        map_of ms ''truncated'' = Some (JLit (if se_buf_size e < se_len e then ''true'' else ''false''))))"
proof -
  have k: "min (unat (se_buf_size e)) STDIO_MAX_BUF_SIZE = unat (se_buf_size e)"
    using assms(4) by (simp add: word_le_nat_alt STDIO_MAX_BUF_SIZE_def)
  show ?thesis
    using stdio_line_parses[OF assms(1-3)] utf8_mbrtowc.escape_loop_unescape[of "sw_mbrtowc w" "take (unat (se_buf_size e)) (se_buf e)"]
    by (auto simp: stdio_fields_def k Let_def json_print_escaped_def word_less_nat_alt)
qed

definition stdio_demo_world :: stdio_world where
  "stdio_demo_world = \<lparr>sw_proc = Inr [''self'', ''17'', ''4''], sw_getsid = (\<lambda>p. if p = 17 then 17 else 1), sw_room = (\<lambda>_. True),
     sw_readlink = (\<lambda>_. None), sw_mbrtowc = mbrtowc_utf8\<rparr>"

definition stdio_demo_event :: stdiocap_event_t where
  "stdio_demo_event = stdio_demo_slot\<lparr>se_pid := 17, se_fd := 1, se_len := 2, se_buf_size := 2, se_comm := ''sh'', se_buf := ''a'' @ [CHR 0x22]\<rparr>"

theorem stdio_line_roundtrip_witness:
  "\<exists>ms s. parse_line (stdio_print_event stdio_demo_world stdio_default_opts stdio_demo_event) = Some ms \<and>
    map_of ms ''pid'' = Some (JLit (dec_nat 17)) \<and> map_of ms ''data'' = Some (JStr s) \<and> json_unescape s = Some (''a'' @ [CHR 0x22])"
proof -
  have e: "json_chars (c_str (se_comm stdio_demo_event))" "comm_selected stdio_default_opts stdio_demo_event"
    "se_buf_size stdio_demo_event \<le> of_nat STDIO_MAX_BUF_SIZE" "se_pid stdio_demo_event = 17" "0 < se_buf_size stdio_demo_event"
    "take (unat (se_buf_size stdio_demo_event)) (se_buf stdio_demo_event) = ''a'' @ [CHR 0x22]"
    by (simp_all add: stdio_demo_event_def comm_selected_def stdio_default_opts_def STDIO_MAX_BUF_SIZE_def)
  have mb: "multibyte (sw_mbrtowc stdio_demo_world)" "utf8_mbrtowc (sw_mbrtowc stdio_demo_world)"
    by (simp_all add: stdio_demo_world_def utf8_locale.multibyte_axioms utf8_locale.utf8_mbrtowc_axioms)
  have "utf8_text (''a'' @ [CHR 0x22])" by (simp add: Let_def utf8_len.simps)
  then show ?thesis using stdio_line_roundtrip[OF mb(1) e(1-3)] mb(2) e(4-6) by auto
qed

section \<open>The session scan\<close>

definition session_pids :: "stdio_world \<Rightarrow> i32 \<Rightarrow> bytes list \<Rightarrow> u32 set" where
  "session_pids w sid names =
     {pid. pid \<noteq> 0 \<and> sw_getsid w pid = sid \<and> (\<exists>name\<in>set names. is_numeric_name name \<and> dec_value name = unat pid)}"

lemma refresh_loop_dom:
  assumes "\<forall>m. sw_room w m"
  shows "dom (snd (refresh_loop w sid names (n, m))) = dom m \<union> session_pids w sid names"
proof (induction names arbitrary: n m)
  case Nil
  then show ?case by (simp add: session_pids_def)
next
  case (Cons name names)
  show ?case
  proof (cases "is_numeric_name name \<and> dec_value name \<noteq> 0 \<and> dec_value name \<le> 4294967295")
    case False
    have "\<not> (is_numeric_name name \<and> dec_value name = unat q)" if "q \<noteq> 0" for q :: u32
      using False that unat_u32[of q] unat_eq_0[of q] by auto
    then have "session_pids w sid (name # names) = session_pids w sid names" by (auto simp: session_pids_def)
    then show ?thesis using False Cons by (auto simp: strtoul_digits_def Let_def)
  next
    case True
    let ?p = "of_nat (dec_value name) :: u32"
    have p: "unat ?p = dec_value name" using True by (intro unat_of_nat_u32) simp
    have "session_pids w sid (name # names) = (if sw_getsid w ?p = sid then {?p} else {}) \<union> session_pids w sid names"
    proof -
      have "dec_value name = unat q \<longleftrightarrow> q = ?p" for q :: u32 using p by (metis word_unat_eq_iff)
      moreover have "?p \<noteq> 0" using p True unat_eq_0[of ?p] by simp
      ultimately show ?thesis using True by (auto simp: session_pids_def)
    qed
    then show ?thesis
      using True Cons assms by (auto simp: strtoul_digits_def Let_def map_update_def split: option.split)
  qed
qed

text \<open>When the map is full, nothing else is added.\<close>

lemma refresh_loop_subset: "dom (snd (refresh_loop w sid names (n, m))) \<subseteq> dom m \<union> session_pids w sid names"
proof (induction names arbitrary: n m)
  case (Cons name names)
  have up: "session_pids w sid names \<subseteq> session_pids w sid (name # names)" by (auto simp: session_pids_def)
  show ?case
  proof (cases "is_numeric_name name \<and> dec_value name \<noteq> 0 \<and> dec_value name \<le> 4294967295 \<and> sw_getsid w (of_nat (dec_value name)) = sid")
    case False
    then have "refresh_loop w sid (name # names) (n, m) = refresh_loop w sid names (n, m)"
      by (cases "is_numeric_name name"; cases "dec_value name = 0"; cases "4294967295 < dec_value name") (simp_all add: strtoul_digits_def Let_def)
    then show ?thesis using Cons[of n m] up by (simp only:) blast
  next
    case True
    let ?p = "of_nat (dec_value name) :: u32"
    obtain ok m1 where m1: "map_update (sw_room w m) m ?p 1 BPF_ANY = (ok, m1)" by fastforce
    have p: "unat ?p = dec_value name" using True by (intro unat_of_nat_u32) simp
    then have "?p \<in> session_pids w sid (name # names)" using True unat_eq_0[of ?p] by (auto simp: session_pids_def)
    then have "dom m1 \<subseteq> dom m \<union> session_pids w sid (name # names)" using m1 by (auto simp: map_update_def split: option.splits if_splits)
    moreover have "refresh_loop w sid (name # names) (n, m) = refresh_loop w sid names (if ok then n + 1 else n, m1)"
      using True m1 by (auto simp: strtoul_digits_def Let_def)
    ultimately show ?thesis using Cons[of "if ok then n + 1 else n" m1] up by (simp only:) blast
  qed
qed simp

text \<open>
  The scan adds exactly the processes of the session to the tracked ones: those whose numeric name
  is listed in \<open>/proc\<close> and that belong to the session. Nothing is removed, so that processes stay
  tracked after they leave the session or end.
\<close>

theorem refresh_session_pids_exact:
  assumes "0 < sint sid" "sw_proc w = Inr names" "\<forall>m. sw_room w m"
  shows "dom (snd (refresh_session_pids w True sid m)) = dom m \<union> session_pids w sid names"
  using assms refresh_loop_dom[OF assms(3), of sid names 0 m] by (simp add: refresh_session_pids_def)

theorem refresh_session_pids_exact_witness:
  "dom (snd (refresh_session_pids stdio_demo_world True 17 [5 \<mapsto> 1])) = {5} \<union> session_pids stdio_demo_world 17 [''self'', ''17'', ''4'']"
  using refresh_session_pids_exact[of 17 stdio_demo_world "[''self'', ''17'', ''4'']" "[5 \<mapsto> 1]"] by (simp add: stdio_demo_world_def)

section \<open>Runs of the tracer\<close>

text \<open>The calls of a run, and the processes that its session scans find.\<close>

definition turn_calls :: "stdio_turn \<Rightarrow> stdio_call set" where
  "turn_calls t = set (su_before t) \<union> set (su_after t)"

definition scan_pids :: "stdio_opts \<Rightarrow> stdio_world \<Rightarrow> u32 set" where
  "scan_pids env w =
     (if so_session_id env = -1 then {}
      else case sw_proc w of Inl _ \<Rightarrow> {} | Inr names \<Rightarrow> session_pids w (so_session_id env) names)"

definition stdio_turn_ok :: "stdio_turn \<Rightarrow> bool" where
  "stdio_turn_ok t \<longleftrightarrow> (\<forall>p\<in>turn_calls t. stdio_env_ok (snd p))"

lemma stdio_scan_inv:
  assumes "stdio_inv cfg H S st" "scan_pids env w \<subseteq> S"
  shows "stdio_inv cfg H S (snd (stdio_scan w env st))"
proof (cases "so_session_id env = -1")
  case False
  obtain n m where r: "refresh_session_pids w True (so_session_id env) (stdio_tracked_pids st) = (n, m)" by fastforce
  have "dom (snd (refresh_session_pids w True (so_session_id env) (stdio_tracked_pids st))) \<subseteq> dom (stdio_tracked_pids st) \<union> scan_pids env w"
    using False refresh_loop_subset[of w "so_session_id env" _ 0 "stdio_tracked_pids st"]
    by (auto simp: refresh_session_pids_def scan_pids_def split: sum.split)
  then have "dom m \<subseteq> dom (stdio_tracked_pids st) \<union> S" using assms(2) by (simp only: r snd_conv) blast
  moreover have "family H S pid" if "pid \<in> dom (stdio_tracked_pids st)" for pid using assms(1) that unfolding stdio_inv_def by meson
  ultimately have "\<forall>pid\<in>dom m. family H S pid" using family.found by blast
  with False r assms(1) show ?thesis by (simp add: stdio_scan_def stdio_inv_def)
qed (simp add: stdio_scan_def assms(1))

text \<open>
  The selection in terms of the command line: the user, the descriptors, the process or the session,
  and the name of the command, which is checked when the event is printed.
\<close>

definition opt_selected :: "stdio_opts \<Rightarrow> stdio_call set \<Rightarrow> u32 set \<Rightarrow> stdio_env \<Rightarrow> bool" where
  "opt_selected env H S e1 \<longleftrightarrow>
     (so_uid env \<noteq> -1 \<longrightarrow> ucast (uid_gid e1) = so_uid env) \<and>
     (\<not> so_all_fds env \<longrightarrow> 0 \<le> sint (arg_int e1 0) \<and> sint (arg_int e1 0) \<le> 2) \<and>
     (if so_session_id env \<noteq> -1 then family H S (cur_tgid e1) else so_pid env \<in> {-1, 0} \<or> cur_tgid e1 = so_pid env)"

lemma call_selected_rodata: "call_selected (stdio_rodata env) H S e1 = opt_selected env H S e1"
  by (auto simp: call_selected_def opt_selected_def stdio_rodata_def user_ok_def fd_ok_def)

text \<open>What a printed event is: its buffer is sound, and it goes back to a selected call of the process it names.\<close>

definition printed_ok :: "stdio_opts \<Rightarrow> stdio_call set \<Rightarrow> u32 set \<Rightarrow> stdiocap_event_t \<Rightarrow> bool" where
  "printed_ok env H S e \<longleftrightarrow>
     (\<exists>p e1. (p, e1) \<in> H \<and> p \<in> {Enter_read, Enter_write} \<and> opt_selected env H S e1 \<and> se_pid e = cur_tgid e1 \<and>
        se_tid e = cur_tid e1 \<and> se_fd e = arg_int e1 0 \<and> se_is_read e = (p = Enter_read)) \<and>
     so_comm env \<in> {None, Some (c_str (se_comm e))} \<and>
     length (se_buf e) = STDIO_MAX_BUF_SIZE \<and> unat (se_buf_size e) \<le> STDIO_MAX_BUF_SIZE \<and>
     se_buf_size e \<le> so_max_bytes env \<and> se_buf_size e \<le> se_len e"

definition lines_of :: "stdio_opts \<Rightarrow> stdio_call set \<Rightarrow> u32 set \<Rightarrow> bytes \<Rightarrow> bool" where
  "lines_of env H S out \<longleftrightarrow>
     (\<exists>evs. out = concat (map (\<lambda>(w, e). stdio_print_event w env e) evs) \<and> (\<forall>(w, e)\<in>set evs. printed_ok env H S e))"

lemma printed_ok_event:
  "stdio_event_ok (stdio_rodata env) H S e \<Longrightarrow> so_comm env \<in> {None, Some (c_str (se_comm e))} \<Longrightarrow> printed_ok env H S e"
  unfolding stdio_event_ok_def stdio_origin_def printed_ok_def call_selected_rodata by (auto simp: stdio_rodata_def)

lemma lines_of_append: "lines_of env H S a \<Longrightarrow> lines_of env H S b \<Longrightarrow> lines_of env H S (a @ b)"
proof -
  assume "lines_of env H S a" "lines_of env H S b"
  then obtain x y where "a = concat (map (\<lambda>(w, e). stdio_print_event w env e) x)" "\<forall>(w, e)\<in>set x. printed_ok env H S e"
    "b = concat (map (\<lambda>(w, e). stdio_print_event w env e) y)" "\<forall>(w, e)\<in>set y. printed_ok env H S e"
    by (auto simp: lines_of_def)
  then show ?thesis unfolding lines_of_def by (intro exI[of _ "x @ y"]) auto
qed

lemma lines_of_Nil [simp]: "lines_of env H S []"
  unfolding lines_of_def by (intro exI[of _ "[]"]) simp

lemma concat_map_filter: "(\<And>x. \<not> P x \<Longrightarrow> f x = []) \<Longrightarrow> concat (map f xs) = concat (map f (filter P xs))"
  by (induction xs) simp_all

text \<open>An event of another command prints nothing.\<close>

lemma stdio_handle_events_lines:
  assumes "stdio_inv (stdio_rodata env) H S st" "set evs \<subseteq> set (stdio_rb st)"
  shows "lines_of env H S (stdio_handle_events env (zip ws evs))"
proof -
  let ?sel = "\<lambda>(w, e). so_comm env \<in> {None, Some (c_str (se_comm e))}"
  have "(case x of (w, e) \<Rightarrow> stdio_print_event w env e) = []" if "\<not> ?sel x" for x
    using that by (cases x; cases "so_comm env") (simp_all add: stdio_print_event_def)
  then have "concat (map (\<lambda>(w, e). stdio_print_event w env e) xs) = concat (map (\<lambda>(w, e). stdio_print_event w env e) (filter ?sel xs))" for xs
    by (rule concat_map_filter)
  then have "stdio_handle_events env (zip ws evs) = concat (map (\<lambda>(w, e). stdio_print_event w env e) (filter ?sel (zip ws evs)))"
    by (simp add: stdio_handle_events_def stdio_handle_event_def)
  moreover have "\<forall>(w, e)\<in>set (filter ?sel (zip ws evs)). printed_ok env H S e"
    using assms by (auto simp: stdio_inv_def intro!: printed_ok_event dest!: set_zip_rightD)
  ultimately show ?thesis unfolding lines_of_def by blast
qed

lemma stdio_inv_drop: "stdio_inv cfg H S st \<Longrightarrow> stdio_inv cfg H S (st\<lparr>stdio_rb := drop n (stdio_rb st)\<rparr>)"
  by (auto simp: stdio_inv_def dest: in_set_dropD)

lemma stdio_loop_lines:
  assumes "\<forall>t\<in>set ts. stdio_turn_ok t \<and> turn_calls t \<subseteq> H \<and> scan_pids env (su_scan t) \<subseteq> S"
    and "stdio_inv (stdio_rodata env) H S st" "stdio_loop env ts err st = (err', st', out)"
  shows "stdio_inv (stdio_rodata env) H S st' \<and> lines_of env H S out"
  using assms
proof (induction ts arbitrary: err st err' st' out)
  case (Cons t ts)
  let ?cfg = "stdio_rodata env"
  let ?st1 = "fold (run_stdio ?cfg) (su_before t) st"
  obtain n st2 where scan: "stdio_scan (su_scan t) env ?st1 = (n, st2)" by fastforce
  let ?st3 = "fold (run_stdio ?cfg) (su_after t) st2"
  let ?k = "nat (su_poll t)"
  let ?st4 = "?st3\<lparr>stdio_rb := drop ?k (stdio_rb ?st3)\<rparr>"
  have calls: "\<forall>p\<in>set (su_before t) \<union> set (su_after t). stdio_env_ok (snd p)" "set (su_before t) \<subseteq> H" "set (su_after t) \<subseteq> H"
    using Cons.prems(1) by (auto simp: stdio_turn_ok_def turn_calls_def)
  then have "stdio_inv ?cfg H S ?st1" by (intro stdio_runs_inv[OF Cons.prems(2)]) simp_all
  from stdio_scan_inv[OF this, of env "su_scan t"] have "stdio_inv ?cfg H S st2" using Cons.prems(1) by (simp add: scan)
  then have i3: "stdio_inv ?cfg H S ?st3" using calls by (intro stdio_runs_inv) simp_all
  show ?case
  proof (cases "su_poll t < 0")
    case True
    then show ?thesis using Cons.prems(3) i3 scan by (auto simp: Let_def STDIO_EINTR_def split: if_splits)
  next
    case False
    let ?evs = "take ?k (stdio_rb ?st3)"
    let ?out = "stdio_handle_events env (zip (map (su_worlds t) [0..<length ?evs]) ?evs)"
    obtain err2 st5 out2 where rest: "stdio_loop env ts 0 ?st4 = (err2, st5, out2)" by (metis prod_cases3)
    have IH: "stdio_inv ?cfg H S st5 \<and> lines_of env H S out2"
      using Cons.IH[OF _ _ rest] Cons.prems(1) stdio_inv_drop[OF i3] by simp
    have "st' = st5" "out = ?out @ out2"
      using Cons.prems(3) False scan rest by (auto simp: Let_def STDIO_EINTR_def)
    moreover have "lines_of env H S ?out"
      by (intro stdio_handle_events_lines[OF i3]) (auto dest: in_set_takeD)
    ultimately show ?thesis using IH lines_of_append by blast
  qed
qed auto

text \<open>
  C15: Whatever the traced processes do, and whether or not the kernel's maps have room, what a run of the
  tracer prints is a sequence of event lines, each for a call of the run that the command line selects:
  by its user with \<open>--uid\<close>, by its descriptor (0 to 2) unless \<open>--all-fds\<close> is given, by its command
  with \<open>--comm\<close>, and by its process, which is the target or, with a session, of the family of the
  processes that the session scans find. When the command line is accepted, the run ends with an exit
  status.
\<close>

theorem stdio_main_prints_selected:
  assumes "stdio_parse_args argv stdio_default_opts = Inr env"
    and "\<forall>p\<in>set early. stdio_env_ok (snd p)" "\<forall>t\<in>set turns. stdio_turn_ok t"
    and "calls = set early \<union> \<Union> (turn_calls ` set turns)" "found = \<Union> (scan_pids env ` insert w0 (su_scan ` set turns))"
  shows "\<exists>status st evs. status \<in> {0, 1} \<and>
    stdio_main su w0 argv early turns = Stdio_exit status st (concat (map (\<lambda>(w, e). stdio_print_event w env e) evs)) \<and>
    (\<forall>(w, e)\<in>set evs. printed_ok env calls found e) \<and>
    (case st of None \<Rightarrow> evs = [] | Some final \<Rightarrow> stdio_inv (stdio_rodata env) calls found final)"
proof -
  let ?cfg = "stdio_rodata env"
  have status: "stdio_status e \<in> {0, 1}" for e by (simp add: stdio_status_def)
  have "stdio_inv ?cfg calls found stdio_empty" by (simp add: stdio_inv_def stdio_empty_def)
  then have "stdio_inv ?cfg calls found (fold (run_stdio ?cfg) early stdio_empty)"
    using assms(2,4) by (intro stdio_runs_inv) auto
  moreover obtain n st1 where scan: "stdio_scan w0 env (fold (run_stdio ?cfg) early stdio_empty) = (n, st1)" by fastforce
  ultimately have i1: "stdio_inv ?cfg calls found st1"
    using stdio_scan_inv[of ?cfg calls found "fold (run_stdio ?cfg) early stdio_empty" env w0] by (simp add: assms(5))
  obtain err' st' out where loop: "stdio_loop env turns (if so_session_id env \<noteq> -1 then n else 0) st1 = (err', st', out)"
    by (metis prod_cases3)
  have "\<forall>t\<in>set turns. stdio_turn_ok t \<and> turn_calls t \<subseteq> calls \<and> scan_pids env (su_scan t) \<subseteq> found"
    using assms(3) unfolding assms(4,5) by blast
  from stdio_loop_lines[OF this i1 loop] obtain evs where "stdio_inv ?cfg calls found st'"
    "out = concat (map (\<lambda>(w, e). stdio_print_event w env e) evs)" "\<forall>(w, e)\<in>set evs. printed_ok env calls found e"
    unfolding lines_of_def by blast
  then have run: "\<exists>st evs'. Stdio_exit s (Some st') out = Stdio_exit s st (concat (map (\<lambda>(w, e). stdio_print_event w env e) evs')) \<and>
      (\<forall>(w, e)\<in>set evs'. printed_ok env calls found e) \<and> (case st of None \<Rightarrow> evs' = [] | Some final \<Rightarrow> stdio_inv ?cfg calls found final)" for s
    by (intro exI[of _ "Some st'"] exI[of _ evs]) simp
  have none: "\<exists>st evs'. Stdio_exit s None [] = Stdio_exit s st (concat (map (\<lambda>(w, e). stdio_print_event w env e) evs')) \<and>
      (\<forall>(w, e)\<in>set evs'. printed_ok env calls found e) \<and> (case st of None \<Rightarrow> evs' = [] | Some final \<Rightarrow> stdio_inv ?cfg calls found final)" for s
    by (intro exI[of _ None] exI[of _ "[]"]) simp
  have "\<exists>s. stdio_main su w0 argv early turns \<in> {Stdio_exit (stdio_status s) None [], Stdio_exit (stdio_status s) (Some st') out}"
    using loop scan by (auto simp: stdio_main_def assms(1) stdio_attached_def Let_def split: option.split)
  then show ?thesis using run none status by (metis insertE singletonD)
qed

text \<open>A run that traces process 5: its one line is for that process and its standard output.\<close>

theorem stdio_main_prints_selected_witness:
  "\<exists>status st evs. stdio_main \<lparr>sl_open = True, sl_load = 0, sl_attach = 0, sl_alloc = True, sl_ring = None, sl_signal = True\<rparr> stdio_demo_world
       [SA_p ''5''] [(Enter_write, stdio_demo_env), (Exit_write, stdio_demo_env)]
       [\<lparr>su_before = [], su_scan = stdio_demo_world, su_after = [], su_poll = 1, su_worlds = (\<lambda>_. stdio_demo_world)\<rparr>] =
     Stdio_exit status st (concat (map (\<lambda>(w, e). stdio_print_event w (stdio_default_opts\<lparr>so_pid := 5\<rparr>) e) evs)) \<and>
     (\<forall>(w, e)\<in>set evs. se_pid e = 5 \<and> se_fd e = 1)"
proof -
  let ?env = "stdio_default_opts\<lparr>so_pid := 5\<rparr>" and ?early = "[(Enter_write, stdio_demo_env), (Exit_write, stdio_demo_env)]"
  let ?turn = "\<lparr>su_before = [], su_scan = stdio_demo_world, su_after = [], su_poll = 1, su_worlds = (\<lambda>_. stdio_demo_world)\<rparr>"
  have "atoi ''5'' = 5" by (simp add: atoi_def strtol_def Let_def is_space_def is_digit_def dec_value_def)
  then have env: "stdio_parse_args [SA_p ''5''] stdio_default_opts = Inr ?env" by simp
  have early: "\<forall>p\<in>set ?early. stdio_env_ok (snd p)" and turns: "\<forall>t\<in>set [?turn]. stdio_turn_ok t"
    by (simp_all add: stdio_turn_ok_def turn_calls_def stdio_demo_env_ok)
  have demo: "cur_tgid stdio_demo_env = 5" "arg_int stdio_demo_env 0 = 1"
    by (simp_all add: stdio_demo_env_def cur_tgid_def arg_int_def)
  have "se_pid e = 5 \<and> se_fd e = 1" if "printed_ok ?env (set ?early \<union> \<Union> (turn_calls ` set [?turn])) S e" for S e
    using that by (auto simp: printed_ok_def turn_calls_def demo)
  with stdio_main_prints_selected[OF env early turns refl refl, where ?w0.0 = stdio_demo_world]
  show ?thesis by fast
qed

section \<open>Exit status\<close>

text \<open>
  When the BPF object cannot be opened the error variable is still zero, so that the tool reports
  success; and with a session filter a signal that arrives before the first turn makes it report
  failure, since the number of processes found is still in that variable.
\<close>

lemma stdio_open_failure_status:
  "stdio_parse_args argv stdio_default_opts = Inr env \<Longrightarrow> \<not> sl_open su \<Longrightarrow> stdio_main su w0 argv early turns = Stdio_exit 0 None []"
  by (simp add: stdio_main_def stdio_status_def)

lemma stdio_early_signal_status:
  assumes "so_session_id env \<noteq> -1" "sl_alloc su" "sl_ring su = None" "sl_signal su"
    and "fst (stdio_scan w0 env (fold (run_stdio (stdio_rodata env)) early stdio_empty)) \<noteq> 0"
  shows "\<exists>st. stdio_attached su w0 env early [] = Stdio_exit 1 (Some st) []"
  using assms by (auto simp: stdio_attached_def stdio_status_def split: prod.split)

end
