(* ===== verification/Browser_Target.thy ===== *)
theory Browser_Target
  imports C_Output Pattern_Search
begin

text \<open>
  The browser that the browser tracer attaches to (the first half of \<open>bpf/browsertrace.c\<close>): from a path
  or wrapper script to the binary, the libraries it uses, and the probes. Strings are C strings without
  their NUL; a function that fills a buffer of \<open>n\<close> bytes and returns a flag gives the string in the
  buffer, or \<open>None\<close> for \<open>false\<close>. \<open>browser_host\<close> is what the file system and the commands answer.
\<close>

section \<open>The code: paths\<close>

definition BT_PATH_MAX :: nat where
  "BT_PATH_MAX = 4096"

record browser_host =
  bh_file :: "bytes \<Rightarrow> bytes option"
  bh_exec_ok :: "bytes \<Rightarrow> bool"
  bh_read_ok :: "bytes \<Rightarrow> bool"
  bh_realpath :: "bytes \<Rightarrow> bytes option"
  bh_readdir :: "bytes \<Rightarrow> bytes list option"
  bh_popen :: "bytes \<Rightarrow> bytes option"

definition copy_string :: "nat \<Rightarrow> bytes \<Rightarrow> bytes" where
  "copy_string dst_size src = take (dst_size - 1) src"

definition path_basename_ptr :: "bytes \<Rightarrow> bytes" where
  "path_basename_ptr path = (case after_last (CHR ''/'') path of Some b \<Rightarrow> b | None \<Rightarrow> path)"

definition path_has_basename :: "bytes \<Rightarrow> bytes \<Rightarrow> bool" where
  "path_has_basename path name \<longleftrightarrow> path_basename_ptr path = name"

definition target_is_chromium_family :: "bytes \<Rightarrow> bool" where
  "target_is_chromium_family path \<longleftrightarrow>
     path_has_basename path ''chrome'' \<or> path_has_basename path ''chromium'' \<or> path_has_basename path ''chromium-browser'' \<or>
     path_has_basename path ''google-chrome'' \<or> path_has_basename path ''google-chrome-stable''"

definition target_is_firefox :: "bytes \<Rightarrow> bool" where
  "target_is_firefox path \<longleftrightarrow> path_has_basename path ''firefox'' \<or> path_has_basename path ''firefox-bin''"

definition elf_magic :: bytes where
  "elf_magic = CHR 0x7F # ''ELF''"

definition file_is_elf :: "browser_host \<Rightarrow> bytes \<Rightarrow> bool" where
  "file_is_elf h path = (case bh_file h path of None \<Rightarrow> False | Some content \<Rightarrow> take 4 content = elf_magic)"

definition path_dirname_copy :: "bytes \<Rightarrow> nat \<Rightarrow> bytes option" where
  "path_dirname_copy path dir_size =
     (case after_last (CHR ''/'') path of
        None \<Rightarrow> Some (copy_string dir_size ''.'')
      | Some b \<Rightarrow>
          let len0 = length path - length b - 1; len = (if len0 = 0 then 1 else len0)
          in if dir_size \<le> len then None else Some (take len path))"

definition path_join :: "nat \<Rightarrow> bytes \<Rightarrow> bytes \<Rightarrow> bytes option" where
  "path_join out_size dir leaf = (let s = dir @ ''/'' @ leaf in if out_size \<le> length s then None else Some s)"

text \<open>The argument is the output of the command; \<open>None\<close> when it could not be run.\<close>

definition read_first_matching_line :: "bytes option \<Rightarrow> nat \<Rightarrow> bytes option" where
  "read_first_matching_line output out_size =
     (case output of
        None \<Rightarrow> None
      | Some s \<Rightarrow>
          if s = [] then None
          else let l = takeWhile (\<lambda>c. c \<noteq> CHR 0x0A) (c_str (fgets_line (out_size - 1) s)) in if l = [] then None else Some l)"

section \<open>The code: from a wrapper script to the binary\<close>

definition blank_or_tab :: "char \<Rightarrow> bool" where
  "blank_or_tab c \<longleftrightarrow> c = CHR '' '' \<or> c = CHR 0x09"

text \<open>What a line of the script does: \<open>None\<close> goes on to the next line, \<open>Some\<close> returns.\<close>

definition here_target :: "bytes \<Rightarrow> nat \<Rightarrow> bytes \<Rightarrow> bytes option" where
  "here_target dir resolved_size here =
     path_join resolved_size dir (take (BT_PATH_MAX - 1) (takeWhile (\<lambda>c. c \<noteq> CHR 0x22 \<and> \<not> is_space c) (drop 6 here)))"

definition exec_word :: "nat \<Rightarrow> bytes \<Rightarrow> bytes option option" where
  "exec_word resolved_size exec_pos =
     (case exec_pos of
        [] \<Rightarrow> None
      | c # rest \<Rightarrow>
          if c = CHR 0x22 \<or> c = CHR 0x27 then
            (if c \<in> set rest then Some (Some (copy_string resolved_size (takeWhile (\<lambda>x. x \<noteq> c) rest))) else None)
          else if c = CHR ''/'' then
            Some (Some (copy_string resolved_size (take (BT_PATH_MAX - 1) (takeWhile (\<lambda>x. \<not> is_space x) exec_pos))))
          else None)"

definition exec_target :: "nat \<Rightarrow> bytes \<Rightarrow> bytes option option" where
  "exec_target resolved_size exec_match =
     (let exec_pos = dropWhile blank_or_tab (drop 5 exec_match) in
      if strncmp_eq exec_pos ''-a '' then
        (let after = dropWhile (\<lambda>c. c \<noteq> CHR '' '') (drop 3 exec_pos) in
         if after = [] then None else exec_word resolved_size (dropWhile blank_or_tab (tl after)))
      else exec_word resolved_size exec_pos)"

definition script_line :: "bytes \<Rightarrow> nat \<Rightarrow> bytes \<Rightarrow> bytes option option" where
  "script_line dir resolved_size line =
     (case strstr line ''$HERE/'' of
        Some here \<Rightarrow> Some (here_target dir resolved_size here)
      | None \<Rightarrow> (case strstr line ''exec '' of None \<Rightarrow> None | Some e \<Rightarrow> exec_target resolved_size e))"

fun script_lines :: "bytes \<Rightarrow> nat \<Rightarrow> bytes list \<Rightarrow> bytes option" where
  "script_lines dir resolved_size [] = None"
| "script_lines dir resolved_size (l # ls) =
     (case script_line dir resolved_size (c_str l) of Some r \<Rightarrow> r | None \<Rightarrow> script_lines dir resolved_size ls)"

definition parse_exec_target_from_script :: "browser_host \<Rightarrow> bytes \<Rightarrow> nat \<Rightarrow> bytes option" where
  "parse_exec_target_from_script h script_path resolved_size =
     (case bh_file h script_path of
        None \<Rightarrow> None
      | Some content \<Rightarrow>
          (case path_dirname_copy script_path BT_PATH_MAX of
             None \<Rightarrow> None
           | Some dir \<Rightarrow> script_lines dir resolved_size (fgets_lines 1024 content)))"

definition snap_candidate :: "bytes \<Rightarrow> bytes" where
  "snap_candidate app_name = ''/snap/'' @ app_name @ ''/current/usr/lib/'' @ app_name @ ''/'' @ app_name"

definition snap_find_cmd :: "bytes \<Rightarrow> bytes" where
  "snap_find_cmd app_name = ''find /snap/'' @ app_name @ ''/current -type f -name '' @ [CHR 0x27] @ app_name @ [CHR 0x27] @ '' 2>/dev/null | head -n 1''"

definition find_snap_packaged_binary :: "browser_host \<Rightarrow> bytes \<Rightarrow> nat \<Rightarrow> bytes option" where
  "find_snap_packaged_binary h app_name resolved_size =
     (if length (snap_candidate app_name) < BT_PATH_MAX \<and> bh_exec_ok h (snap_candidate app_name)
      then Some (copy_string resolved_size (snap_candidate app_name))
      else if BT_PATH_MAX \<le> length (snap_find_cmd app_name) then None
      else read_first_matching_line (bh_popen h (snap_find_cmd app_name)) resolved_size)"

text \<open>The loop over \<open>depth\<close>; the first argument is the number of turns left.\<close>

fun resolve_loop :: "browser_host \<Rightarrow> nat \<Rightarrow> bytes \<Rightarrow> nat \<Rightarrow> bytes option" where
  "resolve_loop h 0 current resolved_size = None"
| "resolve_loop h (Suc d) current resolved_size =
     (if file_is_elf h current then Some (copy_string resolved_size current)
      else (case parse_exec_target_from_script h current BT_PATH_MAX of
          Some nxt \<Rightarrow> resolve_loop h d (copy_string BT_PATH_MAX nxt) resolved_size
        | None \<Rightarrow>
            (case (if strncmp_eq current ''/snap/bin/'' then find_snap_packaged_binary h (path_basename_ptr current) BT_PATH_MAX else None) of
               Some nxt \<Rightarrow> resolve_loop h d (copy_string BT_PATH_MAX nxt) resolved_size
             | None \<Rightarrow>
                 (case bh_realpath h current of
                    None \<Rightarrow> None
                  | Some real \<Rightarrow>
                      if path_basename_ptr real \<noteq> ''snap'' then
                        (if file_is_elf h real then Some (copy_string resolved_size real)
                         else resolve_loop h d (copy_string BT_PATH_MAX real) resolved_size)
                      else None))))"

definition resolve_target_binary :: "browser_host \<Rightarrow> bytes \<Rightarrow> nat \<Rightarrow> bytes option" where
  "resolve_target_binary h input_path resolved_size = resolve_loop h 4 (copy_string BT_PATH_MAX input_path) resolved_size"

section \<open>The code: libraries\<close>

fun dir_entries :: "browser_host \<Rightarrow> bytes \<Rightarrow> bytes \<Rightarrow> nat \<Rightarrow> bytes list \<Rightarrow> bytes option" where
  "dir_entries h dir lib_prefix out_size [] = None"
| "dir_entries h dir lib_prefix out_size (d_name # ds) =
     (if \<not> strncmp_eq d_name lib_prefix then dir_entries h dir lib_prefix out_size ds
      else (case path_join BT_PATH_MAX dir d_name of
          None \<Rightarrow> dir_entries h dir lib_prefix out_size ds
        | Some candidate \<Rightarrow>
            if bh_read_ok h candidate then Some (copy_string out_size candidate) else dir_entries h dir lib_prefix out_size ds))"

definition find_library_in_dir :: "browser_host \<Rightarrow> bytes \<Rightarrow> bytes \<Rightarrow> nat \<Rightarrow> bytes option" where
  "find_library_in_dir h binary_path lib_prefix out_size =
     (case path_dirname_copy binary_path BT_PATH_MAX of
        None \<Rightarrow> None
      | Some dir \<Rightarrow> (case bh_readdir h dir of None \<Rightarrow> None | Some entries \<Rightarrow> dir_entries h dir lib_prefix out_size entries))"

definition ldd_line :: "bytes \<Rightarrow> nat \<Rightarrow> bytes \<Rightarrow> bytes option" where
  "ldd_line lib_prefix out_size line =
     (case strstr line lib_prefix of
        None \<Rightarrow> None
      | Some _ \<Rightarrow>
          (case strstr line ''=>'' of
             None \<Rightarrow> None
           | Some arrow \<Rightarrow>
               let path = dropWhile blank_or_tab (drop 2 arrow) in
               if strncmp_eq path ''not found'' then None
               else Some (copy_string out_size (takeWhile (\<lambda>c. \<not> is_space c) path))))"

fun ldd_lines :: "bytes \<Rightarrow> nat \<Rightarrow> bytes list \<Rightarrow> bytes option" where
  "ldd_lines lib_prefix out_size [] = None"
| "ldd_lines lib_prefix out_size (l # ls) =
     (case ldd_line lib_prefix out_size (c_str l) of Some path \<Rightarrow> Some path | None \<Rightarrow> ldd_lines lib_prefix out_size ls)"

definition find_linked_library :: "browser_host \<Rightarrow> bytes \<Rightarrow> bytes \<Rightarrow> nat \<Rightarrow> bytes option" where
  "find_linked_library h binary_path lib_prefix out_size =
     (let cmd = ''ldd '' @ [CHR 0x27] @ binary_path @ [CHR 0x27] @ '' 2>/dev/null'' in
      if BT_PATH_MAX + 64 \<le> length cmd then None
      else (case bh_popen h cmd of None \<Rightarrow> None | Some output \<Rightarrow> ldd_lines lib_prefix out_size (fgets_lines (BT_PATH_MAX * 2) output)))"

record linked_tls_libraries =
  lib_nspr :: bytes
  lib_nss_ssl3 :: bytes

definition detect_library :: "browser_host \<Rightarrow> bytes \<Rightarrow> bytes \<Rightarrow> bytes" where
  "detect_library h binary_path lib =
     (let in_dir = (case find_library_in_dir h binary_path lib BT_PATH_MAX of Some p \<Rightarrow> p | None \<Rightarrow> []) in
      if in_dir \<noteq> [] then in_dir
      else (case find_linked_library h binary_path lib BT_PATH_MAX of Some p \<Rightarrow> p | None \<Rightarrow> []))"

definition detect_linked_tls_libraries :: "browser_host \<Rightarrow> bytes \<Rightarrow> linked_tls_libraries" where
  "detect_linked_tls_libraries h binary_path =
     \<lparr>lib_nspr = detect_library h binary_path ''libnspr4.so'', lib_nss_ssl3 = detect_library h binary_path ''libssl3.so''\<rparr>"

section \<open>The code: attaching\<close>

datatype browser_program =
    P_nss_import_fd_enter | P_nss_import_fd_exit | P_nss_close_enter | P_nss_rw_enter | P_nss_write_exit | P_nss_read_exit
  | P_chrome_request_1 | P_chrome_request_2 | P_chrome_request_3 | P_chrome_response

datatype browser_site = Symbol bytes bool | At_offset nat

text \<open>
  A link is described by what it was attached to. The skeleton has a field for each of its programs, and
  the programs that are attached several times have their links in the array of extra links.
\<close>

type_synonym bt_link = "browser_program \<times> bytes \<times> browser_site"

record browser_links =
  extra_links :: "bt_link option list"
  skel_links :: "browser_program \<rightharpoonup> bt_link"

definition BROWSER_EXTRA_LINK_CAP :: nat where
  "BROWSER_EXTRA_LINK_CAP = 16"

definition no_links :: browser_links where
  "no_links = \<lparr>extra_links = replicate BROWSER_EXTRA_LINK_CAP None, skel_links = Map.empty\<rparr>"

type_synonym bt_attach_fn = "bt_link \<Rightarrow> int"

definition destroy_extra_links :: "browser_links \<Rightarrow> browser_links" where
  "destroy_extra_links ls = ls\<lparr>extra_links := map (\<lambda>_. None) (extra_links ls)\<rparr>"

definition destroy_browser_links :: "browser_links \<Rightarrow> browser_links" where
  "destroy_browser_links ls =
     (let ls1 = destroy_extra_links ls in
      ls1\<lparr>skel_links := (skel_links ls1)(P_nss_import_fd_enter := None, P_nss_import_fd_exit := None, P_nss_close_enter := None,
        P_chrome_request_1 := None, P_chrome_request_2 := None, P_chrome_request_3 := None, P_chrome_response := None)\<rparr>)"

definition ENOSPC :: int where
  "ENOSPC = 28"

definition BT_ENOENT :: int where
  "BT_ENOENT = 2"

definition EINVAL :: int where
  "EINVAL = 22"

fun remember_in :: "bt_link \<Rightarrow> bt_link option list \<Rightarrow> bt_link option list option" where
  "remember_in l [] = None"
| "remember_in l (None # xs) = Some (Some l # xs)"
| "remember_in l (Some x # xs) = map_option ((#) (Some x)) (remember_in l xs)"

definition remember_extra_link :: "bt_link \<Rightarrow> browser_links \<Rightarrow> int \<times> browser_links" where
  "remember_extra_link l ls =
     (case remember_in l (extra_links ls) of None \<Rightarrow> (- ENOSPC, ls) | Some xs \<Rightarrow> (0, ls\<lparr>extra_links := xs\<rparr>))"

definition attach_symbol_program ::
  "bt_attach_fn \<Rightarrow> browser_program \<Rightarrow> bytes \<Rightarrow> bytes \<Rightarrow> bool \<Rightarrow> browser_links \<Rightarrow> int \<times> browser_links" where
  "attach_symbol_program attach prog binary_path symbol retprobe ls =
     (let l = (prog, binary_path, Symbol symbol retprobe); err = attach l in
      if err \<noteq> 0 then (err, ls) else (0, ls\<lparr>skel_links := (skel_links ls)(prog \<mapsto> l)\<rparr>))"

definition attach_symbol_program_extra ::
  "bt_attach_fn \<Rightarrow> browser_program \<Rightarrow> bytes \<Rightarrow> bytes \<Rightarrow> bool \<Rightarrow> browser_links \<Rightarrow> int \<times> browser_links" where
  "attach_symbol_program_extra attach prog binary_path symbol retprobe ls =
     (let l = (prog, binary_path, Symbol symbol retprobe); err = attach l in
      if err \<noteq> 0 then (err, ls) else remember_extra_link l ls)"

definition attach_offset_program ::
  "bt_attach_fn \<Rightarrow> browser_program \<Rightarrow> bytes \<Rightarrow> nat \<Rightarrow> browser_links \<Rightarrow> int \<times> browser_links" where
  "attach_offset_program attach prog binary_path off ls =
     (let l = (prog, binary_path, At_offset off); err = attach l in
      if err \<noteq> 0 then (err, ls) else (0, ls\<lparr>skel_links := (skel_links ls)(prog \<mapsto> l)\<rparr>))"

text \<open>A sequence of attachments with \<open>if (err) goto error\<close> after each; at \<open>error\<close> all links are destroyed.\<close>

fun attach_all :: "(browser_links \<Rightarrow> int \<times> browser_links) list \<Rightarrow> browser_links \<Rightarrow> int \<times> browser_links" where
  "attach_all [] ls = (0, ls)"
| "attach_all (f # fs) ls =
     (case f ls of (err, ls') \<Rightarrow> if err \<noteq> 0 then (err, destroy_browser_links ls') else attach_all fs ls')"

definition bt_attach_nss :: "bt_attach_fn \<Rightarrow> bytes \<Rightarrow> bytes \<Rightarrow> browser_links \<Rightarrow> int \<times> browser_links" where
  "bt_attach_nss attach nspr_lib nss_ssl3_lib ls =
     (if nspr_lib = [] then (- BT_ENOENT, ls)
      else if nss_ssl3_lib \<noteq> [] then
        attach_all
          [attach_symbol_program attach P_nss_import_fd_enter nss_ssl3_lib ''SSL_ImportFD'' False,
           attach_symbol_program attach P_nss_import_fd_exit nss_ssl3_lib ''SSL_ImportFD'' True,
           attach_symbol_program_extra attach P_nss_rw_enter nspr_lib ''PR_Write'' False,
           attach_symbol_program_extra attach P_nss_write_exit nspr_lib ''PR_Write'' True,
           attach_symbol_program_extra attach P_nss_rw_enter nspr_lib ''PR_Send'' False,
           attach_symbol_program_extra attach P_nss_write_exit nspr_lib ''PR_Send'' True,
           attach_symbol_program_extra attach P_nss_rw_enter nspr_lib ''PR_Read'' False,
           attach_symbol_program_extra attach P_nss_read_exit nspr_lib ''PR_Read'' True,
           attach_symbol_program_extra attach P_nss_rw_enter nspr_lib ''PR_Recv'' False,
           attach_symbol_program_extra attach P_nss_read_exit nspr_lib ''PR_Recv'' True,
           attach_symbol_program attach P_nss_close_enter nspr_lib ''PR_Close'' False] ls
      else (- BT_ENOENT, ls))"

text \<open>An offset that was not found is \<open>(size_t)-1\<close>.\<close>

definition size_t_offset :: "nat option \<Rightarrow> nat" where
  "size_t_offset r = (case r of Some i \<Rightarrow> i | None \<Rightarrow> 2 ^ 64 - 1)"

definition attach_chrome_plaintext :: "bt_attach_fn \<Rightarrow> bytes \<Rightarrow> chrome_plaintext_offsets \<Rightarrow> browser_links \<Rightarrow> int \<times> browser_links" where
  "attach_chrome_plaintext attach binary_path offsets =
     attach_all
       [attach_offset_program attach P_chrome_request_1 binary_path (size_t_offset (request_copy_1 offsets)),
        attach_offset_program attach P_chrome_request_2 binary_path (size_t_offset (request_copy_2 offsets)),
        attach_offset_program attach P_chrome_request_3 binary_path (size_t_offset (request_copy_3 offsets)),
        attach_offset_program attach P_chrome_response binary_path (size_t_offset (response_copy offsets))]"

definition attach_browser_target ::
  "browser_host \<Rightarrow> bt_attach_fn \<Rightarrow> bytes \<Rightarrow> linked_tls_libraries \<Rightarrow> browser_links \<Rightarrow> (int \<times> browser_links) option" where
  "attach_browser_target h attach attach_target libs ls =
     (if target_is_chromium_family attach_target then
        do { offsets \<leftarrow> find_chrome_plaintext_offsets (bh_file h attach_target);
             Some (if \<not> chrome_found offsets then (- BT_ENOENT, ls) else attach_chrome_plaintext attach attach_target offsets ls) }
      else if target_is_firefox attach_target then
        Some (if lib_nspr libs = [] \<or> lib_nss_ssl3 libs = [] then (- BT_ENOENT, ls)
              else bt_attach_nss attach (lib_nspr libs) (lib_nss_ssl3 libs) ls)
      else Some (- EINVAL, ls))"

section \<open>Attaching is all or nothing\<close>

text \<open>The links that exist in the kernel.\<close>

definition live :: "browser_links \<Rightarrow> bt_link set" where
  "live ls = set (concat (map (\<lambda>x. case x of Some l \<Rightarrow> [l] | None \<Rightarrow> []) (extra_links ls))) \<union> ran (skel_links ls)"

definition nss_probes :: "linked_tls_libraries \<Rightarrow> bt_link list" where
  "nss_probes libs =
     [(P_nss_close_enter, lib_nspr libs, Symbol ''PR_Close'' False),
      (P_nss_import_fd_exit, lib_nss_ssl3 libs, Symbol ''SSL_ImportFD'' True), (P_nss_import_fd_enter, lib_nss_ssl3 libs, Symbol ''SSL_ImportFD'' False),
      (P_nss_rw_enter, lib_nspr libs, Symbol ''PR_Write'' False), (P_nss_write_exit, lib_nspr libs, Symbol ''PR_Write'' True),
      (P_nss_rw_enter, lib_nspr libs, Symbol ''PR_Send'' False), (P_nss_write_exit, lib_nspr libs, Symbol ''PR_Send'' True),
      (P_nss_rw_enter, lib_nspr libs, Symbol ''PR_Read'' False), (P_nss_read_exit, lib_nspr libs, Symbol ''PR_Read'' True),
      (P_nss_rw_enter, lib_nspr libs, Symbol ''PR_Recv'' False), (P_nss_read_exit, lib_nspr libs, Symbol ''PR_Recv'' True)]"

text \<open>The call instructions inside the four copy sequences of a Chrome binary.\<close>

definition chrome_probes :: "bytes \<Rightarrow> bytes \<Rightarrow> bt_link list \<Rightarrow> bool" where
  "chrome_probes path data ls \<longleftrightarrow>
     (\<exists>i1 i2 i3 i4. masked_at request_copy_1_pat request_copy_1_mask data i1 \<and> masked_at request_copy_2_pat request_copy_2_mask data i2 \<and>
        masked_at request_copy_3_pat request_copy_3_mask data i3 \<and> masked_at response_copy_pat response_copy_mask data i4 \<and>
        ls = [(P_chrome_response, path, At_offset (i4 + 14)), (P_chrome_request_3, path, At_offset (i3 + 9)),
              (P_chrome_request_2, path, At_offset (i2 + 9)), (P_chrome_request_1, path, At_offset (i1 + 9))])"

lemma live_destroy: "dom (skel_links ls) \<subseteq> {P_nss_import_fd_enter, P_nss_import_fd_exit, P_nss_close_enter, P_chrome_request_1, P_chrome_request_2,
    P_chrome_request_3, P_chrome_response} \<Longrightarrow> live (destroy_browser_links ls) = {}"
  by (auto simp: live_def destroy_browser_links_def destroy_extra_links_def Let_def ran_def dom_def subset_iff split: if_splits)

lemma attach_nss_complete:
  assumes "lib_nspr libs \<noteq> []" "lib_nss_ssl3 libs \<noteq> []"
  shows "\<exists>err ls. bt_attach_nss attach (lib_nspr libs) (lib_nss_ssl3 libs) no_links = (err, ls) \<and>
    (if err = 0 then live ls = set (nss_probes libs) \<and> list_all (\<lambda>l. attach l = 0) (nss_probes libs) else live ls = {})"
proof -
  have rep: "replicate BROWSER_EXTRA_LINK_CAP (None :: bt_link option) = [None, None, None, None, None, None, None, None, None, None, None, None, None, None, None, None]"
    by (simp add: BROWSER_EXTRA_LINK_CAP_def numeral_eq_Suc)
  show ?thesis
    by (simp add: assms bt_attach_nss_def no_links_def rep attach_symbol_program_def attach_symbol_program_extra_def
        remember_extra_link_def Let_def live_destroy) (simp add: live_def nss_probes_def)
qed


lemma chrome_offsets_safe:
  "\<exists>res. find_chrome_plaintext_offsets f = Some res \<and> (chrome_found res \<longrightarrow> (\<exists>data i1 i2 i3 i4. f = Some data \<and>
     masked_at request_copy_1_pat request_copy_1_mask data i1 \<and> masked_at request_copy_2_pat request_copy_2_mask data i2 \<and>
     masked_at request_copy_3_pat request_copy_3_mask data i3 \<and> masked_at response_copy_pat response_copy_mask data i4 \<and>
     request_copy_1 res = Some (i1 + 9) \<and> request_copy_2 res = Some (i2 + 9) \<and> request_copy_3 res = Some (i3 + 9) \<and> response_copy res = Some (i4 + 14)))"
proof (cases f)
  case (Some data)
  obtain r1 r2 r3 r4 where r:
    "find_masked_pattern data request_copy_1_pat request_copy_1_mask = Some r1"
    "find_masked_pattern data request_copy_2_pat request_copy_2_mask = Some r2"
    "find_masked_pattern data request_copy_3_pat request_copy_3_mask = Some r3"
    "find_masked_pattern data response_copy_pat response_copy_mask = Some r4"
    using req1.search_safe req2.search_safe req3.search_safe resp.search_safe by blast
  with req1.search_Some[of data] req2.search_Some[of data] req3.search_Some[of data] resp.search_Some[of data] Some
  show ?thesis by (auto simp: find_chrome_plaintext_offsets_def)
qed (simp add: find_chrome_plaintext_offsets_def)

lemma attach_chrome_complete:
  "\<exists>err ls. attach_chrome_plaintext attach path \<lparr>request_copy_1 = Some i1, request_copy_2 = Some i2, request_copy_3 = Some i3, response_copy = Some i4, chrome_found = True\<rparr> no_links = (err, ls) \<and>
    (let ps = [(P_chrome_response, path, At_offset i4), (P_chrome_request_3, path, At_offset i3), (P_chrome_request_2, path, At_offset i2), (P_chrome_request_1, path, At_offset i1)] in
     if err = 0 then live ls = set ps \<and> list_all (\<lambda>l. attach l = 0) ps else live ls = {})"
  by (simp add: attach_chrome_plaintext_def no_links_def attach_offset_program_def size_t_offset_def Let_def live_destroy) (simp add: live_def)

definition complete_browser_probes :: "browser_host \<Rightarrow> bytes \<Rightarrow> linked_tls_libraries \<Rightarrow> bt_link list \<Rightarrow> bool" where
  "complete_browser_probes h path libs ps \<longleftrightarrow>
     (target_is_chromium_family path \<and> (\<exists>data. bh_file h path = Some data \<and> chrome_probes path data ps)) \<or>
     (target_is_firefox path \<and> lib_nspr libs \<noteq> [] \<and> lib_nss_ssl3 libs \<noteq> [] \<and> ps = nss_probes libs)"

lemma attach_browser_target_all:
  "\<exists>err ls. attach_browser_target h attach path libs no_links = Some (err, ls) \<and>
     (if err = 0 then \<exists>ps. complete_browser_probes h path libs ps \<and> live ls = set ps \<and> list_all (\<lambda>l. attach l = 0) ps else live ls = {})"
proof -
  have none: "live no_links = {}" by (simp add: live_def no_links_def BROWSER_EXTRA_LINK_CAP_def)
  obtain res where res: "find_chrome_plaintext_offsets (bh_file h path) = Some res"
    "chrome_found res \<longrightarrow> (\<exists>data i1 i2 i3 i4. bh_file h path = Some data \<and>
     masked_at request_copy_1_pat request_copy_1_mask data i1 \<and> masked_at request_copy_2_pat request_copy_2_mask data i2 \<and>
     masked_at request_copy_3_pat request_copy_3_mask data i3 \<and> masked_at response_copy_pat response_copy_mask data i4 \<and>
     request_copy_1 res = Some (i1 + 9) \<and> request_copy_2 res = Some (i2 + 9) \<and> request_copy_3 res = Some (i3 + 9) \<and> response_copy res = Some (i4 + 14))"
    using chrome_offsets_safe by blast
  consider (chrome) "target_is_chromium_family path" "chrome_found res"
    | (nss) "\<not> target_is_chromium_family path" "target_is_firefox path" "lib_nspr libs \<noteq> []" "lib_nss_ssl3 libs \<noteq> []"
    | (err) "attach_browser_target h attach path libs no_links \<in> {Some (- 2, no_links), Some (- 22, no_links)}"
  proof (cases "target_is_chromium_family path \<and> chrome_found res \<or>
      \<not> target_is_chromium_family path \<and> target_is_firefox path \<and> lib_nspr libs \<noteq> [] \<and> lib_nss_ssl3 libs \<noteq> []")
    case False
    then have "attach_browser_target h attach path libs no_links \<in> {Some (- 2, no_links), Some (- 22, no_links)}"
      using res(1) by (auto simp: attach_browser_target_def BT_ENOENT_def EINVAL_def)
    then show thesis by (rule err)
  qed (use chrome nss in blast)
  then show ?thesis
  proof cases
    case chrome
    then obtain data i1 i2 i3 i4 where d: "bh_file h path = Some data"
     "masked_at request_copy_1_pat request_copy_1_mask data i1" "masked_at request_copy_2_pat request_copy_2_mask data i2"
     "masked_at request_copy_3_pat request_copy_3_mask data i3" "masked_at response_copy_pat response_copy_mask data i4"
     and r: "res = \<lparr>request_copy_1 = Some (i1 + 9), request_copy_2 = Some (i2 + 9), request_copy_3 = Some (i3 + 9), response_copy = Some (i4 + 14), chrome_found = True\<rparr>"
      using res(2) by auto
    obtain ps where ps: "ps = [(P_chrome_response, path, At_offset (i4 + 14)), (P_chrome_request_3, path, At_offset (i3 + 9)),
        (P_chrome_request_2, path, At_offset (i2 + 9)), (P_chrome_request_1, path, At_offset (i1 + 9))]" by blast
    have "complete_browser_probes h path libs ps"
      unfolding complete_browser_probes_def chrome_probes_def ps using d chrome(1) by blast
    then show ?thesis
      using chrome res(1) r attach_chrome_complete[of attach path "i1 + 9" "i2 + 9" "i3 + 9" "i4 + 14", unfolded Let_def, folded ps]
      unfolding attach_browser_target_def by (auto split: if_splits)
  next
    case nss
    then show ?thesis
      using attach_nss_complete[of libs attach] by (auto simp: attach_browser_target_def complete_browser_probes_def split: if_splits)
  next
    case err
    have *: "?thesis" if "attach_browser_target h attach path libs no_links = Some (e, no_links)" "e \<noteq> 0" for e
      unfolding that(1) using that(2) none by (intro exI[of _ e] exI[of _ no_links]) simp
    from err consider "attach_browser_target h attach path libs no_links = Some (- 2, no_links)"
      | "attach_browser_target h attach path libs no_links = Some (- 22, no_links)" by blast
    then show ?thesis by cases (rule *, assumption, simp)+
  qed
qed

definition skel_programs :: "browser_program set" where
  "skel_programs = {P_nss_import_fd_enter, P_nss_import_fd_exit, P_nss_close_enter, P_chrome_request_1, P_chrome_request_2,
     P_chrome_request_3, P_chrome_response}"

lemma attach_all_keeps:
  assumes "\<forall>f\<in>set fs. \<forall>ls. P ls \<longrightarrow> P (snd (f ls))" "\<And>ls. P ls \<Longrightarrow> P (destroy_browser_links ls)" "P ls"
  shows "P (snd (attach_all fs ls))"
  using assms(1,3)
proof (induction fs arbitrary: ls)
  case (Cons f fs)
  obtain err ls' where f: "f ls = (err, ls')" by fastforce
  with Cons.prems have "P ls'" by force
  with Cons.IH[of ls'] Cons.prems f assms(2) show ?case by simp
qed simp

definition skel_ok :: "browser_links \<Rightarrow> bool" where
  "skel_ok ls \<longleftrightarrow> dom (skel_links ls) \<subseteq> skel_programs"

lemma skel_ok_steps:
  "skel_ok ls \<Longrightarrow> prog \<in> skel_programs \<Longrightarrow> skel_ok (snd (attach_symbol_program attach prog lib f ret ls))"
  "skel_ok ls \<Longrightarrow> prog \<in> skel_programs \<Longrightarrow> skel_ok (snd (attach_offset_program attach prog lib off ls))"
  "skel_ok ls \<Longrightarrow> skel_ok (snd (attach_symbol_program_extra attach prog lib f ret ls))"
  "skel_ok ls \<Longrightarrow> skel_ok (destroy_browser_links ls)" "skel_ok no_links"
  by (auto simp: skel_ok_def attach_symbol_program_def attach_offset_program_def attach_symbol_program_extra_def remember_extra_link_def
      destroy_browser_links_def destroy_extra_links_def no_links_def Let_def split: if_splits option.splits)

lemma skel_ok_attach:
  "skel_ok (snd (attach_chrome_plaintext attach path offs no_links))" "skel_ok (snd (bt_attach_nss attach a b no_links))"
proof -
  have progs: "P_nss_import_fd_enter \<in> skel_programs" "P_nss_import_fd_exit \<in> skel_programs" "P_nss_close_enter \<in> skel_programs"
    "P_chrome_request_1 \<in> skel_programs" "P_chrome_request_2 \<in> skel_programs" "P_chrome_request_3 \<in> skel_programs"
    "P_chrome_response \<in> skel_programs"
    by (simp_all add: skel_programs_def)
  show "skel_ok (snd (attach_chrome_plaintext attach path offs no_links))"
    unfolding attach_chrome_plaintext_def by (rule attach_all_keeps) (simp_all add: skel_ok_steps progs)
  have "skel_ok (snd (attach_all
      [attach_symbol_program attach P_nss_import_fd_enter b ''SSL_ImportFD'' False,
       attach_symbol_program attach P_nss_import_fd_exit b ''SSL_ImportFD'' True,
       attach_symbol_program_extra attach P_nss_rw_enter a ''PR_Write'' False,
       attach_symbol_program_extra attach P_nss_write_exit a ''PR_Write'' True,
       attach_symbol_program_extra attach P_nss_rw_enter a ''PR_Send'' False,
       attach_symbol_program_extra attach P_nss_write_exit a ''PR_Send'' True,
       attach_symbol_program_extra attach P_nss_rw_enter a ''PR_Read'' False,
       attach_symbol_program_extra attach P_nss_read_exit a ''PR_Read'' True,
       attach_symbol_program_extra attach P_nss_rw_enter a ''PR_Recv'' False,
       attach_symbol_program_extra attach P_nss_read_exit a ''PR_Recv'' True,
       attach_symbol_program attach P_nss_close_enter a ''PR_Close'' False] no_links))"
    by (rule attach_all_keeps) (simp_all add: skel_ok_steps progs)
  then show "skel_ok (snd (bt_attach_nss attach a b no_links))"
    unfolding bt_attach_nss_def by (simp only: skel_ok_steps snd_conv if_cancel split: if_split) simp
qed

lemma attach_browser_target_skel:
  assumes "attach_browser_target h attach path libs no_links = Some (err, ls)"
  shows "live (destroy_browser_links ls) = {}"
proof -
  have "skel_ok ls"
    using assms skel_ok_steps(5)
    by (auto simp: attach_browser_target_def bind_eq_Some_conv split: if_splits) (metis skel_ok_attach snd_conv)+
  then show ?thesis by (intro live_destroy) (simp add: skel_ok_def skel_programs_def)
qed

text \<open>
  C21: Attaching to a browser is all or nothing. It never reads outside the binary it searches; it succeeds
  only when every probe of the browser's complete set is attached (the import, close and eight read and
  write probes of Firefox's libraries, or the four copy points found in Chrome's code), and when one of
  them fails no probe stays behind.
\<close>

theorem browser_attach_all_or_nothing:
  "\<exists>err ls. attach_browser_target h attach path libs no_links = Some (err, ls) \<and>
     (if err = 0 then \<exists>ps. complete_browser_probes h path libs ps \<and> live ls = set ps \<and> list_all (\<lambda>l. attach l = 0) ps else live ls = {})"
  by (rule attach_browser_target_all)

section \<open>Resolving the target\<close>

lemma copy_string_id: "length s < n \<Longrightarrow> copy_string n s = s"
  by (simp add: copy_string_def)

lemma length_copy_string: "0 < n \<Longrightarrow> length (copy_string n s) < n"
  by (cases n) (simp_all add: copy_string_def less_Suc_eq_le)

lemma BT_PATH_MAX_pos [simp]: "0 < BT_PATH_MAX"
  by (simp add: BT_PATH_MAX_def)

lemma resolve_loop_elf:
  assumes "\<forall>p r. bh_realpath h p = Some r \<longrightarrow> length r < BT_PATH_MAX" "resolve_loop h d current BT_PATH_MAX = Some b" "length current < BT_PATH_MAX"
  shows "file_is_elf h b \<and> length b < BT_PATH_MAX"
  using assms(2,3)
proof (induction d arbitrary: current)
  case (Suc d)
  have IH: "resolve_loop h d (copy_string BT_PATH_MAX nxt) BT_PATH_MAX = Some b \<Longrightarrow> ?case"
    "resolve_loop h d nxt BT_PATH_MAX = Some b \<Longrightarrow> length nxt < BT_PATH_MAX \<Longrightarrow> ?case" for nxt
    using Suc.IH length_copy_string by simp_all
  show ?case
    using Suc.prems assms(1) IH by (auto simp: copy_string_id split: if_splits option.splits)
qed simp

text \<open>
  What the target resolves to is always an ELF file, and its path fits the buffer, however scripts,
  Snap packages and links refer to each other, cyclic references included.
\<close>

theorem resolve_target_binary_elf:
  assumes "\<forall>p r. bh_realpath h p = Some r \<longrightarrow> length r < BT_PATH_MAX" "resolve_target_binary h path BT_PATH_MAX = Some b"
  shows "file_is_elf h b \<and> length b < BT_PATH_MAX"
  using resolve_loop_elf[OF assms(1)] assms(2) length_copy_string by (simp add: resolve_target_binary_def)

text \<open>The lines of a wrapper script that name the target, in a script that is in \<open>dir\<close>.\<close>

definition exec_token :: "bytes \<Rightarrow> bytes \<Rightarrow> bool" where
  "exec_token target tok \<longleftrightarrow>
     (\<exists>q rest. (q = CHR 0x22 \<or> q = CHR 0x27) \<and> q \<notin> set target \<and> tok = q # target @ q # rest) \<or>
     (\<exists>c rest. hd target = CHR ''/'' \<and> target \<noteq> [] \<and> list_all (\<lambda>x. \<not> is_space x) target \<and> is_space c \<and> tok = target @ c # rest)"

definition exec_options :: "bytes \<Rightarrow> bool" where
  "exec_options as \<longleftrightarrow>
     as = [] \<or> (\<exists>name sp. as = ''-a '' @ name @ '' '' @ sp \<and> CHR '' '' \<notin> set name \<and> list_all blank_or_tab sp)"

definition names_target :: "bytes \<Rightarrow> bytes \<Rightarrow> bytes \<Rightarrow> bool" where
  "names_target dir line target \<longleftrightarrow>
     (case strstr line ''$HERE/'' of
        Some here \<Rightarrow>
          \<exists>leaf c rest. here = ''$HERE/'' @ leaf @ c # rest \<and> target = dir @ ''/'' @ leaf \<and> (c = CHR 0x22 \<or> c = CHR '' '') \<and>
            list_all (\<lambda>x. x \<noteq> CHR 0x22 \<and> \<not> is_space x) leaf
      | None \<Rightarrow>
          \<exists>sp as tok. strstr line ''exec '' = Some (''exec '' @ sp @ as @ tok) \<and> list_all blank_or_tab sp \<and> exec_options as \<and> exec_token target tok)"

lemma dropWhile_blanks: "list_all blank_or_tab sp \<Longrightarrow> dropWhile blank_or_tab (sp @ s) = dropWhile blank_or_tab s"
  by (induction sp) simp_all

lemma takeWhile_token: "list_all P t \<Longrightarrow> \<not> P c \<Longrightarrow> takeWhile P (t @ c # rest) = t"
  by (induction t) simp_all

lemma exec_word_tok:
  assumes "length target < BT_PATH_MAX" "exec_token target tok"
  shows "exec_word BT_PATH_MAX tok = Some (Some target) \<and> tok \<noteq> [] \<and> \<not> blank_or_tab (hd tok) \<and> \<not> strncmp_eq tok ''-a ''"
  using assms(2) unfolding exec_token_def
proof
  assume "\<exists>q rest. (q = CHR 0x22 \<or> q = CHR 0x27) \<and> q \<notin> set target \<and> tok = q # target @ q # rest"
  then obtain q rest where q: "q = CHR 0x22 \<or> q = CHR 0x27" "q \<notin> set target" "tok = q # target @ q # rest" by blast
  have "takeWhile (\<lambda>x. x \<noteq> q) (target @ q # rest) = target" using q(2) by (intro takeWhile_token) (auto simp: list_all_iff)
  then show ?thesis using q assms(1) by (auto simp: exec_word_def copy_string_id blank_or_tab_def strncmp_eq_def)
next
  assume "\<exists>c rest. hd target = CHR ''/'' \<and> target \<noteq> [] \<and> list_all (\<lambda>x. \<not> is_space x) target \<and> is_space c \<and> tok = target @ c # rest"
  then obtain c rest where t: "hd target = CHR ''/''" "target \<noteq> []" "list_all (\<lambda>x. \<not> is_space x) target" "is_space c" "tok = target @ c # rest" by blast
  then obtain t' where t': "target = CHR ''/'' # t'" by (cases target) auto
  have "takeWhile (\<lambda>x. \<not> is_space x) tok = target" unfolding t(5) using t(3,4) by (intro takeWhile_token) simp_all
  then show ?thesis using assms(1) t(5) unfolding t' by (auto simp: exec_word_def copy_string_def blank_or_tab_def strncmp_eq_def)
qed

lemma exec_target_tok:
  assumes "list_all blank_or_tab sp" "exec_options as" "exec_token target tok" "length target < BT_PATH_MAX"
  shows "exec_target BT_PATH_MAX (''exec '' @ sp @ as @ tok) = Some (Some target)"
proof -
  note w = exec_word_tok[OF assms(4,3)]
  then have tok: "dropWhile blank_or_tab tok = tok" by (cases tok) simp_all
  show ?thesis
  proof (cases "as = []")
    case True
    then show ?thesis using assms(1) w tok by (simp add: exec_target_def dropWhile_blanks Let_def)
  next
    case False
    then obtain name sp' where a: "as = ''-a '' @ name @ '' '' @ sp'" "CHR '' '' \<notin> set name" "list_all blank_or_tab sp'"
      using assms(2) by (auto simp: exec_options_def)
    have "dropWhile (\<lambda>c. c \<noteq> CHR '' '') (name @ CHR '' '' # sp' @ tok) = CHR '' '' # sp' @ tok"
      using a(2) by (subst dropWhile_append2) auto
    then show ?thesis
      using assms(1) w tok a by (simp add: exec_target_def dropWhile_blanks Let_def blank_or_tab_def strncmp_eq_def)
  qed
qed

lemma script_line_names:
  assumes "names_target dir line target" "length target < BT_PATH_MAX"
  shows "script_line dir BT_PATH_MAX line = Some (Some target)"
proof (cases "strstr line ''$HERE/''")
  case (Some here)
  then obtain leaf c rest where h: "here = ''$HERE/'' @ leaf @ c # rest" "target = dir @ ''/'' @ leaf"
    "list_all (\<lambda>x. x \<noteq> CHR 0x22 \<and> \<not> is_space x) leaf" and c: "c = CHR 0x22 \<or> c = CHR '' ''"
    using assms(1) by (auto simp: names_target_def)
  have "takeWhile (\<lambda>x. x \<noteq> CHR 0x22 \<and> \<not> is_space x) (leaf @ c # rest) = leaf"
    using c h(3) by (intro takeWhile_token) (auto simp: is_space_def)
  then show ?thesis using Some h assms(2) by (simp add: script_line_def here_target_def path_join_def)
next
  case None
  then show ?thesis using assms(1) exec_target_tok[OF _ _ _ assms(2)] by (auto simp: names_target_def script_line_def)
qed

lemma script_lines_skip:
  assumes "\<forall>l\<in>set before. script_line dir n (c_str l) = None" "script_line dir n (c_str l) = Some r"
  shows "script_lines dir n (before @ l # rest) = r"
  using assms by (induction before) simp_all

text \<open>
  C22: A wrapper script resolves to the binary it starts. The first line that mentions \<open>$HERE/\<close> or
  \<open>exec\<close> decides: \<open>$HERE/name\<close> is the file of that name next to the script, and \<open>exec\<close>, with or
  without \<open>-a name\<close>, is followed by a quoted path or a bare absolute one.
\<close>

theorem wrapper_script_resolved:
  assumes "bh_file h script = Some (concat (map (\<lambda>l. l @ [CHR 0x0A]) (before @ line # after)))" "\<not> file_is_elf h script"
    and "\<forall>l\<in>set (before @ line # after). CHR 0x0A \<notin> set l \<and> NUL \<notin> set l \<and> length l < 1023"
    and "\<forall>l\<in>set before. strstr (l @ [CHR 0x0A]) ''$HERE/'' = None \<and> strstr (l @ [CHR 0x0A]) ''exec '' = None"
    and "path_dirname_copy script BT_PATH_MAX = Some dir" "length script < BT_PATH_MAX"
    and "names_target dir (line @ [CHR 0x0A]) target" "file_is_elf h target" "length target < BT_PATH_MAX"
  shows "resolve_target_binary h script BT_PATH_MAX = Some target"
proof -
  let ?nl = "\<lambda>l. l @ [CHR 0x0A]"
  have lines: "fgets_lines 1024 (concat (map ?nl (before @ line # after))) = map ?nl (before @ line # after)"
    using assms(3) by (intro fgets_lines_text) auto
  have c: "c_str (?nl l) = ?nl l" if "l \<in> set (before @ line # after)" for l
    using assms(3) that by (intro c_str_fix) auto
  have "script_lines dir BT_PATH_MAX (map ?nl before @ ?nl line # map ?nl after) = Some target"
  proof (rule script_lines_skip)
    show "\<forall>l\<in>set (map ?nl before). script_line dir BT_PATH_MAX (c_str l) = None"
      using assms(4) c by (simp add: script_line_def)
    show "script_line dir BT_PATH_MAX (c_str (?nl line)) = Some (Some target)"
      using script_line_names[OF assms(7,9)] c[of line] by simp
  qed
  then have "parse_exec_target_from_script h script BT_PATH_MAX = Some target"
    using assms(1,5) lines by (simp add: parse_exec_target_from_script_def)
  then show ?thesis
    using assms(2,6,8,9) by (simp add: resolve_target_binary_def numeral_eq_Suc copy_string_id)
qed

definition chrome_wrapper_host :: browser_host where
  "chrome_wrapper_host = \<lparr>bh_file = [''/opt/chrome/google-chrome'' \<mapsto> concat (map (\<lambda>l. l @ [CHR 0x0A]) ([''#!/bin/bash''] @ (''exec -a \"$0\" \"$HERE/chrome\" \"$@\"'') # [])),
       ''/opt/chrome/chrome'' \<mapsto> elf_magic @ ''code''],
     bh_exec_ok = (\<lambda>_. False), bh_read_ok = (\<lambda>_. False), bh_realpath = (\<lambda>_. None), bh_readdir = (\<lambda>_. None), bh_popen = (\<lambda>_. None)\<rparr>"

theorem wrapper_script_resolved_witness:
  "resolve_target_binary chrome_wrapper_host ''/opt/chrome/google-chrome'' BT_PATH_MAX = Some ''/opt/chrome/chrome''"
proof (rule wrapper_script_resolved)
  show "bh_file chrome_wrapper_host ''/opt/chrome/google-chrome'' =
      Some (concat (map (\<lambda>l. l @ [CHR 0x0A]) ([''#!/bin/bash''] @ (''exec -a \"$0\" \"$HERE/chrome\" \"$@\"'') # [])))"
    by (simp add: chrome_wrapper_host_def)
  show "path_dirname_copy ''/opt/chrome/google-chrome'' BT_PATH_MAX = Some ''/opt/chrome''"
    by (simp add: path_dirname_copy_def after_last_def BT_PATH_MAX_def)
  have "strstr (''exec -a \"$0\" \"$HERE/chrome\" \"$@\"'' @ [CHR 0x0A]) ''$HERE/'' = Some (''$HERE/'' @ ''chrome'' @ CHR 0x22 # '' \"$@\"'' @ [CHR 0x0A])"
    by simp
  then show "names_target ''/opt/chrome'' (''exec -a \"$0\" \"$HERE/chrome\" \"$@\"'' @ [CHR 0x0A]) ''/opt/chrome/chrome''"
    unfolding names_target_def
    by (simp only: option.case) (rule exI[of _ "''chrome''"], rule exI[of _ "CHR 0x22"], rule exI[of _ "'' \"$@\"'' @ [CHR 0x0A]"], simp add: is_space_def)
qed (simp_all add: chrome_wrapper_host_def file_is_elf_def elf_magic_def BT_PATH_MAX_def)

theorem resolve_target_binary_elf_witness:
  "file_is_elf chrome_wrapper_host ''/opt/chrome/chrome'' \<and> length ''/opt/chrome/chrome'' < BT_PATH_MAX"
proof (rule resolve_target_binary_elf)
  have elf: "file_is_elf chrome_wrapper_host ''/opt/chrome/chrome''" by (simp add: chrome_wrapper_host_def file_is_elf_def elf_magic_def)
  have len: "length ''/opt/chrome/chrome'' < BT_PATH_MAX" by (simp add: BT_PATH_MAX_def)
  obtain d where "(4::nat) = Suc d" by simp
  then show "resolve_target_binary chrome_wrapper_host ''/opt/chrome/chrome'' BT_PATH_MAX = Some ''/opt/chrome/chrome''"
    unfolding resolve_target_binary_def copy_string_id[OF len] by (simp only: resolve_loop.simps elf copy_string_id[OF len] if_True)
qed (simp add: chrome_wrapper_host_def)

end
