(* ===== verification/Browser_Bpf.thy ===== *)
theory Browser_Bpf
  imports Bpf_Runtime Paired_Calls
begin

text \<open>
  The kernel side of the browser tracer (\<open>bpf/browsertrace.bpf.c\<close> with \<open>bpf/browsertrace.h\<close>). For
  Firefox, \<open>SSL_ImportFD\<close> tells which NSPR descriptors carry TLS and the probes on the NSPR read and
  write functions capture those; for Chrome, probes inside the code capture the plaintext copies.
\<close>

section \<open>The code\<close>

definition BT_MAX_BUF_SIZE :: nat where
  "BT_MAX_BUF_SIZE = 512 * 1024"

record browser_event =
  be_timestamp_ns :: u64
  be_delta_ns :: u64
  be_pid :: u32
  be_tid :: u32
  be_uid :: u32
  be_len :: u32
  be_buf_size :: u32
  be_buf_filled :: bool
  be_rw :: int
  be_comm :: bytes
  be_buf :: bytes
  be_is_handshake :: bool

record browser_state =
  bt_start_ns :: "u32 \<rightharpoonup> u64"
  bt_bufs :: "u32 \<rightharpoonup> u64"
  nss_import_fds :: "u32 \<rightharpoonup> u64"
  nss_ssl_fds :: "u64 \<rightharpoonup> u8"
  bt_rb :: "browser_event list"

record browser_config =
  bt_targ_pid :: u32
  bt_targ_uid :: u32

record browser_env = bpf_env +
  bt_rc :: u64
  bt_room_bufs :: bool
  bt_room_start :: bool
  bt_room_import :: bool
  bt_room_fds :: bool
  bt_room_fds2 :: bool
  bt_slot :: "browser_event option"

definition bt_trace_allowed :: "browser_config \<Rightarrow> u32 \<Rightarrow> u32 \<Rightarrow> bool" where
  "bt_trace_allowed cfg uid pid =
     (if bt_targ_pid cfg \<noteq> 0 \<and> bt_targ_pid cfg \<noteq> pid then False
      else if bt_targ_uid cfg \<noteq> -1 \<and> bt_targ_uid cfg \<noteq> uid then False
      else True)"

definition bt_allowed :: "browser_config \<Rightarrow> browser_env \<Rightarrow> bool" where
  "bt_allowed cfg env = bt_trace_allowed cfg (ucast (uid_gid env)) (cur_tgid env)"

definition store_rw_enter :: "browser_config \<Rightarrow> browser_env \<Rightarrow> u64 \<Rightarrow> browser_state \<Rightarrow> browser_state" where
  "store_rw_enter cfg env buf st =
     (let tid = cur_tid env; ts = ktime env in
      if \<not> bt_allowed cfg env then st
      else st\<lparr>bt_bufs := snd (map_update (bt_room_bufs env) (bt_bufs st) tid buf BPF_ANY),
              bt_start_ns := snd (map_update (bt_room_start env) (bt_start_ns st) tid ts BPF_ANY)\<rparr>)"

text \<open>The event that both ways of capturing fill: the length, the time since entry, and the payload.\<close>

definition bt_event :: "browser_env \<Rightarrow> u64 \<Rightarrow> u32 \<Rightarrow> int \<Rightarrow> u64 \<Rightarrow> browser_event \<Rightarrow> browser_event" where
  "bt_event env delta len rw src data =
     (let d1 = data\<lparr>be_timestamp_ns := ktime env, be_delta_ns := delta, be_pid := cur_tgid env, be_tid := cur_tid env,
            be_uid := ucast (uid_gid env), be_len := len, be_buf_filled := False, be_buf_size := 0, be_rw := rw,
            be_is_handshake := False, be_comm := cur_comm env\<rparr>;
          buf_copy_size = (if of_nat BT_MAX_BUF_SIZE < len then of_nat BT_MAX_BUF_SIZE else len)
      in case read_into env (be_buf data) 0 (unat buf_copy_size) src of (ok, b) \<Rightarrow>
           if ok then d1\<lparr>be_buf := b, be_buf_filled := True, be_buf_size := buf_copy_size\<rparr> else d1\<lparr>be_buf := b\<rparr>)"

definition emit_plaintext_buffer :: "browser_config \<Rightarrow> browser_env \<Rightarrow> u64 \<Rightarrow> u64 \<Rightarrow> int \<Rightarrow> browser_state \<Rightarrow> browser_state" where
  "emit_plaintext_buffer cfg env buf len rw st =
     (if \<not> bt_allowed cfg env then st
      else if sint len \<le> 0 \<or> of_nat (BT_MAX_BUF_SIZE * 8) < len then st
      else (case bt_slot env of
          None \<Rightarrow> st
        | Some data \<Rightarrow>
            st\<lparr>bt_rb := bt_rb st @ [bt_event env 0 (if 0xffffffff < len then 0xffffffff else ucast len) rw buf data]\<rparr>))"

definition is_tracked_nss_fd :: "u64 \<Rightarrow> browser_state \<Rightarrow> bool" where
  "is_tracked_nss_fd fd st \<longleftrightarrow> nss_ssl_fds st fd \<noteq> None"

definition browsertrace_exit :: "browser_config \<Rightarrow> browser_env \<Rightarrow> int \<Rightarrow> browser_state \<Rightarrow> browser_state" where
  "browsertrace_exit cfg env rw st =
     (let tid = cur_tid env in
      if \<not> bt_allowed cfg env then st
      else (case bt_bufs st tid of
          None \<Rightarrow> st
        | Some bufp \<Rightarrow>
            (case bt_start_ns st tid of
               None \<Rightarrow> st
             | Some tsp \<Rightarrow>
                 let len = ucast (bt_rc env) :: i32 in
                 if sint len \<le> 0 then st
                 else (case bt_slot env of
                     None \<Rightarrow> st
                   | Some data \<Rightarrow>
                       st\<lparr>bt_bufs := map_delete (bt_bufs st) tid, bt_start_ns := map_delete (bt_start_ns st) tid,
                          bt_rb := bt_rb st @ [bt_event env (ktime env - tsp) len rw bufp data]\<rparr>))))"

definition probe_nss_rw_enter :: "browser_config \<Rightarrow> browser_env \<Rightarrow> u64 \<Rightarrow> u64 \<Rightarrow> browser_state \<Rightarrow> browser_state" where
  "probe_nss_rw_enter cfg env fd buf st = (if \<not> is_tracked_nss_fd fd st then st else store_rw_enter cfg env buf st)"

definition probe_nss_import_fd_enter :: "browser_env \<Rightarrow> u64 \<Rightarrow> browser_state \<Rightarrow> browser_state" where
  "probe_nss_import_fd_enter env fd st =
     st\<lparr>nss_import_fds := snd (map_update (bt_room_import env) (nss_import_fds st) (cur_tid env) fd BPF_ANY)\<rparr>"

definition probe_nss_import_fd_exit :: "browser_env \<Rightarrow> browser_state \<Rightarrow> browser_state" where
  "probe_nss_import_fd_exit env st =
     (let tid = cur_tid env; ret_fd = bt_rc env;
          m1 = (if ret_fd \<noteq> 0 then snd (map_update (bt_room_fds env) (nss_ssl_fds st) ret_fd 1 BPF_ANY) else nss_ssl_fds st);
          m2 = (case nss_import_fds st tid of
                  Some fd \<Rightarrow> if fd \<noteq> 0 then snd (map_update (bt_room_fds2 env) m1 fd 1 BPF_ANY) else m1
                | None \<Rightarrow> m1)
      in st\<lparr>nss_ssl_fds := m2, nss_import_fds := map_delete (nss_import_fds st) tid\<rparr>)"

definition probe_nss_close_enter :: "u64 \<Rightarrow> browser_state \<Rightarrow> browser_state" where
  "probe_nss_close_enter fd st = st\<lparr>nss_ssl_fds := map_delete (nss_ssl_fds st) fd\<rparr>"

text \<open>The three request probes are alike.\<close>

datatype browser_prog =
    B_nss_rw_enter u64 u64 | B_import_enter u64 | B_import_exit | B_close u64
  | B_chrome_request u64 u64 | B_chrome_response u64 u64 | B_read_exit | B_write_exit

fun run_browser :: "browser_config \<Rightarrow> browser_prog \<times> browser_env \<Rightarrow> browser_state \<Rightarrow> browser_state" where
  "run_browser cfg (B_nss_rw_enter fd buf, env) st = probe_nss_rw_enter cfg env fd buf st"
| "run_browser cfg (B_import_enter fd, env) st = probe_nss_import_fd_enter env fd st"
| "run_browser cfg (B_import_exit, env) st = probe_nss_import_fd_exit env st"
| "run_browser cfg (B_close fd, env) st = probe_nss_close_enter fd st"
| "run_browser cfg (B_chrome_request src len, env) st = emit_plaintext_buffer cfg env src len 1 st"
| "run_browser cfg (B_chrome_response src len, env) st = emit_plaintext_buffer cfg env src len 0 st"
| "run_browser cfg (B_read_exit, env) st = browsertrace_exit cfg env 0 st"
| "run_browser cfg (B_write_exit, env) st = browsertrace_exit cfg env 1 st"

lemmas browser_defs [bpf_defs] =
  store_rw_enter_def emit_plaintext_buffer_def browsertrace_exit_def probe_nss_rw_enter_def
  probe_nss_import_fd_enter_def probe_nss_import_fd_exit_def probe_nss_close_enter_def

section \<open>Pairing of entry and return\<close>

definition bt_thread :: "browser_prog \<times> browser_env \<Rightarrow> u32" where
  "bt_thread p = cur_tid (snd p)"

definition bt_pending :: "browser_state \<Rightarrow> u32 \<Rightarrow> (u64 \<times> u64) option" where
  "bt_pending st tid = (case (bt_bufs st tid, bt_start_ns st tid) of (Some b, Some t) \<Rightarrow> Some (b, t) | _ \<Rightarrow> None)"

fun bt_enters :: "browser_config \<Rightarrow> browser_prog \<times> browser_env \<Rightarrow> browser_state \<Rightarrow> (u64 \<times> u64) option" where
  "bt_enters cfg (B_nss_rw_enter fd buf, env) st =
     (if is_tracked_nss_fd fd st \<and> bt_allowed cfg env \<and> bt_room_bufs env \<and> bt_room_start env then Some (buf, ktime env) else None)"
| "bt_enters cfg _ st = None"

definition bt_leaves_event :: "browser_config \<Rightarrow> browser_env \<Rightarrow> int \<Rightarrow> u64 \<times> u64 \<Rightarrow> browser_event option" where
  "bt_leaves_event cfg env rw bt =
     (if bt_allowed cfg env \<and> 0 < sint (ucast (bt_rc env) :: i32)
      then map_option (bt_event env (ktime env - snd bt) (ucast (bt_rc env)) rw (fst bt)) (bt_slot env) else None)"

fun bt_leaves :: "browser_config \<Rightarrow> browser_prog \<times> browser_env \<Rightarrow> u64 \<times> u64 \<Rightarrow> browser_event option" where
  "bt_leaves cfg (B_read_exit, env) bt = bt_leaves_event cfg env 0 bt"
| "bt_leaves cfg (B_write_exit, env) bt = bt_leaves_event cfg env 1 bt"
| "bt_leaves cfg _ bt = None"

lemma browsertrace_exit_event:
  assumes "bt_pending st (cur_tid env) = Some bt" "bt_leaves_event cfg env rw bt = Some e"
  shows "bt_rb (browsertrace_exit cfg env rw st) = bt_rb st @ [e] \<and> bt_pending (browsertrace_exit cfg env rw st) (cur_tid env) = None"
  using assms
  by (auto simp: bt_pending_def bt_leaves_event_def browsertrace_exit_def map_delete_def Let_def split: option.splits if_splits)

interpretation browser: emitting_calls "run_browser cfg" bt_thread bt_pending bt_rb "bt_enters cfg" "bt_leaves cfg" for cfg
proof unfold_locales
  fix p q :: "browser_prog \<times> browser_env" and k s a e
  show "bt_thread p \<noteq> k \<Longrightarrow> bt_pending (run_browser cfg p s) k = bt_pending s k"
    by (cases "(cfg, p, s)" rule: run_browser.cases)
      (auto simp: bt_thread_def bt_pending_def browser_defs map_update_other map_delete_def Let_def split: option.split)
  show "bt_enters cfg p s = Some a \<Longrightarrow> bt_pending (run_browser cfg p s) (bt_thread p) = Some a"
    by (induction cfg p s rule: bt_enters.induct)
      (auto simp: bt_thread_def bt_pending_def probe_nss_rw_enter_def store_rw_enter_def map_update_def Let_def split: if_splits option.split)
  show "bt_pending s (bt_thread q) = Some a \<Longrightarrow> bt_leaves cfg q a = Some e \<Longrightarrow>
      bt_rb (run_browser cfg q s) = bt_rb s @ [e] \<and> bt_pending (run_browser cfg q s) (bt_thread q) = None"
    by (induction cfg q a rule: bt_leaves.induct) (auto simp: bt_thread_def browsertrace_exit_event)
qed

section \<open>What is captured\<close>

text \<open>The event of \<open>len\<close> bytes at \<open>a\<close>: the captured bytes are the first 512 KiB of them.\<close>

definition captured :: "browser_env \<Rightarrow> (u64 \<Rightarrow> char) \<Rightarrow> u64 \<Rightarrow> int \<Rightarrow> u32 \<Rightarrow> u64 \<Rightarrow> browser_event \<Rightarrow> bool" where
  "captured env mem a rw len delta e \<longleftrightarrow>
     be_rw e = rw \<and> be_len e = len \<and> be_delta_ns e = delta \<and> be_pid e = cur_tgid env \<and> be_tid e = cur_tid env \<and> be_buf_filled e \<and>
     unat (be_buf_size e) = min 524288 (unat len) \<and> take (min 524288 (unat len)) (be_buf e) = seg mem a (min 524288 (unat len))"

lemma unat_copy_size: "unat (if of_nat BT_MAX_BUF_SIZE < len then of_nat BT_MAX_BUF_SIZE else len :: u32) = min 524288 (unat len)"
  by (simp add: BT_MAX_BUF_SIZE_def word_less_nat_alt)

lemma bt_event_captured:
  assumes "readable env mem" "length (be_buf d) = BT_MAX_BUF_SIZE"
  shows "captured env mem a rw len delta (bt_event env delta len rw a d)"
proof -
  have "min 524288 (unat len) \<le> length (be_buf d)" using assms(2) by (simp add: BT_MAX_BUF_SIZE_def)
  then show ?thesis
    unfolding bt_event_def captured_def Let_def unat_copy_size
    by (simp only: read_into_readable[OF assms(1)] split if_True unat_copy_size browser_event.select_convs browser_event.simps)
      (simp add: unat_copy_size)
qed

definition browser_event_ok :: "browser_event \<Rightarrow> bool" where
  "browser_event_ok e \<longleftrightarrow> length (be_buf e) = BT_MAX_BUF_SIZE \<and> unat (be_buf_size e) \<le> BT_MAX_BUF_SIZE \<and>
     be_buf_size e \<le> be_len e \<and> be_rw e \<in> {0, 1}"

definition browser_slot_ok :: "browser_env \<Rightarrow> bool" where
  "browser_slot_ok env \<longleftrightarrow> reads_exact env \<and> (\<forall>d. bt_slot env = Some d \<longrightarrow> length (be_buf d) = BT_MAX_BUF_SIZE)"

lemma bt_event_ok:
  assumes "reads_exact env" "length (be_buf d) = BT_MAX_BUF_SIZE" "rw \<in> {0, 1}"
  shows "browser_event_ok (bt_event env delta len rw a d)"
proof -
  let ?n = "if of_nat BT_MAX_BUF_SIZE < len then of_nat BT_MAX_BUF_SIZE else len"
  have n: "unat ?n \<le> BT_MAX_BUF_SIZE" "?n \<le> len" unfolding word_le_nat_alt unat_copy_size by (simp_all add: BT_MAX_BUF_SIZE_def)
  obtain ok b where r: "read_into env (be_buf d) 0 (unat ?n) a = (ok, b)" by (cases "read_into env (be_buf d) 0 (unat ?n) a")
  then have "length b = BT_MAX_BUF_SIZE" using read_into_length[OF assms(1), of 0 "unat ?n" "be_buf d" a] n(1) assms(2) by simp
  with n r assms(3) show ?thesis by (auto simp: browser_event_ok_def bt_event_def Let_def simp del: of_nat_mult)
qed

lemma run_browser_ok:
  assumes "browser_slot_ok (snd p)" "list_all browser_event_ok (bt_rb st)"
  shows "list_all browser_event_ok (bt_rb (run_browser cfg p st))"
proof (cases p)
  case (Pair prog env)
  have ev: "browser_event_ok (bt_event env delta len rw a d)" if "bt_slot env = Some d" "rw \<in> {0, 1}" for delta len rw a d
    using that assms(1) Pair by (auto simp: browser_slot_ok_def intro!: bt_event_ok)
  show ?thesis using assms(2) unfolding Pair
    by (cases prog) (auto simp: browser_defs Let_def ev split: option.split)
qed

text \<open>A process with readable memory, an event slot, and a thread 7 of process 5.\<close>

definition bt_demo_mem :: "u64 \<Rightarrow> char" where
  "bt_demo_mem a = (if a = 64 then CHR ''G'' else if a = 65 then CHR ''E'' else if a = 66 then CHR ''T'' else NUL)"

definition bt_demo_slot :: browser_event where
  "bt_demo_slot = \<lparr>be_timestamp_ns = 0, be_delta_ns = 0, be_pid = 0, be_tid = 0, be_uid = 0, be_len = 0, be_buf_size = 0,
     be_buf_filled = False, be_rw = 0, be_comm = [], be_buf = replicate BT_MAX_BUF_SIZE NUL, be_is_handshake = False\<rparr>"

definition bt_demo_env :: browser_env where
  "bt_demo_env = \<lparr>pid_tgid = 0x500000007, uid_gid = 0, ktime = 9, cur_comm = ''firefox'', cgroup_id = 0, cpu = 0, args = (\<lambda>_. 0),
     user_str = (\<lambda>_. None), user_mem = (\<lambda>a n. Some (seg bt_demo_mem a n)), room = True,
     bt_rc = 3, bt_room_bufs = True, bt_room_start = True, bt_room_import = True, bt_room_fds = True, bt_room_fds2 = True,
     bt_slot = Some bt_demo_slot\<rparr>"

definition bt_demo_cfg :: browser_config where
  "bt_demo_cfg = \<lparr>bt_targ_pid = 5, bt_targ_uid = -1\<rparr>"

definition bt_empty :: browser_state where
  "bt_empty = \<lparr>bt_start_ns = Map.empty, bt_bufs = Map.empty, nss_import_fds = Map.empty, nss_ssl_fds = Map.empty, bt_rb = []\<rparr>"

lemma bt_demo_facts:
  "bt_allowed bt_demo_cfg bt_demo_env" "bt_room_bufs bt_demo_env" "bt_room_start bt_demo_env" "bt_slot bt_demo_env = Some bt_demo_slot"
  "length (be_buf bt_demo_slot) = BT_MAX_BUF_SIZE" "readable bt_demo_env bt_demo_mem" "bt_rc bt_demo_env = 3" "cur_tid bt_demo_env = 7"
  "browser_slot_ok bt_demo_env"
proof -
  have "cur_tgid bt_demo_env = 5" by (simp add: bt_demo_env_def cur_tgid_def)
  then show "bt_allowed bt_demo_cfg bt_demo_env" by (simp add: bt_allowed_def bt_trace_allowed_def bt_demo_cfg_def)
qed (simp_all add: bt_demo_env_def bt_demo_slot_def readable_def cur_tid_def browser_slot_ok_def reads_exact_def)

text \<open>
  C19: Firefox. When a thread calls a read or write function of NSPR on a descriptor that carries TLS
  and the call moves a positive number of bytes, exactly one event is emitted at its return, whatever
  the programs do for other threads in between: it carries the number of bytes, the duration of the call
  and the first 512 KiB of the buffer passed at entry. Nothing stays stored for the thread.
\<close>

theorem nss_rw_pairing:
  assumes "is_tracked_nss_fd fd st" "bt_allowed cfg e1" "bt_room_bufs e1" "bt_room_start e1" "bt_allowed cfg e2" "cur_tid e2 = cur_tid e1"
    and "\<forall>r\<in>set rs. bt_thread r \<noteq> cur_tid e1" "0 < sint (ucast (bt_rc e2) :: i32)" "bt_slot e2 = Some d"
    and "length (be_buf d) = BT_MAX_BUF_SIZE" "readable e2 mem" "(q, rw) \<in> {(B_read_exit, 0), (B_write_exit, 1)}"
    and "st1 = fold (run_browser cfg) rs (run_browser cfg (B_nss_rw_enter fd buf, e1) st)" "st2 = run_browser cfg (q, e2) st1"
  shows "\<exists>e. bt_rb st2 = bt_rb st1 @ [e] \<and> bt_pending st2 (cur_tid e1) = None \<and>
    captured e2 mem buf rw (ucast (bt_rc e2)) (ktime e2 - ktime e1) e"
proof -
  let ?e = "bt_event e2 (ktime e2 - ktime e1) (ucast (bt_rc e2)) rw buf d"
  have "bt_enters cfg (B_nss_rw_enter fd buf, e1) st = Some (buf, ktime e1)" using assms(1-4) by simp
  moreover have "bt_leaves cfg (q, e2) (buf, ktime e1) = Some ?e" using assms(5,8,9,12) by (auto simp: bt_leaves_event_def)
  ultimately have "bt_rb st2 = bt_rb st1 @ [?e] \<and> bt_pending st2 (cur_tid e1) = None"
    using browser.pair_emits[of cfg "(B_nss_rw_enter fd buf, e1)" st "(buf, ktime e1)" "(q, e2)" rs ?e] assms(6,7)
    unfolding assms(13,14) by (simp add: bt_thread_def)
  then show ?thesis using bt_event_captured[OF assms(11,10)] by blast
qed

theorem nss_rw_pairing_witness:
  "\<exists>e. bt_rb (run_browser bt_demo_cfg (B_write_exit, bt_demo_env)
        (run_browser bt_demo_cfg (B_nss_rw_enter 99 64, bt_demo_env) (bt_empty\<lparr>nss_ssl_fds := [99 \<mapsto> 1]\<rparr>))) =
      bt_rb (run_browser bt_demo_cfg (B_nss_rw_enter 99 64, bt_demo_env) (bt_empty\<lparr>nss_ssl_fds := [99 \<mapsto> 1]\<rparr>)) @ [e] \<and>
    unat (be_buf_size e) = 3 \<and> take 3 (be_buf e) = ''GET''"
proof -
  have "is_tracked_nss_fd 99 (bt_empty\<lparr>nss_ssl_fds := [99 \<mapsto> 1]\<rparr>)" by (simp add: is_tracked_nss_fd_def)
  from nss_rw_pairing[OF this bt_demo_facts(1-3,1) refl _ _ bt_demo_facts(4-6) _ refl refl, of "[]" B_write_exit 1 64]
  show ?thesis by (auto simp: bt_demo_facts captured_def seg_def bt_demo_mem_def upt_conv_Cons)
qed

text \<open>
  Chrome. A copy of plaintext that a selected process makes is captured when, and only when, it is
  neither empty nor longer than 4 MiB: as one event with the first 512 KiB of the source of the copy.
\<close>

theorem chrome_copy_captured:
  assumes "bt_allowed cfg env" "bt_slot env = Some d" "length (be_buf d) = BT_MAX_BUF_SIZE" "readable env mem"
    and "(p, rw) \<in> {(B_chrome_request src len, 1), (B_chrome_response src len, 0)}"
  shows "\<exists>evs. run_browser cfg (p, env) st = st\<lparr>bt_rb := bt_rb st @ evs\<rparr> \<and>
    (if 0 < unat len \<and> unat len \<le> 4194304 then \<exists>e. evs = [e] \<and> captured env mem src rw (ucast len) 0 e else evs = [])"
proof -
  let ?e = "bt_event env 0 (ucast len) rw src d"
  have bounds: "sint len \<le> 0 \<or> of_nat (BT_MAX_BUF_SIZE * 8) < len \<longleftrightarrow> \<not> (0 < unat len \<and> unat len \<le> 4194304)"
  proof -
    have big: "of_nat (BT_MAX_BUF_SIZE * 8) < len \<longleftrightarrow> 4194304 < unat len" by (simp add: BT_MAX_BUF_SIZE_def word_less_nat_alt)
    have "sint len \<le> 0 \<longleftrightarrow> unat len = 0" if "unat len \<le> 4194304"
    proof -
      have u: "uint len = int (unat len)" by simp
      with that have "uint len \<le> 4194304" "0 \<le> uint len" by linarith+
      moreover have "- (2 ^ 63) \<le> (0::int)" "(4194304::int) < 2 ^ 63" by simp_all
      ultimately have "- (2 ^ 63) \<le> uint len" "uint len < 2 ^ 63" by linarith+
      then have "signed_take_bit 63 (uint len) = uint len" by (rule signed_take_bit_int_eq_self)
      then have "sint len = uint len" by (simp add: sint_uint)
      with u show ?thesis by linarith
    qed
    then show ?thesis unfolding big by linarith
  qed
  have "\<not> 0xffffffff < len" if "unat len \<le> 4194304" using that by (simp add: word_less_nat_alt)
  then have "emit_plaintext_buffer cfg env src len rw st =
      st\<lparr>bt_rb := bt_rb st @ (if 0 < unat len \<and> unat len \<le> 4194304 then [?e] else [])\<rparr>"
    using assms(1,2) unfolding emit_plaintext_buffer_def bounds by auto
  then have run: "run_browser cfg (p, env) st =
      st\<lparr>bt_rb := bt_rb st @ (if 0 < unat len \<and> unat len \<le> 4194304 then [?e] else [])\<rparr>"
    using assms(5) by auto
  show ?thesis unfolding run using bt_event_captured[OF assms(4,3), of src rw "ucast len" 0] by auto
qed

theorem chrome_copy_captured_witness:
  "\<exists>evs e. run_browser bt_demo_cfg (B_chrome_request 64 3, bt_demo_env) bt_empty = bt_empty\<lparr>bt_rb := evs\<rparr> \<and> evs = [e] \<and>
    take 3 (be_buf e) = ''GET''"
  using chrome_copy_captured[OF bt_demo_facts(1,4-6), of "B_chrome_request 64 3" 1 64 3 bt_empty]
  by (auto simp: bt_empty_def captured_def seg_def bt_demo_mem_def upt_conv_Cons)

text \<open>
  Whatever sequence of probes runs and whichever reads fail, no read goes past the end of an event's
  buffer, no event states more captured bytes than the buffer holds or the call moved.
\<close>

theorem browser_buffers_in_bounds:
  assumes "\<forall>p\<in>set ps. browser_slot_ok (snd p)" "list_all browser_event_ok (bt_rb st)"
  shows "list_all browser_event_ok (bt_rb (fold (run_browser cfg) ps st))"
  using assms by (induction ps arbitrary: st) (simp_all add: run_browser_ok)

theorem browser_buffers_in_bounds_witness:
  "list_all browser_event_ok (bt_rb (fold (run_browser bt_demo_cfg)
     [(B_chrome_response 64 3, bt_demo_env), (B_nss_rw_enter 99 64, bt_demo_env), (B_read_exit, bt_demo_env)] bt_empty))"
  by (rule browser_buffers_in_bounds) (simp_all add: bt_demo_facts bt_empty_def)

section \<open>Which descriptors carry TLS\<close>

text \<open>The specification over the history: the import a thread is in, and the descriptors imported and not closed since.\<close>

fun is_import :: "browser_prog \<Rightarrow> bool" where
  "is_import (B_import_enter fd) = True"
| "is_import B_import_exit = True"
| "is_import _ = False"

text \<open>\<open>since P Q ps\<close>: at some point of the history \<open>P\<close> holds of the past and the step, and all later steps satisfy \<open>Q\<close>.\<close>

definition since :: "('p list \<Rightarrow> 'p \<Rightarrow> bool) \<Rightarrow> ('p \<Rightarrow> bool) \<Rightarrow> 'p list \<Rightarrow> bool" where
  "since P Q ps \<longleftrightarrow> (\<exists>a p b. ps = a @ p # b \<and> P a p \<and> (\<forall>q\<in>set b. Q q))"

lemma since_snoc: "since P Q (ps @ [p]) \<longleftrightarrow> P ps p \<or> (since P Q ps \<and> Q p)"
proof
  assume "since P Q (ps @ [p])"
  then obtain a x b where *: "ps @ [p] = a @ x # b" "P a x" "\<forall>q\<in>set b. Q q" by (auto simp: since_def)
  then show "P ps p \<or> (since P Q ps \<and> Q p)" by (cases b rule: rev_cases) (auto simp: since_def)
next
  assume "P ps p \<or> (since P Q ps \<and> Q p)"
  then show "since P Q (ps @ [p])"
  proof
    assume "P ps p"
    then show ?thesis unfolding since_def by (intro exI[of _ ps] exI[of _ p] exI[of _ "[]"]) simp
  next
    assume "since P Q ps \<and> Q p"
    then obtain a x b where "ps = a @ x # b" "P a x" "\<forall>q\<in>set b. Q q" "Q p" by (auto simp: since_def)
    then show ?thesis unfolding since_def by (intro exI[of _ a] exI[of _ x] exI[of _ "b @ [p]"]) auto
  qed
qed

lemma since_Nil: "\<not> since P Q []"
  by (simp add: since_def)

definition import_open :: "u32 \<Rightarrow> u64 \<Rightarrow> (browser_prog \<times> browser_env) list \<Rightarrow> bool" where
  "import_open tid fd = since (\<lambda>_ p. fst p = B_import_enter fd \<and> bt_thread p = tid) (\<lambda>q. \<not> (is_import (fst q) \<and> bt_thread q = tid))"

definition tls_descriptor :: "u64 \<Rightarrow> (browser_prog \<times> browser_env) list \<Rightarrow> bool" where
  "tls_descriptor fd = since (\<lambda>past p. fst p = B_import_exit \<and> fd \<noteq> 0 \<and> (bt_rc (snd p) = fd \<or> import_open (bt_thread p) fd past))
     (\<lambda>q. fst q \<noteq> B_close fd)"

definition import_room :: "browser_env \<Rightarrow> bool" where
  "import_room env \<longleftrightarrow> bt_room_import env \<and> bt_room_fds env \<and> bt_room_fds2 env"

lemma run_browser_import_fds:
  assumes "import_room env"
  shows "nss_import_fds (run_browser cfg (prog, env) st) tid = Some fd \<longleftrightarrow>
    (prog = B_import_enter fd \<and> cur_tid env = tid) \<or> (nss_import_fds st tid = Some fd \<and> \<not> (is_import prog \<and> cur_tid env = tid))"
  using assms
  by (cases prog) (auto simp: browser_defs import_room_def map_update_def map_delete_def Let_def split: option.split)

lemma run_browser_tls_fds:
  assumes "import_room env"
  shows "is_tracked_nss_fd fd (run_browser cfg (prog, env) st) \<longleftrightarrow>
    (prog = B_import_exit \<and> fd \<noteq> 0 \<and> (bt_rc env = fd \<or> nss_import_fds st (cur_tid env) = Some fd)) \<or>
    (is_tracked_nss_fd fd st \<and> prog \<noteq> B_close fd)"
  using assms
  by (cases prog) (auto simp: is_tracked_nss_fd_def browser_defs import_room_def map_update_def map_delete_def Let_def split: option.splits)

lemma import_fds_history:
  "\<forall>p\<in>set ps. import_room (snd p) \<Longrightarrow> nss_import_fds (fold (run_browser cfg) ps bt_empty) tid = Some fd \<longleftrightarrow> import_open tid fd ps"
proof (induction ps arbitrary: tid fd rule: rev_induct)
  case (snoc p ps)
  then show ?case by (cases p) (simp add: run_browser_import_fds import_open_def since_snoc bt_thread_def)
qed (simp add: import_open_def since_Nil bt_empty_def)

text \<open>
  C20: The descriptors whose traffic Firefox's probes capture are exactly those of TLS sockets: a
  descriptor is tracked when it was passed to \<open>SSL_ImportFD\<close> or returned by it, the call has
  returned, and the descriptor has not been passed to \<open>PR_Close\<close> since, however the calls of different
  threads interleave (as long as the maps have room).
\<close>

theorem nss_tracking_exact:
  assumes "\<forall>p\<in>set ps. import_room (snd p)"
  shows "is_tracked_nss_fd fd (fold (run_browser cfg) ps bt_empty) \<longleftrightarrow> tls_descriptor fd ps"
  using assms
proof (induction ps rule: rev_induct)
  case (snoc p ps)
  then show ?case
    by (cases p) (simp add: run_browser_tls_fds import_fds_history tls_descriptor_def since_snoc bt_thread_def)
qed (simp add: tls_descriptor_def since_Nil is_tracked_nss_fd_def bt_empty_def)

theorem nss_tracking_exact_witness:
  "is_tracked_nss_fd 99 (fold (run_browser bt_demo_cfg) [(B_import_enter 99, bt_demo_env), (B_import_exit, bt_demo_env), (B_close 3, bt_demo_env)] bt_empty) \<longleftrightarrow>
   tls_descriptor 99 [(B_import_enter 99, bt_demo_env), (B_import_exit, bt_demo_env), (B_close 3, bt_demo_env)]"
  by (rule nss_tracking_exact) (simp add: import_room_def bt_demo_env_def)

end
