(* ===== verification/Browsertrace.thy ===== *)
theory Browsertrace
  imports Browser_Target Browser_Bpf Json_Line Linear_Probing
begin

text \<open>
  The rest of the user side of the browser tracer (\<open>bpf/browsertrace.c\<close>): command line, the cache of
  processes that match the target, the JSON line of an event, and the main loop. \<open>browser_world\<close> is what
  the system answers while an event is printed.
\<close>

unbundle bit_operations_syntax

section \<open>The code: command line\<close>

record bt_opts =
  bo_pid :: i32
  bo_uid :: i32
  bo_comm :: "bytes option"
  bo_binary_path :: "bytes option"
  bo_verbose :: bool

definition bt_default_opts :: bt_opts where
  "bt_default_opts = \<lparr>bo_pid = -1, bo_uid = -1, bo_comm = None, bo_binary_path = None, bo_verbose = False\<rparr>"

datatype bt_arg = BA_p bytes | BA_u bytes | BA_c bytes | BA_v | BA_binary_path bytes | BA_end | BA_unknown

datatype bt_opt_error = BE_usage | BE_unknown

fun bt_parse_arg :: "bt_arg \<Rightarrow> bt_opts \<Rightarrow> bt_opt_error + bt_opts" where
  "bt_parse_arg (BA_p arg) env = Inr (env\<lparr>bo_pid := atoi arg\<rparr>)"
| "bt_parse_arg (BA_u arg) env = Inr (env\<lparr>bo_uid := atoi arg\<rparr>)"
| "bt_parse_arg (BA_c arg) env = Inr (env\<lparr>bo_comm := Some arg\<rparr>)"
| "bt_parse_arg BA_v env = Inr (env\<lparr>bo_verbose := True\<rparr>)"
| "bt_parse_arg (BA_binary_path arg) env = Inr (env\<lparr>bo_binary_path := Some arg\<rparr>)"
| "bt_parse_arg BA_end env = (if bo_binary_path env = None then Inl BE_usage else Inr env)"
| "bt_parse_arg BA_unknown env = Inl BE_unknown"

text \<open>\<open>argp\<close> calls the parser for each option and at the end with \<open>ARGP_KEY_END\<close>.\<close>

fun bt_parse_args :: "bt_arg list \<Rightarrow> bt_opts \<Rightarrow> bt_opt_error + bt_opts" where
  "bt_parse_args [] env = bt_parse_arg BA_end env"
| "bt_parse_args (a # as) env = (case bt_parse_arg a env of Inl e \<Rightarrow> Inl e | Inr env' \<Rightarrow> bt_parse_args as env')"

section \<open>The code: processes that match the target\<close>

record target_pid_cache_entry =
  tpc_pid :: pid_t
  tpc_valid :: bool
  tpc_matched :: bool

definition TARGET_PID_CACHE_SIZE :: nat where
  "TARGET_PID_CACHE_SIZE = 256"

type_synonym pid_cache = "target_pid_cache_entry list"

text \<open>\<open>start\<close> is the static variable of \<open>print_event\<close>, the other fields are global.\<close>

record browser_user =
  target_pid_cache :: pid_cache
  target_exec_path :: bytes
  target_exec_basename :: bytes
  bu_event_buf :: bytes
  bu_start :: u64

definition empty_cache :: pid_cache where
  "empty_cache = replicate TARGET_PID_CACHE_SIZE \<lparr>tpc_pid = 0, tpc_valid = False, tpc_matched = False\<rparr>"

definition setup_target_process_filter :: "bytes \<Rightarrow> bytes \<Rightarrow> browser_user \<Rightarrow> browser_user" where
  "setup_target_process_filter requested_path resolved_target u =
     u\<lparr>target_pid_cache := empty_cache,
       target_exec_path := (if resolved_target \<noteq> [] then copy_string BT_PATH_MAX resolved_target else []),
       target_exec_basename :=
         (if resolved_target \<noteq> [] then copy_string BT_PATH_MAX (path_basename_ptr resolved_target)
          else if requested_path \<noteq> [] then copy_string BT_PATH_MAX (path_basename_ptr requested_path)
          else [])\<rparr>"

definition target_pid_cache_slot :: "pid_t \<Rightarrow> nat" where
  "target_pid_cache_slot pid = unat pid mod TARGET_PID_CACHE_SIZE"

definition cache_index :: "pid_t \<Rightarrow> nat \<Rightarrow> nat" where
  "cache_index pid i = (target_pid_cache_slot pid + i) mod TARGET_PID_CACHE_SIZE"

function lookup_probe :: "pid_cache \<Rightarrow> pid_t \<Rightarrow> nat \<Rightarrow> bool option" where
  "lookup_probe cache pid i =
     (if i < TARGET_PID_CACHE_SIZE then
        let entry = cache ! cache_index pid i in
        if \<not> tpc_valid entry then None
        else if tpc_pid entry \<noteq> pid then lookup_probe cache pid (i + 1)
        else Some (tpc_matched entry)
      else None)"
  by pat_completeness auto
termination
  by (relation "measure (\<lambda>(cache, pid, i). TARGET_PID_CACHE_SIZE - i)") auto

definition lookup_target_pid_cache :: "pid_cache \<Rightarrow> pid_t \<Rightarrow> bool option" where
  "lookup_target_pid_cache cache pid = lookup_probe cache pid 0"

definition cache_entry :: "pid_t \<Rightarrow> bool \<Rightarrow> target_pid_cache_entry" where
  "cache_entry pid matched = \<lparr>tpc_pid = pid, tpc_valid = True, tpc_matched = matched\<rparr>"

function store_probe :: "pid_cache \<Rightarrow> pid_t \<Rightarrow> bool \<Rightarrow> nat \<Rightarrow> pid_cache" where
  "store_probe cache pid matched i =
     (if i < TARGET_PID_CACHE_SIZE then
        let entry = cache ! cache_index pid i in
        if tpc_valid entry \<and> tpc_pid entry \<noteq> pid then store_probe cache pid matched (i + 1)
        else cache[cache_index pid i := cache_entry pid matched]
      else cache[target_pid_cache_slot pid := cache_entry pid matched])"
  by pat_completeness auto
termination
  by (relation "measure (\<lambda>(cache, pid, matched, i). TARGET_PID_CACHE_SIZE - i)") auto

declare lookup_probe.simps [simp del] store_probe.simps [simp del]

definition store_target_pid_cache :: "pid_cache \<Rightarrow> pid_t \<Rightarrow> bool \<Rightarrow> pid_cache" where
  "store_target_pid_cache cache pid matched = store_probe cache pid matched 0"

definition proc_exe_path :: "pid_t \<Rightarrow> bytes" where
  "proc_exe_path pid = take 63 (''/proc/'' @ dec_int (sint pid) @ ''/exe'')"

text \<open>The argument \<open>readlink\<close> gives the target of a link, \<open>None\<close> when it cannot be read.\<close>

definition target_process_matches :: "(bytes \<Rightarrow> bytes option) \<Rightarrow> pid_t \<Rightarrow> browser_user \<Rightarrow> bool \<times> browser_user" where
  "target_process_matches readlink pid u =
     (if target_exec_path u = [] \<and> target_exec_basename u = [] then (True, u)
      else (case lookup_target_pid_cache (target_pid_cache u) pid of
          Some matched \<Rightarrow> (matched, u)
        | None \<Rightarrow>
            (case readlink (proc_exe_path pid) of
               None \<Rightarrow> (False, u\<lparr>target_pid_cache := store_target_pid_cache (target_pid_cache u) pid False\<rparr>)
             | Some raw \<Rightarrow>
                 if take (BT_PATH_MAX - 1) raw = [] then (False, u\<lparr>target_pid_cache := store_target_pid_cache (target_pid_cache u) pid False\<rparr>)
                 else
                   let exe_path = c_str (take (BT_PATH_MAX - 1) raw);
                       matched = (if target_exec_path u \<noteq> [] \<and> exe_path = target_exec_path u then True
                                  else if target_exec_basename u \<noteq> [] \<and> path_basename_ptr exe_path = target_exec_basename u then True
                                  else False)
                   in (matched, u\<lparr>target_pid_cache := store_target_pid_cache (target_pid_cache u) pid matched\<rparr>))))"

section \<open>The code: events\<close>

definition bt_validate_utf8_char :: "mbrtowc_fn \<Rightarrow> bytes \<Rightarrow> nat \<Rightarrow> nat" where
  "bt_validate_utf8_char mbrtowc str remaining =
     (if remaining = 0 then 0
      else
        let c = ord (str ! 0) in
        if c < 0x80 then 1
        else
          let exp_len = (if c AND 0xE0 = 0xC0 then 2 else if c AND 0xF0 = 0xE0 then 3 else if c AND 0xF8 = 0xF0 then 4 else 0)
          in if exp_len = 0 then 0
             else if remaining < exp_len then 0
             else if mbrtowc (take exp_len str) \<in> {MbInvalid, MbIncomplete, MbNull} then 0
             else if exp_len = 2 then
               (if push_bit 6 (c AND 0x1F) OR (ord (str ! 1) AND 0x3F) < 0x80 then 0 else exp_len)
             else if exp_len = 3 then
               (let codepoint = push_bit 12 (c AND 0x0F) OR push_bit 6 (ord (str ! 1) AND 0x3F) OR (ord (str ! 2) AND 0x3F) in
                if codepoint < 0x800 then 0 else if 0xD800 \<le> codepoint \<and> codepoint \<le> 0xDFFF then 0 else exp_len)
             else
               (let codepoint = push_bit 18 (c AND 0x07) OR push_bit 12 (ord (str ! 1) AND 0x3F) OR push_bit 6 (ord (str ! 2) AND 0x3F)
                      OR (ord (str ! 3) AND 0x3F) in
                if codepoint < 0x10000 \<or> 0x10FFFF < codepoint then 0 else exp_len))"

text \<open>The output loop over \<open>event_buf\<close>, which is larger than \<open>buf_size\<close> and keeps bytes of earlier events.\<close>

function bt_escape_loop :: "mbrtowc_fn \<Rightarrow> bytes \<Rightarrow> nat \<Rightarrow> nat \<Rightarrow> bytes" where
  "bt_escape_loop mb event_buf buf_size i =
     (if i < buf_size then
        let c = event_buf ! i in
        if c = CHR 0x22 \<or> c = CHR 0x5C then [CHR 0x5C, c] @ bt_escape_loop mb event_buf buf_size (i + 1)
        else if c = CHR 0x0A then [CHR 0x5C, CHR ''n''] @ bt_escape_loop mb event_buf buf_size (i + 1)
        else if c = CHR 0x0D then [CHR 0x5C, CHR ''r''] @ bt_escape_loop mb event_buf buf_size (i + 1)
        else if c = CHR 0x09 then [CHR 0x5C, CHR ''t''] @ bt_escape_loop mb event_buf buf_size (i + 1)
        else if c = CHR 0x08 then [CHR 0x5C, CHR ''b''] @ bt_escape_loop mb event_buf buf_size (i + 1)
        else if c = CHR 0x0C then [CHR 0x5C, CHR ''f''] @ bt_escape_loop mb event_buf buf_size (i + 1)
        else if 32 \<le> ord c \<and> ord c \<le> 126 then c # bt_escape_loop mb event_buf buf_size (i + 1)
        else if 128 \<le> ord c then
          (let n = bt_validate_utf8_char mb (drop i event_buf) (buf_size - i) in
           if 0 < n then take n (drop i event_buf) @ bt_escape_loop mb event_buf buf_size (i + n)
           else u_escape c @ bt_escape_loop mb event_buf buf_size (i + 1))
        else u_escape c @ bt_escape_loop mb event_buf buf_size (i + 1)
      else [])"
  by pat_completeness auto
termination
  by (relation "measure (\<lambda>(mb, event_buf, buf_size, i). buf_size - i)") auto

declare bt_escape_loop.simps [simp del]

record browser_world =
  bw_readlink :: "bytes \<Rightarrow> bytes option"
  bw_mbrtowc :: mbrtowc_fn

definition bt_event_line :: "mbrtowc_fn \<Rightarrow> browser_event \<Rightarrow> bytes \<Rightarrow> nat \<Rightarrow> bytes" where
  "bt_event_line mb event event_buf buf_size =
     ''{'' @ ''\"function\":\"'' @ (if be_rw event = 0 then ''READ/RECV'' else ''WRITE/SEND'') @ ''\",'' @
     ''\"timestamp_ns\":'' @ dec_nat (unat (be_timestamp_ns event)) @ '','' @
     ''\"comm\":\"'' @ c_str (be_comm event) @ ''\",'' @
     ''\"pid\":'' @ dec_int (sint (be_pid event)) @ '','' @
     ''\"len\":'' @ dec_int (sint (be_len event)) @ '','' @
     ''\"buf_size\":'' @ dec_nat (unat (be_buf_size event)) @ '','' @
     ''\"uid\":'' @ dec_int (sint (be_uid event)) @ '','' @
     ''\"tid\":'' @ dec_int (sint (be_tid event)) @ '','' @
     ''\"latency_ms\":'' @ latency_ms (be_delta_ns event) @ '','' @
     ''\"data\":'' @
     (if buf_size = 0 then ''null,\"truncated\":false}'' @ [CHR 0x0A]
      else
        ''\"'' @ bt_escape_loop mb event_buf buf_size 0 @ ''\",'' @
        (if buf_size < unat (be_len event)
         then ''\"truncated\":true,\"bytes_lost\":'' @ dec_int (sint (be_len event - of_nat buf_size)) @ ''}'' @ [CHR 0x0A]
         else ''\"truncated\":false}'' @ [CHR 0x0A]))"

definition bt_print_event :: "browser_world \<Rightarrow> bt_opts \<Rightarrow> browser_event \<Rightarrow> browser_user \<Rightarrow> bytes \<times> browser_user" where
  "bt_print_event w env event u =
     (let buf_size = (if be_buf_filled event then min (unat (be_buf_size event)) BT_MAX_BUF_SIZE else 0);
          event_buf = (if 0 < buf_size then take buf_size (be_buf event) @ [NUL] @ drop (buf_size + 1) (bu_event_buf u) else bu_event_buf u);
          u1 = u\<lparr>bu_event_buf := event_buf\<rparr>
      in if bo_comm env \<noteq> None \<and> the (bo_comm env) \<noteq> c_str (be_comm event) then ([], u1)
         else (case target_process_matches (bw_readlink w) (be_pid event) u1 of
             (matched, u2) \<Rightarrow>
               if \<not> matched then ([], u2)
               else (bt_event_line (bw_mbrtowc w) event event_buf buf_size,
                     if bu_start u2 = 0 then u2\<lparr>bu_start := be_timestamp_ns event\<rparr> else u2)))"

fun bt_handle_events :: "bt_opts \<Rightarrow> (browser_world \<times> browser_event) list \<Rightarrow> browser_user \<Rightarrow> bytes \<times> browser_user" where
  "bt_handle_events env [] u = ([], u)"
| "bt_handle_events env ((w, e) # es) u =
     (case bt_print_event w env e u of (line, u1) \<Rightarrow> case bt_handle_events env es u1 of (out, u2) \<Rightarrow> (line @ out, u2))"

section \<open>The code: main\<close>

record bt_sys =
  bs_open :: bool
  bs_load :: int
  bs_alloc :: "bytes option"
  bs_host :: browser_host
  bs_attach :: bt_attach_fn
  bs_ring :: "int option"
  bs_signal :: bool

record bt_turn =
  bn_calls :: "(browser_prog \<times> browser_env) list"
  bn_poll :: int
  bn_worlds :: "nat \<Rightarrow> browser_world"

definition bt_rodata :: "bt_opts \<Rightarrow> browser_config" where
  "bt_rodata env = \<lparr>bt_targ_pid = (if bo_pid env = -1 then 0 else bo_pid env), bt_targ_uid = bo_uid env\<rparr>"

definition BT_EINTR :: int where
  "BT_EINTR = 4"

text \<open>Each turn: what the kernel side does until the poll returns, then the events it consumes. The list ends when \<open>exiting\<close> is set.\<close>

fun bt_loop :: "bt_opts \<Rightarrow> bt_turn list \<Rightarrow> int \<Rightarrow> browser_state \<Rightarrow> browser_user \<Rightarrow> int \<times> browser_state \<times> browser_user \<times> bytes" where
  "bt_loop env [] err st u = (err, st, u, [])"
| "bt_loop env (t # ts) err st u =
     (let st1 = fold (run_browser (bt_rodata env)) (bn_calls t) st in
      if bn_poll t < 0 \<and> bn_poll t \<noteq> - BT_EINTR then (bn_poll t, st1, u, [])
      else
        let n = nat (bn_poll t); evs = take n (bt_rb st1) in
        case bt_handle_events env (zip (map (bn_worlds t) [0..<length evs]) evs) u of
          (out, u1) \<Rightarrow>
            (case bt_loop env ts 0 (st1\<lparr>bt_rb := drop n (bt_rb st1)\<rparr>) u1 of
               (err', st', u', out') \<Rightarrow> (err', st', u', out @ out')))"

text \<open>
  The result has the exit status, what was attached while the loop ran (\<open>None\<close> when the loop was not
  reached), the output, and the links that are left after the cleanup.
\<close>

datatype bt_result = Bt_usage bt_opt_error | Bt_exit int "(bytes \<times> browser_links) option" bytes browser_links

definition bt_cleanup :: "int \<Rightarrow> (bytes \<times> browser_links) option \<Rightarrow> bytes \<Rightarrow> browser_links \<Rightarrow> bt_result" where
  "bt_cleanup err ran_with out links = Bt_exit (if err \<noteq> 0 then 1 else 0) ran_with out (destroy_browser_links links)"

definition bt_main :: "bt_sys \<Rightarrow> bt_arg list \<Rightarrow> bt_turn list \<Rightarrow> bt_result option" where
  "bt_main s argv turns =
     (case bt_parse_args argv bt_default_opts of
        Inl e \<Rightarrow> Some (Bt_usage e)
      | Inr env \<Rightarrow>
          if \<not> bs_open s then Some (bt_cleanup 0 None [] no_links)
          else if bs_load s \<noteq> 0 then Some (bt_cleanup (bs_load s) None [] no_links)
          else (case bs_alloc s of
              None \<Rightarrow> Some (bt_cleanup (-12) None [] no_links)
            | Some event_buf \<Rightarrow>
                (case resolve_target_binary (bs_host s) (the (bo_binary_path env)) BT_PATH_MAX of
                   None \<Rightarrow> Some (bt_cleanup (- BT_ENOENT) None [] no_links)
                 | Some attach_target \<Rightarrow>
                     let u = setup_target_process_filter (the (bo_binary_path env)) attach_target
                               \<lparr>target_pid_cache = empty_cache, target_exec_path = [], target_exec_basename = [], bu_event_buf = event_buf, bu_start = 0\<rparr>;
                         libs = detect_linked_tls_libraries (bs_host s) attach_target
                     in do { (err, links) \<leftarrow> attach_browser_target (bs_host s) (bs_attach s) attach_target libs no_links;
                             Some (if err \<noteq> 0 then bt_cleanup err None [] links
                                   else (case bs_ring s of
                                       Some errno \<Rightarrow> bt_cleanup (- errno) None [] links
                                     | None \<Rightarrow>
                                         if \<not> bs_signal s then bt_cleanup 1 None [] links
                                         else (case bt_loop env turns 0 bt_empty u of
                                             (err', st, u', out) \<Rightarrow> bt_cleanup err' (Some (attach_target, links)) out links))) })))"

section \<open>The cache\<close>

definition cache_ok :: "(pid_t \<Rightarrow> bool) \<Rightarrow> pid_cache \<Rightarrow> bool" where
  "cache_ok ans cache \<longleftrightarrow> length cache = TARGET_PID_CACHE_SIZE \<and> (\<forall>e\<in>set cache. tpc_valid e \<longrightarrow> tpc_matched e = ans (tpc_pid e))"

lemma cache_index_less: "cache_index pid i < TARGET_PID_CACHE_SIZE" "target_pid_cache_slot pid < TARGET_PID_CACHE_SIZE"
  by (simp_all add: cache_index_def target_pid_cache_slot_def TARGET_PID_CACHE_SIZE_def)

lemma lookup_probe_ok: "cache_ok ans cache \<Longrightarrow> lookup_probe cache pid i = Some m \<Longrightarrow> m = ans pid"
proof (induction cache pid i rule: lookup_probe.induct)
  case (1 cache pid i)
  have "cache ! cache_index pid i \<in> set cache" using 1(2) cache_index_less by (simp add: cache_ok_def)
  with 1 show ?case unfolding lookup_probe.simps[of cache pid i] by (auto simp: Let_def cache_ok_def split: if_splits)
qed

lemma cache_ok_update: "cache_ok ans cache \<Longrightarrow> cache_ok ans (cache[k := cache_entry pid (ans pid)])"
  by (auto simp: cache_ok_def cache_entry_def dest!: set_update_subset_insert[THEN subsetD])

lemma store_probe_ok: "cache_ok ans cache \<Longrightarrow> cache_ok ans (store_probe cache pid (ans pid) i)"
proof (induction cache pid "ans pid" i rule: store_probe.induct)
  case (1 cache pid i)
  then show ?case by (subst store_probe.simps) (simp add: Let_def cache_ok_update)
qed

text \<open>What was stored last for a process is found, also when the table is full and the home slot was overwritten.\<close>

lemma lookup_probe_at:
  assumes "k < TARGET_PID_CACHE_SIZE" "\<forall>j<k. tpc_valid (cache ! cache_index pid j) \<and> tpc_pid (cache ! cache_index pid j) \<noteq> pid"
    and "cache ! cache_index pid k = cache_entry pid m"
  shows "lookup_probe cache pid 0 = Some m"
proof -
  have "lookup_probe cache pid i = Some m" if "i \<le> k" for i
    using that
  proof (induction rule: inc_induct)
    case base
    then show ?case using assms(1,3) by (simp add: lookup_probe.simps[of cache pid k] cache_entry_def)
  next
    case (step i)
    then show ?case using assms(1,2) by (simp add: lookup_probe.simps[of cache pid i] Let_def)
  qed
  then show ?thesis by simp
qed

lemma cache_index_inj: "i < TARGET_PID_CACHE_SIZE \<Longrightarrow> j < TARGET_PID_CACHE_SIZE \<Longrightarrow> cache_index pid i = cache_index pid j \<longleftrightarrow> i = j"
  using dist_probe[OF cache_index_less(2)[of pid]] unfolding cache_index_def by metis

lemma lookup_store_probe:
  assumes "length cache = TARGET_PID_CACHE_SIZE"
    and "\<forall>j<i. tpc_valid (cache ! cache_index pid j) \<and> tpc_pid (cache ! cache_index pid j) \<noteq> pid" "i \<le> TARGET_PID_CACHE_SIZE"
  shows "lookup_probe (store_probe cache pid m i) pid 0 = Some m"
  using assms
proof (induction cache pid m i rule: store_probe.induct)
  case (1 cache pid m i)
  let ?e = "cache ! cache_index pid i"
  consider "i = TARGET_PID_CACHE_SIZE" | "i < TARGET_PID_CACHE_SIZE" "tpc_valid ?e \<and> tpc_pid ?e \<noteq> pid"
    | "i < TARGET_PID_CACHE_SIZE" "\<not> (tpc_valid ?e \<and> tpc_pid ?e \<noteq> pid)"
    using 1(4) by linarith
  then show ?case
  proof cases
    case 1
    have "cache_index pid 0 = target_pid_cache_slot pid" by (simp add: cache_index_def cache_index_less(2) target_pid_cache_slot_def)
    moreover have "store_probe cache pid m i = cache[target_pid_cache_slot pid := cache_entry pid m]"
      by (subst store_probe.simps) (simp add: 1)
    ultimately show ?thesis
      using \<open>length cache = _\<close> cache_index_less(2)[of pid]
      by (intro lookup_probe_at[of 0]) (simp_all add: TARGET_PID_CACHE_SIZE_def)
  next
    case 2
    then have "\<forall>j<i + 1. tpc_valid (cache ! cache_index pid j) \<and> tpc_pid (cache ! cache_index pid j) \<noteq> pid"
      using 1(3) by (auto simp: less_Suc_eq)
    then show ?thesis using 1(1)[OF 2(1) refl 2(2) 1(2)] 2 by (simp add: store_probe.simps[of cache pid m i] Let_def)
  next
    case 3
    then show ?thesis
      using 1(2,3) cache_index_less(1)[of pid i]
      by (intro lookup_probe_at[of i]) (auto simp: store_probe.simps[of cache pid m i] Let_def cache_index_inj)
  qed
qed

lemma lookup_after_store:
  "length cache = TARGET_PID_CACHE_SIZE \<Longrightarrow> lookup_target_pid_cache (store_target_pid_cache cache pid m) pid = Some m"
  by (simp add: lookup_target_pid_cache_def store_target_pid_cache_def lookup_store_probe)

section \<open>The escape\<close>

lemma bt_validate_eq: "bt_validate_utf8_char mb str remaining = validate_utf8_char mb str remaining"
  unfolding bt_validate_utf8_char_def Let_def expected_len_def[symmetric] codepoint2_def[symmetric] codepoint3_def[symmetric]
    codepoint4_def[symmetric] validate_utf8_char_def
  by (cases "mb (take (expected_len (str ! 0)) str)") simp_all

lemma validate_le: "validate_utf8_char mb str r \<le> r"
  by (auto simp: validate_utf8_char_def Let_def split: mb_result.split)

lemma validate_take:
  assumes "n \<le> length str"
  shows "validate_utf8_char mb (take n str) n = validate_utf8_char mb str n"
proof (cases "n = 0 \<or> n < expected_len (str ! 0)")
  case False
  let ?k = "expected_len (str ! 0)"
  have k: "?k = 0 \<or> ?k = 2 \<or> ?k = 3 \<or> ?k = 4" by (simp add: expected_len_def)
  have cp: "2 \<le> n \<Longrightarrow> codepoint2 (take n str) = codepoint2 str" "3 \<le> n \<Longrightarrow> codepoint3 (take n str) = codepoint3 str"
    "4 \<le> n \<Longrightarrow> codepoint4 (take n str) = codepoint4 str"
    by (simp_all add: codepoint2_def codepoint3_def codepoint4_def)
  have hd: "take n str ! 0 = str ! 0" and pre: "take ?k (take n str) = take ?k str" using False by (simp_all add: min_def)
  show ?thesis
    unfolding validate_utf8_char_def Let_def hd pre
    using False k cp by (cases "mb (take ?k str)"; elim disjE) (simp_all split del: if_split cong: if_cong)
next
  case True
  then show ?thesis
  proof
    assume "n < expected_len (str ! 0)"
    then show ?thesis by (cases "n = 0") (simp_all add: validate_utf8_char_def Let_def)
  qed (simp add: validate_utf8_char_def)
qed

lemma bt_escape_loop_eq:
  assumes "n \<le> length buf"
  shows "bt_escape_loop mb buf n i = json_escape_loop mb (drop i (take n buf))"
proof (induction "n - i" arbitrary: i rule: less_induct)
  case less
  show ?case
  proof (cases "i < n")
    case True
    let ?c = "buf ! i" and ?cs = "drop (i + 1) (take n buf)" and ?v = "bt_validate_utf8_char mb (drop i buf) (n - i)"
    have cs: "drop i (take n buf) = ?c # ?cs" using True assms by (simp add: Cons_nth_drop_Suc[symmetric])
    have v: "validate_utf8_char mb (?c # ?cs) (length (?c # ?cs)) = ?v"
      using validate_take[of "n - i" "drop i buf" mb] True assms unfolding cs[symmetric] bt_validate_eq by (simp add: drop_take)
    have "?v \<le> n - i" by (simp add: bt_validate_eq validate_le)
    then have k: "take ?v (drop i buf) = take ?v (?c # ?cs)" "drop ?v (?c # ?cs) = drop (i + ?v) (take n buf)"
      unfolding cs[symmetric] by (simp_all add: drop_take min_def add.commute)
    have IH: "bt_escape_loop mb buf n j = json_escape_loop mb (drop j (take n buf))" if "i < j" for j
      using less[of j] that True by linarith
    have IH1: "bt_escape_loop mb buf n (i + 1) = json_escape_loop mb ?cs" by (rule IH) simp
    have IHv: "bt_escape_loop mb buf n (i + ?v) = json_escape_loop mb (drop ?v (?c # ?cs))" if "0 < ?v" unfolding k(2) by (rule IH) (use that in simp)
    show ?thesis
      unfolding cs bt_escape_loop.simps[of mb buf n i] json_escape_loop.simps(2) Let_def if_P[OF True] IH1 v k(1)
      using IHv by (simp split del: if_split cong: if_cong)
  qed (simp add: bt_escape_loop.simps[of mb buf n i] json_escape_loop.simps(1))
qed

section \<open>What is printed\<close>

text \<open>Without the cache and the buffer: whether a process runs the target, and the fields of an event's line.\<close>

definition runs_target :: "bytes \<Rightarrow> bytes \<Rightarrow> (bytes \<Rightarrow> bytes option) \<Rightarrow> pid_t \<Rightarrow> bool" where
  "runs_target path base readlink pid =
     (case readlink (proc_exe_path pid) of
        None \<Rightarrow> False
      | Some raw \<Rightarrow>
          let exe = c_str (take 4095 raw) in
          take 4095 raw \<noteq> [] \<and> ((path \<noteq> [] \<and> exe = path) \<or> (base \<noteq> [] \<and> path_basename_ptr exe = base)))"

definition bt_payload :: "browser_event \<Rightarrow> bytes" where
  "bt_payload e = (if be_buf_filled e then take (min (unat (be_buf_size e)) BT_MAX_BUF_SIZE) (be_buf e) else [])"

definition bt_fields :: "mbrtowc_fn \<Rightarrow> browser_event \<Rightarrow> (bytes \<times> jval) list" where
  "bt_fields mb e =
     [(''function'', JStr (if be_rw e = 0 then ''READ/RECV'' else ''WRITE/SEND'')),
      (''timestamp_ns'', JLit (dec_nat (unat (be_timestamp_ns e)))), (''comm'', JStr (c_str (be_comm e))),
      (''pid'', JLit (dec_int (sint (be_pid e)))), (''len'', JLit (dec_int (sint (be_len e)))),
      (''buf_size'', JLit (dec_nat (unat (be_buf_size e)))), (''uid'', JLit (dec_int (sint (be_uid e)))),
      (''tid'', JLit (dec_int (sint (be_tid e)))), (''latency_ms'', JLit (latency_ms (be_delta_ns e)))] @
     (let p = bt_payload e in
      if p = [] then [(''data'', JLit ''null''), (''truncated'', JLit ''false'')]
      else (''data'', JStr (json_print_escaped mb p (length p))) #
        (if length p < unat (be_len e)
         then [(''truncated'', JLit ''true''), (''bytes_lost'', JLit (dec_int (sint (be_len e - of_nat (length p)))))]
         else [(''truncated'', JLit ''false'')]))"

definition bt_selected :: "browser_world \<Rightarrow> bt_opts \<Rightarrow> browser_user \<Rightarrow> browser_event \<Rightarrow> bool" where
  "bt_selected w env u e \<longleftrightarrow>
     (case bo_comm env of None \<Rightarrow> True | Some c \<Rightarrow> c = c_str (be_comm e)) \<and>
     runs_target (target_exec_path u) (target_exec_basename u) (bw_readlink w) (be_pid e)"

definition user_ok :: "(bytes \<Rightarrow> bytes option) \<Rightarrow> browser_user \<Rightarrow> bool" where
  "user_ok readlink u \<longleftrightarrow> cache_ok (runs_target (target_exec_path u) (target_exec_basename u) readlink) (target_pid_cache u) \<and>
     target_exec_path u \<noteq> [] \<and> length (bu_event_buf u) = BT_MAX_BUF_SIZE + 1"

lemma target_process_matches_ok:
  assumes "user_ok readlink u"
  shows "fst (target_process_matches readlink pid u) = runs_target (target_exec_path u) (target_exec_basename u) readlink pid"
    and "user_ok readlink (snd (target_process_matches readlink pid u))"
    and "target_exec_path (snd (target_process_matches readlink pid u)) = target_exec_path u"
    and "target_exec_basename (snd (target_process_matches readlink pid u)) = target_exec_basename u"
proof -
  let ?ans = "runs_target (target_exec_path u) (target_exec_basename u) readlink"
  have c: "cache_ok ?ans (target_pid_cache u)" "target_exec_path u \<noteq> []" using assms by (simp_all add: user_ok_def)
  have hit: "lookup_target_pid_cache (target_pid_cache u) pid = Some m \<Longrightarrow> m = ?ans pid" for m
    using lookup_probe_ok[OF c(1)] by (simp add: lookup_target_pid_cache_def)
  have eq: "target_process_matches readlink pid u =
      (?ans pid, if lookup_target_pid_cache (target_pid_cache u) pid = None
        then u\<lparr>target_pid_cache := store_target_pid_cache (target_pid_cache u) pid (?ans pid)\<rparr> else u)"
    using c(2) hit by (auto simp: target_process_matches_def runs_target_def Let_def BT_PATH_MAX_def split: option.split)
  have "cache_ok ?ans (store_target_pid_cache (target_pid_cache u) pid (?ans pid))"
    using store_probe_ok[OF c(1)] by (simp add: store_target_pid_cache_def)
  then show "fst (target_process_matches readlink pid u) = ?ans pid" "user_ok readlink (snd (target_process_matches readlink pid u))"
    "target_exec_path (snd (target_process_matches readlink pid u)) = target_exec_path u"
    "target_exec_basename (snd (target_process_matches readlink pid u)) = target_exec_basename u"
    using assms unfolding eq by (simp_all add: user_ok_def)
qed

lemma bt_event_line_render:
  assumes "length (be_buf e) = BT_MAX_BUF_SIZE" "n = (if be_buf_filled e then min (unat (be_buf_size e)) BT_MAX_BUF_SIZE else 0)"
  shows "bt_event_line mb e (if 0 < n then take n (be_buf e) @ [NUL] @ rest else buf) n = render_line (bt_fields mb e)"
proof (cases "n = 0")
  case True
  then have "bt_payload e = []" using assms(2) by (auto simp: bt_payload_def)
  with True show ?thesis by (simp add: bt_event_line_def bt_fields_def render_line_def render_member_def)
next
  case False
  then have p: "bt_payload e = take n (be_buf e)" "length (bt_payload e) = n" "bt_payload e \<noteq> []"
    using assms by (auto simp: bt_payload_def split: if_splits)
  have "bt_escape_loop mb (take n (be_buf e) @ [NUL] @ rest) n 0 = json_print_escaped mb (bt_payload e) n"
    using p(2) unfolding p(1) by (subst bt_escape_loop_eq) (simp_all add: json_print_escaped_def)
  with False p show ?thesis by (simp add: bt_event_line_def bt_fields_def render_line_def render_member_def Let_def)
qed

lemma bt_print_event_render:
  assumes "user_ok (bw_readlink w) u" "length (be_buf e) = BT_MAX_BUF_SIZE"
  shows "fst (bt_print_event w env e u) = (if bt_selected w env u e then render_line (bt_fields (bw_mbrtowc w) e) else [])"
    and "user_ok (bw_readlink w) (snd (bt_print_event w env e u))"
    and "target_exec_path (snd (bt_print_event w env e u)) = target_exec_path u"
    and "target_exec_basename (snd (bt_print_event w env e u)) = target_exec_basename u"
proof -
  let ?n = "if be_buf_filled e then min (unat (be_buf_size e)) BT_MAX_BUF_SIZE else 0"
  let ?buf = "if 0 < ?n then take ?n (be_buf e) @ [NUL] @ drop (?n + 1) (bu_event_buf u) else bu_event_buf u"
  let ?u1 = "u\<lparr>bu_event_buf := ?buf\<rparr>"
  have "user_ok (bw_readlink w) ?u1" using assms by (auto simp: user_ok_def)
  note m = target_process_matches_ok[OF this, of "be_pid e"]
  obtain matched u2 where u2: "target_process_matches (bw_readlink w) (be_pid e) ?u1 = (matched, u2)" by fastforce
  then have m2: "matched = runs_target (target_exec_path u) (target_exec_basename u) (bw_readlink w) (be_pid e)" "user_ok (bw_readlink w) u2"
    "target_exec_path u2 = target_exec_path u" "target_exec_basename u2 = target_exec_basename u"
    using m by simp_all
  have ok_start: "user_ok r (x\<lparr>bu_start := t\<rparr>) = user_ok r x" for r x t by (simp add: user_ok_def)
  have line: "bt_event_line (bw_mbrtowc w) e ?buf ?n = render_line (bt_fields (bw_mbrtowc w) e)"
    by (rule bt_event_line_render[OF assms(2) refl])
  have eq: "bt_print_event w env e u =
      (if bo_comm env \<noteq> None \<and> the (bo_comm env) \<noteq> c_str (be_comm e) then ([], ?u1)
       else if \<not> matched then ([], u2)
       else (render_line (bt_fields (bw_mbrtowc w) e), if bu_start u2 = 0 then u2\<lparr>bu_start := be_timestamp_ns e\<rparr> else u2))"
    unfolding bt_print_event_def Let_def u2 line by simp
  have sel: "bt_selected w env u e \<longleftrightarrow> \<not> (bo_comm env \<noteq> None \<and> the (bo_comm env) \<noteq> c_str (be_comm e)) \<and> matched"
    by (auto simp: bt_selected_def m2(1) split: option.split)
  show "fst (bt_print_event w env e u) = (if bt_selected w env u e then render_line (bt_fields (bw_mbrtowc w) e) else [])"
    unfolding eq sel by auto
  show "user_ok (bw_readlink w) (snd (bt_print_event w env e u))"
    using \<open>user_ok (bw_readlink w) ?u1\<close> m2(2) unfolding eq by (simp add: ok_start)
  show "target_exec_path (snd (bt_print_event w env e u)) = target_exec_path u"
    "target_exec_basename (snd (bt_print_event w env e u)) = target_exec_basename u"
    using m2(3,4) unfolding eq by simp_all
qed

lemma bt_handle_events_ok:
  assumes "\<forall>(w, e)\<in>set wes. bw_readlink w = readlink \<and> length (be_buf e) = BT_MAX_BUF_SIZE" "user_ok readlink u"
  shows "fst (bt_handle_events env wes u) =
    concat (map (\<lambda>(w, e). if bt_selected w env u e then render_line (bt_fields (bw_mbrtowc w) e) else []) wes)"
  using assms
proof (induction wes arbitrary: u)
  case (Cons we wes)
  obtain w e where we: "we = (w, e)" by (cases we)
  then have w: "bw_readlink w = readlink" "length (be_buf e) = BT_MAX_BUF_SIZE" using Cons.prems(1) by simp_all
  obtain line u1 where u1: "bt_print_event w env e u = (line, u1)" by fastforce
  note p = bt_print_event_render[of w u e env, unfolded w u1 fst_conv snd_conv, OF Cons.prems(2) refl]
  have sel: "bt_selected w' env u1 e' = bt_selected w' env u e'" for w' e' using p(3,4) by (simp add: bt_selected_def)
  have "fst (bt_handle_events env wes u1) =
      concat (map (\<lambda>(w, e). if bt_selected w env u e then render_line (bt_fields (bw_mbrtowc w) e) else []) wes)"
    using Cons.IH[OF _ p(2)] Cons.prems(1) unfolding sel by simp
  then show ?case by (cases "bt_handle_events env wes u1") (simp add: we u1 p(1))
qed simp

lemma length_basename: "length (path_basename_ptr p) \<le> length p"
  using length_takeWhile_le[of _ "rev p"] by (auto simp: path_basename_ptr_def after_last_def split: option.split)

lemma user_ok_setup:
  assumes "target \<noteq> []" "length target < BT_PATH_MAX" "length (bu_event_buf u) = BT_MAX_BUF_SIZE + 1"
  shows "user_ok readlink (setup_target_process_filter req target u)"
    and "target_exec_path (setup_target_process_filter req target u) = target"
    and "target_exec_basename (setup_target_process_filter req target u) = path_basename_ptr target"
  using assms length_basename[of target]
  by (simp_all add: setup_target_process_filter_def user_ok_def cache_ok_def empty_cache_def copy_string_id)

text \<open>
  C18: What the browser tracer prints. While the processes keep the programs they run, the output is the
  lines of exactly those events whose process runs the target (by path or by file name) and whose command
  name passes the filter, in order: neither the cache of processes, with its collisions and evictions, nor
  the bytes that earlier events left in the buffer have any influence.
\<close>

theorem browser_output_exact:
  assumes "\<forall>(w, e)\<in>set wes. bw_readlink w = readlink \<and> length (be_buf e) = BT_MAX_BUF_SIZE"
    and "target \<noteq> []" "length target < BT_PATH_MAX" "length (bu_event_buf u) = BT_MAX_BUF_SIZE + 1"
  shows "fst (bt_handle_events env wes (setup_target_process_filter req target u)) =
    concat (map (\<lambda>(w, e). if bo_comm env \<in> {None, Some (c_str (be_comm e))} \<and> runs_target target (path_basename_ptr target) readlink (be_pid e)
      then render_line (bt_fields (bw_mbrtowc w) e) else []) wes)"
proof -
  note u = user_ok_setup[OF assms(2-4), where req = req]
  have comm: "(case bo_comm env of None \<Rightarrow> True | Some c \<Rightarrow> c = c_str (be_comm e)) \<longleftrightarrow> bo_comm env \<in> {None, Some (c_str (be_comm e))}" for e :: browser_event
    by (auto split: option.split)
  show ?thesis
    unfolding bt_handle_events_ok[OF assms(1) u(1)] bt_selected_def u(2,3) comm
    using assms(1) by (intro arg_cong[of _ _ concat] map_cong[OF refl]) auto
qed

definition bt_demo_event :: browser_event where
  "bt_demo_event = bt_demo_slot\<lparr>be_pid := 5, be_len := 9, be_buf_size := 2, be_buf_filled := True, be_rw := 1, be_comm := ''firefox'',
     be_buf := ''hi'' @ replicate (BT_MAX_BUF_SIZE - 2) NUL\<rparr>"

definition bt_demo_world :: browser_world where
  "bt_demo_world = \<lparr>bw_readlink = (\<lambda>_. Some ''/usr/lib/firefox/firefox''), bw_mbrtowc = mbrtowc_utf8\<rparr>"

definition bt_demo_user :: browser_user where
  "bt_demo_user = \<lparr>target_pid_cache = empty_cache, target_exec_path = [], target_exec_basename = [],
     bu_event_buf = replicate (BT_MAX_BUF_SIZE + 1) (CHR ''x''), bu_start = 0\<rparr>"

lemma bt_demo_event_facts:
  "browser_event_ok bt_demo_event" "length (be_buf bt_demo_event) = BT_MAX_BUF_SIZE" "be_buf_filled bt_demo_event" "be_rw bt_demo_event = 1"
  "0 < be_buf_size bt_demo_event" "be_buf_size bt_demo_event < be_len bt_demo_event" "json_chars (c_str (be_comm bt_demo_event))"
  "take (unat (be_buf_size bt_demo_event)) (be_buf bt_demo_event) = ''hi''"
proof -
  have size: "BT_MAX_BUF_SIZE = Suc (Suc (BT_MAX_BUF_SIZE - 2))" by (simp add: BT_MAX_BUF_SIZE_def)
  show "length (be_buf bt_demo_event) = BT_MAX_BUF_SIZE" using size by (simp add: bt_demo_event_def)
  then show "browser_event_ok bt_demo_event" by (simp add: browser_event_ok_def bt_demo_event_def BT_MAX_BUF_SIZE_def)
qed (simp_all add: bt_demo_event_def)

theorem browser_output_exact_witness:
  "fst (bt_handle_events bt_default_opts [(bt_demo_world, bt_demo_event), (bt_demo_world, bt_demo_event)]
      (setup_target_process_filter ''firefox'' ''/usr/lib/firefox/firefox'' bt_demo_user)) =
    render_line (bt_fields mbrtowc_utf8 bt_demo_event) @ render_line (bt_fields mbrtowc_utf8 bt_demo_event)"
proof -
  let ?t = "''/usr/lib/firefox/firefox''"
  have t: "runs_target ?t (path_basename_ptr ?t) (bw_readlink bt_demo_world) pid" for pid
    by (simp add: runs_target_def bt_demo_world_def)
  show ?thesis
    using browser_output_exact[of "[(bt_demo_world, bt_demo_event), (bt_demo_world, bt_demo_event)]" "bw_readlink bt_demo_world" ?t
        bt_demo_user bt_default_opts "''firefox''"] t
    by (simp add: bt_demo_event_facts bt_default_opts_def BT_PATH_MAX_def) (simp add: bt_demo_user_def bt_demo_world_def)
qed

lemma bt_fields_ok:
  assumes "multibyte mb" "json_chars (c_str (be_comm e))"
  shows "list_all member_ok (bt_fields mb e)"
proof -
  have "json_chars (json_print_escaped mb b n)" for b n
    unfolding json_print_escaped_def by (rule multibyte.escape_loop_json[OF assms(1)])
  moreover have "json_chars s" if "s \<in> {''function'', ''timestamp_ns'', ''comm'', ''pid'', ''len'', ''buf_size'', ''uid'', ''tid'',
      ''latency_ms'', ''data'', ''truncated'', ''bytes_lost'', ''READ/RECV'', ''WRITE/SEND''}" for s
    using that by (auto intro!: json_chars_ascii)
  ultimately show ?thesis using assms(2) by (simp add: bt_fields_def member_ok_def Let_def)
qed

text \<open>
  The line of a browser event is a JSON object for any captured bytes, provided the command name needs
  no escape. When the captured bytes are UTF-8 text, reading the object back gives exactly these bytes,
  and the object says whether more was moved than captured.
\<close>

theorem browser_line_roundtrip:
  assumes "user_ok (bw_readlink w) u" "browser_event_ok e" "multibyte (bw_mbrtowc w)" "json_chars (c_str (be_comm e))"
    and "bt_selected w env u e" "be_buf_filled e"
  shows "\<exists>ms. parse_line (fst (bt_print_event w env e u)) = Some ms \<and>
    map_of ms ''function'' = Some (JStr ([''READ/RECV'', ''WRITE/SEND''] ! nat (be_rw e))) \<and>
    (utf8_mbrtowc (bw_mbrtowc w) \<longrightarrow> 0 < be_buf_size e \<longrightarrow> utf8_text (take (unat (be_buf_size e)) (be_buf e)) \<longrightarrow>
      (\<exists>s. map_of ms ''data'' = Some (JStr s) \<and> json_unescape s = Some (take (unat (be_buf_size e)) (be_buf e)) \<and>
        map_of ms ''truncated'' = Some (JLit (if be_buf_size e < be_len e then ''true'' else ''false''))))"
proof -
  let ?k = "unat (be_buf_size e)"
  have k: "bt_payload e = take ?k (be_buf e)" "length (take ?k (be_buf e)) = ?k" "be_rw e = 0 \<or> be_rw e = 1" "length (be_buf e) = BT_MAX_BUF_SIZE"
    using assms(2,6) by (auto simp: bt_payload_def browser_event_ok_def min_def)
  have "parse_line (render_line (bt_fields (bw_mbrtowc w) e)) = Some (bt_fields (bw_mbrtowc w) e)"
    by (rule parse_line_render[OF _ bt_fields_ok[OF assms(3,4)]]) (simp add: bt_fields_def)
  moreover have "fst (bt_print_event w env e u) = render_line (bt_fields (bw_mbrtowc w) e)"
    using bt_print_event_render(1)[OF assms(1) k(4)] assms(5) by simp
  moreover have "map_of (bt_fields (bw_mbrtowc w) e) ''function'' = Some (JStr ([''READ/RECV'', ''WRITE/SEND''] ! nat (be_rw e)))"
    using k(3) by (auto simp: bt_fields_def)
  moreover have "\<exists>s. map_of (bt_fields (bw_mbrtowc w) e) ''data'' = Some (JStr s) \<and> json_unescape s = Some (take ?k (be_buf e)) \<and>
      map_of (bt_fields (bw_mbrtowc w) e) ''truncated'' = Some (JLit (if be_buf_size e < be_len e then ''true'' else ''false''))"
    if "utf8_mbrtowc (bw_mbrtowc w)" "0 < be_buf_size e" "utf8_text (take ?k (be_buf e))"
  proof -
    have "take ?k (be_buf e) \<noteq> []" using k(2) that(2) by (metis length_0_conv unat_eq_0 word_gt_0)
    then show ?thesis
      using utf8_mbrtowc.escape_loop_unescape[OF that(1,3)] k(2)
      by (simp add: bt_fields_def k(1) Let_def json_print_escaped_def word_less_nat_alt)
  qed
  ultimately show ?thesis by simp
qed

theorem browser_line_roundtrip_witness:
  "\<exists>ms s. parse_line (fst (bt_print_event bt_demo_world bt_default_opts bt_demo_event
      (setup_target_process_filter ''firefox'' ''/usr/lib/firefox/firefox'' bt_demo_user))) = Some ms \<and>
    map_of ms ''function'' = Some (JStr ''WRITE/SEND'') \<and> map_of ms ''data'' = Some (JStr s) \<and> json_unescape s = Some ''hi'' \<and>
    map_of ms ''truncated'' = Some (JLit ''true'')"
proof -
  let ?t = "''/usr/lib/firefox/firefox''"
  have u: "user_ok (bw_readlink bt_demo_world) (setup_target_process_filter ''firefox'' ?t bt_demo_user)"
    "target_exec_path (setup_target_process_filter ''firefox'' ?t bt_demo_user) = ?t"
    "target_exec_basename (setup_target_process_filter ''firefox'' ?t bt_demo_user) = path_basename_ptr ?t"
    by (rule user_ok_setup; simp add: BT_PATH_MAX_def bt_demo_user_def)+
  have sel: "bt_selected bt_demo_world bt_default_opts (setup_target_process_filter ''firefox'' ?t bt_demo_user) bt_demo_event"
    unfolding bt_selected_def u(2,3) by (simp add: bt_default_opts_def runs_target_def bt_demo_world_def)
  have mb: "multibyte (bw_mbrtowc bt_demo_world)" "utf8_mbrtowc (bw_mbrtowc bt_demo_world)"
    by (simp_all add: bt_demo_world_def utf8_locale.multibyte_axioms utf8_locale.utf8_mbrtowc_axioms)
  have "utf8_text ''hi''" by (simp add: Let_def utf8_len.simps)
  then show ?thesis
    using browser_line_roundtrip[OF u(1) bt_demo_event_facts(1) mb(1) bt_demo_event_facts(7) sel bt_demo_event_facts(3)]
      mb(2) bt_demo_event_facts(4-6,8) by auto
qed

text \<open>The answer for a process is kept: whatever program the number stands for later, the first answer is given again.\<close>

lemma cached_answer_kept:
  assumes "target_exec_path u \<noteq> []" "length (target_pid_cache u) = TARGET_PID_CACHE_SIZE"
  shows "fst (target_process_matches readlink' pid (snd (target_process_matches readlink pid u))) = fst (target_process_matches readlink pid u)"
  using assms lookup_after_store[OF assms(2)]
  by (auto simp: target_process_matches_def Let_def split: option.split)

section \<open>Runs of the tracer\<close>

text \<open>A tracer whose BPF object cannot be opened ends with the status of success.\<close>

lemma bt_open_failure_status:
  assumes "bt_parse_args argv bt_default_opts = Inr env" "\<not> bs_open s"
  shows "\<exists>left. bt_main s argv turns = Some (Bt_exit 0 None [] left)"
  using assms by (simp add: bt_main_def bt_cleanup_def)

definition bt_run_ok :: "bt_sys \<Rightarrow> bt_result \<Rightarrow> bool" where
  "bt_run_ok s res =
     (case res of
        Bt_usage e \<Rightarrow> True
      | Bt_exit status ran_with out left \<Rightarrow>
          status \<in> {0, 1} \<and> live left = {} \<and>
          (case ran_with of
             None \<Rightarrow> out = []
           | Some (target, links) \<Rightarrow>
               file_is_elf (bs_host s) target \<and>
               (\<exists>ps. complete_browser_probes (bs_host s) target (detect_linked_tls_libraries (bs_host s) target) ps \<and>
                  live links = set ps \<and> list_all (\<lambda>l. bs_attach s l = 0) ps)))"

text \<open>
  C16: Every run of the browser tracer ends, reads nothing outside the files it searches, and leaves no
  probe behind, whichever step fails. It prints something only after it has attached the complete set of
  probes to an ELF file that the command line leads to.
\<close>

theorem browser_main_safe:
  assumes "\<forall>p r. bh_realpath (bs_host s) p = Some r \<longrightarrow> length r < BT_PATH_MAX"
  shows "\<exists>res. bt_main s argv turns = Some res \<and> bt_run_ok s res"
proof -
  have none: "live (destroy_browser_links no_links) = {}" by (rule live_destroy) (simp add: no_links_def)
  have early: "bt_run_ok s (bt_cleanup err None [] links)" if "live (destroy_browser_links links) = {}" for err links
    using that by (simp add: bt_run_ok_def bt_cleanup_def)
  show ?thesis
  proof (cases "\<exists>env buf target. bt_parse_args argv bt_default_opts = Inr env \<and> bs_open s \<and> bs_load s = 0 \<and> bs_alloc s = Some buf \<and>
      resolve_target_binary (bs_host s) (the (bo_binary_path env)) BT_PATH_MAX = Some target")
    case True
    then obtain env buf target where env: "bt_parse_args argv bt_default_opts = Inr env" "bs_open s" "bs_load s = 0" "bs_alloc s = Some buf"
      and target: "resolve_target_binary (bs_host s) (the (bo_binary_path env)) BT_PATH_MAX = Some target" by blast
    have elf: "file_is_elf (bs_host s) target"
      using resolve_loop_elf[OF assms] target length_copy_string by (auto simp: resolve_target_binary_def)
    let ?libs = "detect_linked_tls_libraries (bs_host s) target"
    obtain err links where att: "attach_browser_target (bs_host s) (bs_attach s) target ?libs no_links = Some (err, links)"
      and complete: "if err = 0 then \<exists>ps. complete_browser_probes (bs_host s) target ?libs ps \<and> live links = set ps \<and>
        list_all (\<lambda>l. bs_attach s l = 0) ps else live links = {}"
      using attach_browser_target_all by blast
    note left = attach_browser_target_skel[OF att]
    have "bt_run_ok s (bt_cleanup err' (Some (target, links)) out links)" if "err = 0" for err' out
      using that elf complete left by (simp add: bt_run_ok_def bt_cleanup_def)
    with early[OF left] env target att show ?thesis
      by (auto simp: bt_main_def Let_def split: option.split prod.split)
  next
    case False
    then show ?thesis using early[OF none] by (auto simp: bt_main_def bt_run_ok_def split: sum.split option.split)
  qed
qed

definition bt_demo_sys :: bt_sys where
  "bt_demo_sys = \<lparr>bs_open = True, bs_load = 0, bs_alloc = Some [], bs_host = chrome_wrapper_host, bs_attach = (\<lambda>_. 0), bs_ring = None, bs_signal = True\<rparr>"

theorem browser_main_safe_witness:
  "\<exists>res. bt_main bt_demo_sys [BA_binary_path ''/opt/chrome/google-chrome''] [] = Some res \<and> bt_run_ok bt_demo_sys res"
  by (rule browser_main_safe) (simp add: bt_demo_sys_def chrome_wrapper_host_def)

section \<open>The output of a run\<close>

text \<open>An event that the programs may emit under a configuration.\<close>

definition kernel_ok :: "browser_config \<Rightarrow> browser_event \<Rightarrow> bool" where
  "kernel_ok cfg e \<longleftrightarrow> browser_event_ok e \<and> bt_trace_allowed cfg (be_uid e) (be_pid e)"

lemma bt_event_ids: "be_pid (bt_event env delta len rw a d) = cur_tgid env" "be_uid (bt_event env delta len rw a d) = ucast (uid_gid env)"
  by (simp_all add: bt_event_def Let_def split: prod.split)

lemma run_browser_kernel_ok:
  assumes "browser_slot_ok (snd p)" "list_all (kernel_ok cfg) (bt_rb st)"
  shows "list_all (kernel_ok cfg) (bt_rb (run_browser cfg p st))"
proof (cases p)
  case (Pair prog env)
  have ev: "kernel_ok cfg (bt_event env delta len rw a d)" if "bt_allowed cfg env" "bt_slot env = Some d" "rw \<in> {0, 1}" for delta len rw a d
    using that assms(1) Pair by (auto simp: kernel_ok_def browser_slot_ok_def bt_event_ids bt_allowed_def intro!: bt_event_ok)
  show ?thesis using assms(2) unfolding Pair
    by (cases prog) (auto simp: browser_defs Let_def ev split: option.split)
qed

lemma run_browsers_kernel_ok:
  "\<forall>p\<in>set ps. browser_slot_ok (snd p) \<Longrightarrow> list_all (kernel_ok cfg) (bt_rb st) \<Longrightarrow> list_all (kernel_ok cfg) (bt_rb (fold (run_browser cfg) ps st))"
  by (induction ps arbitrary: st) (simp_all add: run_browser_kernel_ok)

lemma bt_handle_events_user:
  assumes "\<forall>(w, e)\<in>set wes. bw_readlink w = readlink \<and> length (be_buf e) = BT_MAX_BUF_SIZE" "user_ok readlink u"
  shows "user_ok readlink (snd (bt_handle_events env wes u)) \<and> bt_selected w' env (snd (bt_handle_events env wes u)) e' = bt_selected w' env u e'"
  using assms
proof (induction wes arbitrary: u)
  case (Cons we wes)
  obtain w e where we: "we = (w, e)" by (cases we)
  then have w: "bw_readlink w = readlink" "length (be_buf e) = BT_MAX_BUF_SIZE" using Cons.prems(1) by simp_all
  obtain line u1 where u1: "bt_print_event w env e u = (line, u1)" by fastforce
  note p = bt_print_event_render[of w u e env, unfolded w u1 fst_conv snd_conv, OF Cons.prems(2) refl]
  have "bt_selected w' env u1 e' = bt_selected w' env u e'" using p(3,4) by (simp add: bt_selected_def)
  with Cons.IH[OF _ p(2)] Cons.prems(1) show ?case by (cases "bt_handle_events env wes u1") (simp add: we u1)
qed simp

definition line_of :: "browser_world \<times> browser_event \<Rightarrow> bytes" where
  "line_of we = render_line (bt_fields (bw_mbrtowc (fst we)) (snd we))"

lemma concat_filtered: "concat (map (\<lambda>x. if P x then f x else []) xs) = concat (map f (filter P xs))"
  by (induction xs) simp_all

definition bt_turn_ok :: "(bytes \<Rightarrow> bytes option) \<Rightarrow> bt_turn \<Rightarrow> bool" where
  "bt_turn_ok readlink t \<longleftrightarrow> (\<forall>p\<in>set (bn_calls t). browser_slot_ok (snd p)) \<and> (\<forall>i. bw_readlink (bn_worlds t i) = readlink)"

lemma bt_loop_lines:
  assumes "list_all (bt_turn_ok readlink) ts" "user_ok readlink u" "list_all (kernel_ok (bt_rodata env)) (bt_rb st)"
    and "bt_loop env ts err st u = (err', st', u', out)"
  shows "\<exists>es. out = concat (map line_of es) \<and>
    list_all (\<lambda>(w, e). kernel_ok (bt_rodata env) e \<and> bw_readlink w = readlink \<and> bt_selected w env u e) es"
  using assms
proof (induction ts arbitrary: u st err err' st' u' out)
  case (Cons t ts)
  let ?st1 = "fold (run_browser (bt_rodata env)) (bn_calls t) st"
  have ok: "list_all (kernel_ok (bt_rodata env)) (bt_rb ?st1)" using Cons.prems(1,3) by (intro run_browsers_kernel_ok) (simp_all add: bt_turn_ok_def)
  show ?case
  proof (cases "bn_poll t < 0 \<and> bn_poll t \<noteq> - BT_EINTR")
    case True
    then show ?thesis using Cons.prems(4) by (intro exI[of _ "[]"]) (simp add: Let_def)
  next
    case False
    let ?n = "nat (bn_poll t)"
    let ?evs = "take ?n (bt_rb ?st1)"
    let ?wes = "zip (map (bn_worlds t) [0..<length ?evs]) ?evs"
    let ?st2 = "?st1\<lparr>bt_rb := drop ?n (bt_rb ?st1)\<rparr>"
    have wes: "bw_readlink w = readlink \<and> kernel_ok (bt_rodata env) e" if "(w, e) \<in> set ?wes" for w e
      using set_zip_leftD[OF that] set_zip_rightD[OF that] ok Cons.prems(1) by (auto simp: bt_turn_ok_def list_all_iff dest: in_set_takeD)
    then have len: "\<forall>(w, e)\<in>set ?wes. bw_readlink w = readlink \<and> length (be_buf e) = BT_MAX_BUF_SIZE"
      by (auto simp: kernel_ok_def browser_event_ok_def)
    obtain out1 u1 where h: "bt_handle_events env ?wes u = (out1, u1)" by fastforce
    obtain err2 st2 u2 out2 where l: "bt_loop env ts 0 ?st2 u1 = (err2, st2, u2, out2)" by (metis prod.exhaust)
    have uok: "user_ok readlink u1" and usel: "bt_selected w' env u1 e' = bt_selected w' env u e'" for w' e'
      using bt_handle_events_user[OF len Cons.prems(2), where env = env and w' = w' and e' = e'] unfolding h snd_conv by blast+
    have "list_all (kernel_ok (bt_rodata env)) (bt_rb ?st2)" using ok by (auto simp: list_all_iff dest: in_set_dropD)
    then obtain es where es: "out2 = concat (map line_of es)"
      "list_all (\<lambda>(w, e). kernel_ok (bt_rodata env) e \<and> bw_readlink w = readlink \<and> bt_selected w env u1 e) es"
      using Cons.IH[OF _ uok _ l] Cons.prems(1) by auto
    let ?es1 = "filter (\<lambda>(w, e). bt_selected w env u e) ?wes"
    have "out1 = concat (map line_of ?es1)"
      using bt_handle_events_ok[OF len Cons.prems(2), of env, unfolded h fst_conv]
      by (simp add: concat_filtered[symmetric] line_of_def case_prod_unfold cong: if_cong)
    moreover have "out = out1 @ out2" using Cons.prems(4) False h l by (simp add: Let_def)
    ultimately have "out = concat (map line_of (?es1 @ es))" using es(1) by simp
    moreover have "list_all (\<lambda>(w, e). kernel_ok (bt_rodata env) e \<and> bw_readlink w = readlink \<and> bt_selected w env u e) (?es1 @ es)"
      using es(2) usel wes by (auto simp: list_all_iff)
    ultimately show ?thesis by blast
  qed
qed (auto intro: exI[of _ "[]"])

text \<open>
  C17: whatever the traced processes do, what a run of the browser tracer prints is a sequence of event
  lines, and every event comes from a process that runs the attached browser (by path or by file name),
  that the process and user filter of the command line select, and whose command name passes the filter;
  its buffer is intact. This holds while processes keep the program they run.
\<close>

theorem browser_main_prints_selected:
  assumes "bt_main s argv turns = Some (Bt_exit status (Some (target, links)) out left)" "bt_parse_args argv bt_default_opts = Inr env"
    and "list_all (bt_turn_ok readlink) turns" "bs_alloc s = Some buf" "length buf = BT_MAX_BUF_SIZE + 1"
    and "\<forall>p r. bh_realpath (bs_host s) p = Some r \<longrightarrow> length r < BT_PATH_MAX" "bh_file (bs_host s) [] = None"
  shows "\<exists>es. out = concat (map line_of es) \<and>
    list_all (\<lambda>(w, e). kernel_ok (bt_rodata env) e \<and> bo_comm env \<in> {None, Some (c_str (be_comm e))} \<and>
      runs_target target (path_basename_ptr target) readlink (be_pid e)) es"
proof -
  let ?u0 = "\<lparr>target_pid_cache = empty_cache, target_exec_path = [], target_exec_basename = [], bu_event_buf = buf, bu_start = 0\<rparr>"
  let ?u = "setup_target_process_filter (the (bo_binary_path env)) target ?u0"
  obtain err' st' u' where target: "resolve_target_binary (bs_host s) (the (bo_binary_path env)) BT_PATH_MAX = Some target"
    and loop: "bt_loop env turns 0 bt_empty ?u = (err', st', u', out)"
    using assms(1,2,4) by (auto simp: bt_main_def bt_cleanup_def Let_def bind_eq_Some_conv split: if_splits option.splits prod.splits)
  have elf: "file_is_elf (bs_host s) target \<and> length target < BT_PATH_MAX"
    using resolve_loop_elf[OF assms(6)] target length_copy_string by (auto simp: resolve_target_binary_def)
  then have "target \<noteq> []" using assms(7) by (auto simp: file_is_elf_def)
  then have u: "user_ok readlink ?u" "target_exec_path ?u = target" "target_exec_basename ?u = path_basename_ptr target"
    using elf assms(5) by (simp_all add: user_ok_setup)
  moreover have "list_all (kernel_ok (bt_rodata env)) (bt_rb bt_empty)" by (simp add: bt_empty_def)
  ultimately obtain es where "out = concat (map line_of es)"
    "list_all (\<lambda>(w, e). kernel_ok (bt_rodata env) e \<and> bw_readlink w = readlink \<and> bt_selected w env ?u e) es"
    using bt_loop_lines[OF assms(3) u(1) _ loop] by blast
  moreover have "bo_comm env \<in> {None, Some (c_str (be_comm e))} \<and> runs_target target (path_basename_ptr target) readlink (be_pid e)"
    if "bw_readlink w = readlink" "bt_selected w env ?u e" for w e
    using that u(2,3)
    by (auto simp: bt_selected_def split: option.splits)
  ultimately show ?thesis by (intro exI[of _ es]) (fastforce simp: list_all_iff)
qed

text \<open>A run that attaches to a Firefox binary; Firefox writes three bytes to a socket that carries TLS.\<close>

definition firefox_host :: browser_host where
  "firefox_host = \<lparr>bh_file = [''/opt/firefox/firefox'' \<mapsto> elf_magic], bh_exec_ok = (\<lambda>_. False), bh_read_ok = (\<lambda>_. True),
     bh_realpath = (\<lambda>_. None), bh_readdir = (\<lambda>_. Some [''libnspr4.so'', ''libssl3.so'']), bh_popen = (\<lambda>_. None)\<rparr>"

definition firefox_sys :: bt_sys where
  "firefox_sys = \<lparr>bs_open = True, bs_load = 0, bs_alloc = Some (replicate (BT_MAX_BUF_SIZE + 1) NUL), bs_host = firefox_host,
     bs_attach = (\<lambda>_. 0), bs_ring = None, bs_signal = True\<rparr>"

definition firefox_turn :: bt_turn where
  "firefox_turn = \<lparr>bn_calls = [(B_import_enter 99, bt_demo_env), (B_import_exit, bt_demo_env), (B_nss_rw_enter 99 64, bt_demo_env), (B_write_exit, bt_demo_env)],
     bn_poll = 1, bn_worlds = (\<lambda>_. bt_demo_world)\<rparr>"

lemma firefox_target:
  "resolve_target_binary firefox_host ''/opt/firefox/firefox'' BT_PATH_MAX = Some ''/opt/firefox/firefox''"
proof -
  have elf: "file_is_elf firefox_host ''/opt/firefox/firefox''" by (simp add: firefox_host_def file_is_elf_def elf_magic_def)
  have len: "length ''/opt/firefox/firefox'' < BT_PATH_MAX" by (simp add: BT_PATH_MAX_def)
  obtain d where "(4::nat) = Suc d" by simp
  then show ?thesis
    unfolding resolve_target_binary_def copy_string_id[OF len] by (simp only: resolve_loop.simps elf copy_string_id[OF len] if_True)
qed

lemma firefox_libs:
  "detect_linked_tls_libraries firefox_host ''/opt/firefox/firefox'' = \<lparr>lib_nspr = ''/opt/firefox/libnspr4.so'', lib_nss_ssl3 = ''/opt/firefox/libssl3.so''\<rparr>"
proof -
  have dir: "path_dirname_copy ''/opt/firefox/firefox'' BT_PATH_MAX = Some ''/opt/firefox''"
    by (simp add: path_dirname_copy_def after_last_def BT_PATH_MAX_def)
  have fs: "bh_readdir firefox_host d = Some [''libnspr4.so'', ''libssl3.so'']" "bh_read_ok firefox_host p" for d p
    by (simp_all add: firefox_host_def)
  have lib: "path_join BT_PATH_MAX ''/opt/firefox'' ''libnspr4.so'' = Some ''/opt/firefox/libnspr4.so''"
    "path_join BT_PATH_MAX ''/opt/firefox'' ''libssl3.so'' = Some ''/opt/firefox/libssl3.so''"
    "copy_string BT_PATH_MAX ''/opt/firefox/libnspr4.so'' = ''/opt/firefox/libnspr4.so''"
    "copy_string BT_PATH_MAX ''/opt/firefox/libssl3.so'' = ''/opt/firefox/libssl3.so''"
    by (simp_all add: path_join_def copy_string_def BT_PATH_MAX_def)
  have "find_library_in_dir firefox_host ''/opt/firefox/firefox'' ''libnspr4.so'' BT_PATH_MAX = Some ''/opt/firefox/libnspr4.so''"
    "find_library_in_dir firefox_host ''/opt/firefox/firefox'' ''libssl3.so'' BT_PATH_MAX = Some ''/opt/firefox/libssl3.so''"
    by (simp_all add: find_library_in_dir_def dir fs strncmp_eq_def lib)
  then show ?thesis by (simp add: detect_linked_tls_libraries_def detect_library_def)
qed

lemma firefox_attached:
  "\<exists>links. attach_browser_target firefox_host (\<lambda>_. 0) ''/opt/firefox/firefox'' (detect_linked_tls_libraries firefox_host ''/opt/firefox/firefox'') no_links = Some (0, links)"
proof -
  have rep: "replicate BROWSER_EXTRA_LINK_CAP (None :: bt_link option) =
      [None, None, None, None, None, None, None, None, None, None, None, None, None, None, None, None]"
    by (simp add: BROWSER_EXTRA_LINK_CAP_def numeral_eq_Suc)
  have "\<not> target_is_chromium_family ''/opt/firefox/firefox''" "target_is_firefox ''/opt/firefox/firefox''"
    by (simp_all add: target_is_chromium_family_def target_is_firefox_def path_has_basename_def path_basename_ptr_def after_last_def)
  then show ?thesis
    by (simp add: attach_browser_target_def firefox_libs bt_attach_nss_def no_links_def rep attach_symbol_program_def
        attach_symbol_program_extra_def remember_extra_link_def)
qed

theorem browser_main_prints_selected_witness:
  "\<exists>status links out left es. bt_main firefox_sys [BA_binary_path ''/opt/firefox/firefox''] [firefox_turn] =
      Some (Bt_exit status (Some (''/opt/firefox/firefox'', links)) out left) \<and> out = concat (map line_of es) \<and>
    list_all (\<lambda>(w, e). runs_target ''/opt/firefox/firefox'' ''firefox'' (bw_readlink bt_demo_world) (be_pid e)) es"
proof -
  obtain links where links: "attach_browser_target firefox_host (\<lambda>_. 0) ''/opt/firefox/firefox''
      (detect_linked_tls_libraries firefox_host ''/opt/firefox/firefox'') no_links = Some (0, links)"
    using firefox_attached by blast
  let ?env = "bt_default_opts\<lparr>bo_binary_path := Some ''/opt/firefox/firefox''\<rparr>"
  have env: "bt_parse_args [BA_binary_path ''/opt/firefox/firefox''] bt_default_opts = Inr ?env" by simp
  let ?u = "setup_target_process_filter ''/opt/firefox/firefox'' ''/opt/firefox/firefox''
      \<lparr>target_pid_cache = empty_cache, target_exec_path = [], target_exec_basename = [], bu_event_buf = replicate (BT_MAX_BUF_SIZE + 1) NUL, bu_start = 0\<rparr>"
  obtain err st u out where loop: "bt_loop ?env [firefox_turn] 0 bt_empty ?u = (err, st, u, out)" by (metis prod.exhaust)
  have sys: "bs_open firefox_sys" "bs_load firefox_sys = 0" "bs_alloc firefox_sys = Some (replicate (BT_MAX_BUF_SIZE + 1) NUL)"
    "bs_host firefox_sys = firefox_host" "bs_attach firefox_sys = (\<lambda>_. 0)" "bs_ring firefox_sys = None" "bs_signal firefox_sys"
    by (simp_all add: firefox_sys_def)
  have run: "bt_main firefox_sys [BA_binary_path ''/opt/firefox/firefox''] [firefox_turn] =
      Some (Bt_exit (if err \<noteq> 0 then 1 else 0) (Some (''/opt/firefox/firefox'', links)) out (destroy_browser_links links))"
    using loop by (simp add: bt_main_def env sys firefox_target links bt_cleanup_def del: bt_loop.simps bt_parse_args.simps replicate_Suc)
  have base: "path_basename_ptr ''/opt/firefox/firefox'' = ''firefox''" by (simp add: path_basename_ptr_def after_last_def)
  have "list_all (bt_turn_ok (bw_readlink bt_demo_world)) [firefox_turn]" by (simp add: bt_turn_ok_def firefox_turn_def bt_demo_facts)
  from browser_main_prints_selected[OF run env this, where buf = "replicate (BT_MAX_BUF_SIZE + 1) NUL", unfolded base]
  have "\<exists>es. out = concat (map line_of es) \<and>
    list_all (\<lambda>(w, e). kernel_ok (bt_rodata ?env) e \<and> bo_comm ?env \<in> {None, Some (c_str (be_comm e))} \<and>
      runs_target ''/opt/firefox/firefox'' ''firefox'' (bw_readlink bt_demo_world) (be_pid e)) es"
    by (simp only: sys length_replicate) (simp add: firefox_host_def)
  then obtain es where "out = concat (map line_of es)"
    "list_all (\<lambda>(w, e). kernel_ok (bt_rodata ?env) e \<and> bo_comm ?env \<in> {None, Some (c_str (be_comm e))} \<and>
      runs_target ''/opt/firefox/firefox'' ''firefox'' (bw_readlink bt_demo_world) (be_pid e)) es" by blast
  then show ?thesis using run by (fastforce simp: list_all_iff)
qed

end
