(* ===== verification/Spec2Isabelle.thy ===== *)
theory Spec2Isabelle
  imports Process_Main Sslsniff Stdiocap Browsertrace
begin

text \<open>
  AgentSight observes AI agents from outside the process: four tracers, each a set of BPF programs that
  run in the kernel and a C program that loads them, write one JSON object per line, and the Rust
  collector reads these lines. This library models the C code of the tracers, all of \<open>bpf/\<close> except its
  tests: what the BPF programs store and emit, what the loaders select, search, attach and print.

  The program and the theories. In \<open>bpf/process.c\<close> the process tracer follows which processes belong to
  an agent and reports their exec, exit, file, network, signal and memory activity; \<open>bpf/sslsniff.c\<close>
  captures what passes through TLS libraries, \<open>bpf/stdiocap.c\<close> what passes through read and write
  calls, and \<open>bpf/browsertrace.c\<close> the plaintext inside Chrome and Firefox.

  \<^item> \<open>Prelude\<close> has the machine types, C strings, decimal output and list lemmas; \<open>Bpf_Runtime\<close> the BPF
    helpers a program calls: hash maps with and without room, reads of user memory, iteration over a map
    (locale \<open>map_iter\<close>, the documented behaviour of \<open>bpf_map_get_next_key\<close>). \<open>C_Output\<close> has \<open>atoi\<close>,
    \<open>strstr\<close> and the \<open>%.3f\<close> output of a duration with the rounding of doubles written out.
  \<^item> \<open>Linear_Probing\<close> is the theory of open addressing with deletion by reinsertion; \<open>Bounded_Map\<close> and
    \<open>Paired_Calls\<close> are locales: a map of bounded capacity, and probes on the entry and return of a
    function that are paired by thread.
  \<^item> \<open>Process_Filter\<close> models \<open>bpf/process_filter.h\<close>: \<open>pid_tracker\<close> is the table of 4096 slots, and its
    operations keep the invariant of linear probing; the interpretation of \<open>Bounded_Map\<close> makes it a map.
  \<^item> \<open>Jsonl\<close> models \<open>bpf/jsonl.h\<close>; \<open>Json_Line\<close> parses and renders the objects the payload tracers print;
    \<open>Proc_Info\<close> models \<open>bpf/process_utils.h\<close> and \<open>bpf/container_info.h\<close>.
  \<^item> \<open>Process_Bpf\<close> (\<open>bpf/process.bpf.c\<close>), \<open>Process_Ext\<close> (the programs under \<open>bpf/process_ext/\<close>) and
    \<open>Map_Flush\<close> (\<open>map_flush.h\<close>, \<open>userspace.h\<close>) are the kernel side of the process tracer and the reading
    of its aggregation map; \<open>Process_Options\<close>, \<open>File_Opens\<close> and \<open>Process_Main\<close> are \<open>bpf/process.c\<close>: the
    command line, rate limit and deduplication of file opens, and \<open>handle_event\<close> with \<open>main\<close>.
  \<^item> \<open>Pattern_Search\<close> models the searches for code by byte patterns (\<open>bpf/codex_offsets.h\<close>,
    \<open>find_boringssl_offsets\<close> of \<open>sslsniff.c\<close>, \<open>find_chrome_plaintext_offsets\<close> of \<open>browsertrace.c\<close>).
  \<^item> \<open>Ssl_Bpf\<close> and \<open>Ssl_Capture\<close> (\<open>bpf/sslsniff.bpf.c\<close>), \<open>Sslsniff\<close> (\<open>bpf/sslsniff.c\<close>); \<open>Stdio_Bpf\<close>
    (\<open>bpf/stdiocap.bpf.c\<close>), \<open>Stdiocap\<close> (\<open>bpf/stdiocap.c\<close>); \<open>Browser_Bpf\<close> (\<open>bpf/browsertrace.bpf.c\<close>),
    \<open>Browser_Target\<close> and \<open>Browsertrace\<close> (\<open>bpf/browsertrace.c\<close>) are the payload tracers.

  How the code is represented. A struct is a record and an enum a datatype, with the C names where they
  are free; the fields of \<open>env\<close> and the static variables of a file are a record that the functions take
  and return. Integers are words of their width, and sizes that cannot overflow are naturals. A BPF map
  is a finite map, a program a function of the maps and a \<open>bpf_env\<close> that gives what the helpers answer
  to this invocation. Output is a byte list. An access that C leaves undefined (an index outside an array,
  a search beyond a mapped file) is the value \<open>None\<close>, and the theorems show that it does not occur. Calls
  to the system, to libbpf and to \<open>mbrtowc\<close> are answered by records (\<open>ssl_host\<close>, \<open>stdio_world\<close>,
  \<open>browser_host\<close> and so on) that are arguments of the definitions. A main loop runs over a list of turns,
  each with what the kernel side does and what the poll returns; the list ends when a signal sets
  \<open>exiting\<close>, so a theorem about all lists is one about all runs that end. No fuel is needed otherwise:
  every loop of the code is bounded by an argument, and the four turns of \<open>resolve_target_binary\<close> are the
  bound in the source.

  What the lemmas show.

  \<^item> Process tracer: the handler and the table keep the user-space tracker and the kernel's filter equal
    to the set of processes that belong to the agent, for every sequence of events and also with a full
    table, and \<open>main\<close> returns with the two equal, or, when the command line gave seed PIDs that do not fit 31
    bits, equal up to these seeds, which the filter does not take (\<open>agrees\<close>). Events of other processes print nothing. Each
    event of a tracked process is counted exactly once, in the aggregation map or the overflow counter,
    a flush prints every entry once, and it ends; the flush of one process deletes exactly its first 256.
  \<^item> TLS tracer: a call that is traced at entry and return gives exactly one event, with the bytes of the
    buffer passed at entry, whatever other threads do; no sequence of probes leaves the event buffer; the
    printed line parses back to the captured bytes; a run with a binary on the command line never starts
    on partial capture.
  \<^item> Stream tracer: the same for read and write calls, with an invariant over the calls of a run: everything
    stored or printed goes back to a call that the user, process or session, and descriptor filters select,
    also when the kernel's maps are full.
  \<^item> Browser tracer: the descriptors of Firefox that are captured are those imported into TLS and not yet
    closed; attaching is all or nothing; the cache of processes and the reused buffer do not influence
    the output, and a run prints only events of processes that run the browser and pass the filters.
  \<^item> Output: the escape prints a valid JSON string for every input in a UTF-8 locale and loses nothing of a
    UTF-8 text; the UTF-8 test is the one of RFC 3629.

  Not modelled. Debug output to standard error, which does not influence the rest; the loading of BPF
  objects and the verifier, of which only the result is a parameter; the type dumps under \<open>vmlinux/\<close> and
  the tests, which have no logic of their own; the Rust, TypeScript and Python parts (collector, capture and
  protocol crates, frontend, packaging), which are other programs that read the tracers' lines. Threads
  interleave at the granularity of whole BPF programs: what two programs that run at the same time on two
  processors do to the same map entry is not covered. A process is taken to keep its memory while one
  program reads it.
\<close>

end
